(* ===== verification/Prelude.thy ===== *)
theory Prelude
  imports Main "HOL-Library.AList"
begin

text \<open>
  What every component of the model shares: the result type of code that may
  throw, loops over arrays that stop at the first throw, the JavaScript
  \<open>Map\<close> and \<open>Set\<close> as insertion-ordered lists, and the collections of rewrite
  rules the component proofs use.

  A thrown error is \<open>Inl e\<close>, a value is \<open>Inr v\<close>. A JavaScript \<open>Map\<close> is an
  association list with distinct keys: \<open>set\<close> of a present key keeps its
  position, \<open>set\<close> of a new key appends, and iteration follows the list. The
  same representation serves the tables of the database, keyed by their
  primary key.
\<close>

named_theorems res_simps \<open>results: reading a composed computation backwards\<close>
named_theorems run_simps \<open>definitions a concrete run unfolds\<close>
named_theorems map_simps \<open>JavaScript Maps as association lists\<close>

section \<open>Results\<close>

type_synonym ('e, 'a) res = "'e + 'a"

definition bind_res :: "('e, 'a) res \<Rightarrow> ('a \<Rightarrow> ('e, 'b) res) \<Rightarrow> ('e, 'b) res" where
  "bind_res r f = (case r of Inl e \<Rightarrow> Inl e | Inr a \<Rightarrow> f a)"

definition guard_res :: "bool \<Rightarrow> 'e \<Rightarrow> ('e, unit) res" where
  "guard_res b e = (if b then Inr () else Inl e)"

lemma bind_res_simps [simp]:
  "bind_res (Inl e) f = Inl e"
  "bind_res (Inr a) f = f a"
  by (simp_all add: bind_res_def)

lemma bind_res_Inr_iff [res_simps]:
  "bind_res r f = Inr b \<longleftrightarrow> (\<exists>a. r = Inr a \<and> f a = Inr b)"
  by (cases r) simp_all

lemma guard_res_Inr_iff [res_simps]: "guard_res b e = Inr u \<longleftrightarrow> b"
  by (simp add: guard_res_def)

lemma guard_res_Inl_iff [simp]: "guard_res b e = Inl e' \<longleftrightarrow> \<not> b \<and> e' = e"
  by (auto simp: guard_res_def)

lemma guard_res_simps [simp]:
  "guard_res True e = Inr ()"
  "guard_res False e = Inl e"
  by (simp_all add: guard_res_def)

lemma bind_res_assoc:
  "bind_res (bind_res r f) g = bind_res r (\<lambda>a. bind_res (f a) g)"
  by (cases r) simp_all

lemma bind_res_cong [fundef_cong]:
  "r = r' \<Longrightarrow> (\<And>a. r' = Inr a \<Longrightarrow> f a = g a) \<Longrightarrow> bind_res r f = bind_res r' g"
  by (cases r') simp_all

text \<open>\<open>Array.map\<close> with a callback that may throw, left to right.\<close>

fun traverse :: "('a \<Rightarrow> ('e, 'b) res) \<Rightarrow> 'a list \<Rightarrow> ('e, 'b list) res" where
  "traverse f [] = Inr []"
| "traverse f (x # xs) = bind_res (f x) (\<lambda>y. bind_res (traverse f xs) (\<lambda>ys. Inr (y # ys)))"

lemma traverse_Inr_iff [res_simps]:
  "traverse f xs = Inr ys \<longleftrightarrow> list_all2 (\<lambda>x y. f x = Inr y) xs ys"
  by (induction xs arbitrary: ys) (auto simp: bind_res_Inr_iff list_all2_Cons1)

lemma traverse_length: "traverse f xs = Inr ys \<Longrightarrow> length ys = length xs"
  by (auto simp: traverse_Inr_iff dest: list_all2_lengthD)

lemma traverse_origin: "traverse f xs = Inr ys \<Longrightarrow> y \<in> set ys \<Longrightarrow> \<exists>x \<in> set xs. f x = Inr y"
  by (force simp: traverse_Inr_iff list_all2_conv_all_nth in_set_conv_nth)

lemma traverse_image: "traverse f xs = Inr ys \<Longrightarrow> x \<in> set xs \<Longrightarrow> \<exists>y \<in> set ys. f x = Inr y"
  by (force simp: traverse_Inr_iff list_all2_conv_all_nth in_set_conv_nth)

lemma traverse_all_Inr: "(\<And>x. x \<in> set xs \<Longrightarrow> f x = Inr (g x)) \<Longrightarrow> traverse f xs = Inr (map g xs)"
  by (induction xs) auto

lemma traverse_append:
  "traverse f (xs @ ys) =
     bind_res (traverse f xs) (\<lambda>us. bind_res (traverse f ys) (\<lambda>vs. Inr (us @ vs)))"
proof (induction xs)
  case Nil
  show ?case by (cases "traverse f ys") simp_all
next
  case (Cons x xs)
  show ?case
    by (cases "f x"; cases "traverse f xs"; cases "traverse f ys") (simp_all add: Cons)
qed

lemma traverse_map: "traverse f (map g xs) = traverse (\<lambda>x. f (g x)) xs"
  by (induction xs) simp_all

lemma traverse_concat:
  "traverse f (concat xss) = bind_res (traverse (traverse f) xss) (\<lambda>yss. Inr (concat yss))"
proof (induction xss)
  case Nil
  then show ?case by simp
next
  case (Cons xs xss)
  then show ?case
    by (cases "traverse f xs"; cases "traverse (traverse f) xss") (simp_all add: traverse_append)
qed

lemma set_map_filter_iff: "y \<in> set (List.map_filter f xs) \<longleftrightarrow> (\<exists>x \<in> set xs. f x = Some y)"
  by (force simp: map_filter_def)

text \<open>A \<open>for\<close> loop over an array whose body updates a state and may throw.\<close>

fun foldM :: "('s \<Rightarrow> 'a \<Rightarrow> ('e, 's) res) \<Rightarrow> 's \<Rightarrow> 'a list \<Rightarrow> ('e, 's) res" where
  "foldM f s [] = Inr s"
| "foldM f s (x # xs) = bind_res (f s x) (\<lambda>s'. foldM f s' xs)"

lemma foldM_append:
  "foldM f s (xs @ ys) = bind_res (foldM f s xs) (\<lambda>s'. foldM f s' ys)"
  by (induction xs arbitrary: s) (auto simp: bind_res_assoc)

lemma foldM_invariant:
  assumes "foldM f s xs = Inr s'" and "P s"
    and "\<And>s x t. x \<in> set xs \<Longrightarrow> P s \<Longrightarrow> f s x = Inr t \<Longrightarrow> P t"
  shows "P s'"
  using assms
proof (induction xs arbitrary: s)
  case Nil
  then show ?case by simp
next
  case (Cons x xs)
  from Cons.prems(1) obtain t where t: "f s x = Inr t" "foldM f t xs = Inr s'"
    by (auto simp: res_simps)
  have "P t" using Cons.prems(2,3) t(1) by (meson list.set_intros(1))
  then show ?case using Cons.IH [OF t(2)] Cons.prems(3) by (meson list.set_intros(2))
qed

section \<open>Maps\<close>

text \<open>
  The contract of \<open>Map\<close> its clients rely on, and what follows from it: the
  entries a loop of \<open>set\<close> calls leaves behind.
\<close>

locale key_map =
  fixes get :: "'m \<Rightarrow> 'k \<Rightarrow> 'v option"
    and put :: "'k \<Rightarrow> 'v \<Rightarrow> 'm \<Rightarrow> 'm"
    and del :: "'k \<Rightarrow> 'm \<Rightarrow> 'm"
    and ok :: "'m \<Rightarrow> bool"
  assumes get_put: "get (put k v m) = (get m)(k \<mapsto> v)"
    and get_del: "get (del k m) = (get m)(k := None)"
    and ok_put: "ok m \<Longrightarrow> ok (put k v m)"
    and ok_del: "ok m \<Longrightarrow> ok (del k m)"
begin

lemma get_put_all:
  "get (fold (\<lambda>(k, v). put k v) kvs m) k = (case map_of (rev kvs) k of None \<Rightarrow> get m k | Some v \<Rightarrow> Some v)"
proof (induction kvs arbitrary: m)
  case Nil
  then show ?case by simp
next
  case (Cons kv kvs)
  then show ?case by (auto simp: get_put map_add_def split: prod.splits option.splits)
qed

lemma ok_put_all: "ok m \<Longrightarrow> ok (fold (\<lambda>(k, v). put k v) kvs m)"
  by (induction kvs arbitrary: m) (auto simp: ok_put)

lemma ok_del_all: "ok m \<Longrightarrow> ok (fold del ks m)"
  by (induction ks arbitrary: m) (auto simp: ok_del)

lemma get_del_all: "get (fold del ks m) k = (if k \<in> set ks then None else get m k)"
  by (induction ks arbitrary: m) (auto simp: get_del)

end

type_synonym ('k, 'v) jsmap = "('k \<times> 'v) list"

abbreviation mput :: "'k \<Rightarrow> 'v \<Rightarrow> ('k, 'v) jsmap \<Rightarrow> ('k, 'v) jsmap" where
  "mput \<equiv> AList.update"

abbreviation mdel :: "'k \<Rightarrow> ('k, 'v) jsmap \<Rightarrow> ('k, 'v) jsmap" where
  "mdel \<equiv> AList.delete"

abbreviation mok :: "('k, 'v) jsmap \<Rightarrow> bool" where
  "mok m \<equiv> distinct (map fst m)"

definition mhas :: "('k, 'v) jsmap \<Rightarrow> 'k \<Rightarrow> bool" where
  "mhas m k = (map_of m k \<noteq> None)"

interpretation jm: key_map map_of mput mdel mok
  by unfold_locales (simp_all add: AList.update_conv' AList.delete_conv' AList.distinct_update AList.distinct_delete)

declare jm.get_put [map_simps] jm.get_del [map_simps] jm.ok_put [map_simps] jm.ok_del [map_simps]

lemma mput_new: "map_of m k = None \<Longrightarrow> mput k v m = m @ [(k, v)]"
  by (induction m) (auto split: if_splits)

lemma mdel_absent: "map_of m k = None \<Longrightarrow> mdel k m = m"
  by (induction m) (auto split: if_splits)

lemma mput_keys: "fst ` set (mput k v m) = insert k (fst ` set m)"
  by (simp add: AList.dom_update)

lemma set_mput_subset: "set (mput k v m) \<subseteq> insert (k, v) (set m)"
  by (induction m) auto

lemma set_mdel_subset: "set (mdel k m) \<subseteq> set m"
  by (auto simp: AList.delete_eq)

lemma map_of_mok_iff: "mok m \<Longrightarrow> map_of m k = Some v \<longleftrightarrow> (k, v) \<in> set m"
  by simp

lemma mok_filter: "mok m \<Longrightarrow> mok (filter P m)"
  by (simp add: distinct_map_filter)

lemma mall_iff: "mok m \<Longrightarrow> list_all P m \<longleftrightarrow> (\<forall>k v. map_of m k = Some v \<longrightarrow> P (k, v))"
  by (auto simp: list_all_iff)

lemma mall_get: "list_all P m \<Longrightarrow> map_of m k = Some v \<Longrightarrow> P (k, v)"
  by (auto simp: list_all_iff dest: map_of_SomeD)

lemma mall_mput: "list_all P m \<Longrightarrow> P (k, v) \<Longrightarrow> list_all P (mput k v m)"
  using set_mput_subset [of k v m] by (auto simp: list_all_iff)

lemma mput_has [simp]: "mhas (mput k v m) k' \<longleftrightarrow> k' = k \<or> mhas m k'"
  by (simp add: mhas_def map_simps)

section \<open>Sets\<close>

text \<open>A JavaScript \<open>Set\<close>: \<open>add\<close> of a present element changes nothing.\<close>

definition sadd :: "'a \<Rightarrow> 'a list \<Rightarrow> 'a list" where
  "sadd x xs = (if x \<in> set xs then xs else xs @ [x])"

text \<open>\<open>new Set(xs)\<close>, iterated: first occurrences, in order.\<close>

definition js_set :: "'a list \<Rightarrow> 'a list" where
  "js_set xs = fold sadd xs []"

lemma set_sadd [simp]: "set (sadd x xs) = insert x (set xs)"
  by (auto simp: sadd_def)

lemma distinct_sadd [simp]: "distinct xs \<Longrightarrow> distinct (sadd x xs)"
  by (auto simp: sadd_def)

lemma set_fold_sadd: "set (fold sadd xs acc) = set acc \<union> set xs"
  by (induction xs arbitrary: acc) auto

lemma distinct_fold_sadd: "distinct acc \<Longrightarrow> distinct (fold sadd xs acc)"
  by (induction xs arbitrary: acc) auto

lemma set_js_set [simp]: "set (js_set xs) = set xs"
  by (simp add: js_set_def set_fold_sadd)

lemma distinct_js_set [simp]: "distinct (js_set xs)"
  by (simp add: js_set_def distinct_fold_sadd)

lemma fold_sadd_distinct:
  "distinct xs \<Longrightarrow> set acc \<inter> set xs = {} \<Longrightarrow> fold sadd xs acc = acc @ xs"
  by (induction xs arbitrary: acc) (auto simp: sadd_def)

lemma js_set_distinct: "distinct xs \<Longrightarrow> js_set xs = xs"
  by (simp add: js_set_def fold_sadd_distinct)

lemma length_js_set: "length (js_set xs) = card (set xs)"
  by (metis distinct_card distinct_js_set set_js_set)

text \<open>\<open>new Set(xs).size !== xs.length\<close> is how the code detects a repetition.\<close>

lemma js_set_size_iff: "length (js_set xs) = length xs \<longleftrightarrow> distinct xs"
  by (metis card_distinct distinct_card length_js_set)

end
