(* ===== verification/JsValue.thy ===== *)
theory JsValue
  imports Prelude "HOL-Library.List_Lexorder" "HOL-Library.Product_Lexorder"
begin

text \<open>
  JavaScript values as the boundary code of the backend sees them
  (\<open>unknown\<close>), and JavaScript text. A string is its list of UTF-16 code units;
  \<open>js\<close> embeds a program literal. \<open>codePoints\<close> is the string iterator,
  \<open>byteOrder\<close> the canonical Stream order of
  \<^verbatim>\<open>packages/backend/postgres/src/persistence.mts\<close>, and the main result is that
  it is the order of the UTF-8 encodings, which is what PostgreSQL's
  \<^verbatim>\<open>COLLATE "C"\<close> compares.
\<close>

section \<open>Text\<close>

type_synonym jsstr = "nat list"

definition js :: "string \<Rightarrow> jsstr" where
  "js s = map of_char s"

lemma js_inject [simp]: "js s = js t \<longleftrightarrow> s = t"
  unfolding js_def by (metis inj_map_eq_map inj_of_char)

lemma js_Nil [simp]: "js [] = []"
  by (simp add: js_def)

lemma js_eq_Nil [simp]: "js s = [] \<longleftrightarrow> s = []"
  by (simp add: js_def)

definition valid16 :: "jsstr \<Rightarrow> bool" where
  "valid16 s = list_all (\<lambda>u. u < 65536) s"

definition highSurrogate :: "nat \<Rightarrow> bool" where
  "highSurrogate u = (55296 \<le> u \<and> u \<le> 56319)"

definition lowSurrogate :: "nat \<Rightarrow> bool" where
  "lowSurrogate u = (56320 \<le> u \<and> u \<le> 57343)"

text \<open>\<open>[...s].map((c) => c.codePointAt(0))\<close>: a lone surrogate is its own code point.\<close>

fun codePoints :: "jsstr \<Rightarrow> nat list" where
  "codePoints [] = []"
| "codePoints [u] = [u]"
| "codePoints (u # v # us) =
     (if highSurrogate u \<and> lowSurrogate v
      then ((u - 55296) * 1024 + (v - 56320) + 65536) # codePoints us
      else u # codePoints (v # us))"

text \<open>The loop of \<open>byteOrder\<close>: the first differing code point decides, then the length.\<close>

fun compareLoop :: "nat list \<Rightarrow> nat list \<Rightarrow> int" where
  "compareLoop (x # xs) (y # ys) = (if x \<noteq> y then int x - int y else compareLoop xs ys)"
| "compareLoop xs ys = int (length xs) - int (length ys)"

definition byteOrder :: "jsstr \<Rightarrow> jsstr \<Rightarrow> int" where
  "byteOrder a b = compareLoop (codePoints a) (codePoints b)"

text \<open>\<open>String.prototype.trim\<close>: white space and line terminators of ECMAScript.\<close>

definition jsSpace :: "nat \<Rightarrow> bool" where
  "jsSpace u = (9 \<le> u \<and> u \<le> 13 \<or> u = 32 \<or> u = 160 \<or> u = 5760 \<or> 8192 \<le> u \<and> u \<le> 8202
     \<or> u = 8232 \<or> u = 8233 \<or> u = 8239 \<or> u = 8287 \<or> u = 12288 \<or> u = 65279)"

definition trim :: "jsstr \<Rightarrow> jsstr" where
  "trim s = rev (dropWhile jsSpace (rev (dropWhile jsSpace s)))"

lemma trim_idem: "trim (trim s) = trim s"
proof -
  define t where "t = dropWhile jsSpace s"
  define u where "u = rev (dropWhile jsSpace (rev t))"
  have ru: "dropWhile jsSpace (rev u) = rev u" by (simp add: u_def)
  have "dropWhile jsSpace u = u"
  proof (cases u)
    case (Cons c cs)
    have "u = take (length u) t"
      unfolding u_def by (metis append_eq_conv_conj length_rev rev_append rev_rev_ident takeWhile_dropWhile_id)
    then have "hd t = c" "t \<noteq> []" using Cons by (metis hd_take length_greater_0_conv list.distinct(1) list.sel(1), auto)
    then have "\<not> jsSpace c" using hd_dropWhile [of jsSpace s] by (simp add: t_def)
    then show ?thesis using Cons by simp
  qed simp
  then show ?thesis using ru by (simp add: trim_def flip: t_def u_def)
qed

text \<open>\<open>toLowerCase\<close> of the first character; the names are ASCII identifiers.\<close>

definition lowerFirst :: "jsstr \<Rightarrow> jsstr" where
  "lowerFirst s = (case s of [] \<Rightarrow> [] | c # cs \<Rightarrow> (if 65 \<le> c \<and> c \<le> 90 then c + 32 else c) # cs)"

text \<open>The specification of the canonical order: UTF-8 bytes, compared as numbers.\<close>

definition utf8 :: "nat \<Rightarrow> nat list" where
  "utf8 c =
     (if c < 128 then [c]
      else if c < 2048 then [192 + c div 64, 128 + c mod 64]
      else if c < 65536 then [224 + c div 4096, 128 + (c div 64) mod 64, 128 + c mod 64]
      else [240 + c div 262144, 128 + (c div 4096) mod 64, 128 + (c div 64) mod 64, 128 + c mod 64])"

definition utf8_bytes :: "jsstr \<Rightarrow> nat list" where
  "utf8_bytes s = concat (map utf8 (codePoints s))"

lemma trim_Nil_iff: "trim s = [] \<longleftrightarrow> list_all jsSpace s"
proof -
  have "trim s = [] \<longleftrightarrow> (\<forall>x\<in>set (dropWhile jsSpace s). jsSpace x)"
    by (simp add: trim_def dropWhile_eq_Nil_conv)
  also have "\<dots> \<longleftrightarrow> dropWhile jsSpace s = []"
    by (metis dropWhile_eq_Nil_conv empty_iff hd_dropWhile hd_in_set list.set(1))
  finally show ?thesis by (simp add: dropWhile_eq_Nil_conv list_all_iff)
qed

subsection \<open>Order\<close>

lemma append_less_append_iff [simp]: "(xs :: nat list) @ ys < xs @ zs \<longleftrightarrow> ys < zs"
  by (induction xs) auto

lemma div_mod_less:
  fixes c d n :: nat
  assumes "c < d"
  shows "c div n < d div n \<or> c div n = d div n \<and> c mod n < d mod n"
proof (cases "c div n = d div n")
  case True
  have "d div n * n + c mod n < d div n * n + d mod n"
    using assms by (subst (1) True [symmetric]) (simp only: div_mult_mod_eq)
  then have "c mod n < d mod n" by (simp only: add_less_cancel_left)
  with True show ?thesis by simp
next
  case False
  with assms show ?thesis by (simp add: div_le_mono le_neq_implies_less)
qed

lemma bytes_less:
  fixes a b c d a' b' c' d' :: nat
  shows "a < a' \<or> a = a' \<and> b < b' \<Longrightarrow> [192 + a, 128 + b] @ xs < [192 + a', 128 + b'] @ ys"
    and "a < a' \<or> a = a' \<and> (b < b' \<or> b = b' \<and> c < c') \<Longrightarrow>
      [224 + a, 128 + b, 128 + c] @ xs < [224 + a', 128 + b', 128 + c'] @ ys"
    and "a < a' \<or> a = a' \<and> (b < b' \<or> b = b' \<and> (c < c' \<or> c = c' \<and> d < d')) \<Longrightarrow>
      [240 + a, 128 + b, 128 + c, 128 + d] @ xs < [240 + a', 128 + b', 128 + c', 128 + d'] @ ys"
  by auto

lemma head_byte_less: "hd bs < hd cs \<Longrightarrow> bs \<noteq> [] \<Longrightarrow> cs \<noteq> [] \<Longrightarrow> bs @ xs < cs @ (ys :: nat list)"
  by (cases bs; cases cs) auto

lemma utf8_less:
  assumes "c < d"
  shows "utf8 c @ xs < utf8 d @ ys"
proof -
  have e1: "x div 4096 = x div 64 div 64" and e2: "x div 262144 = x div 4096 div 64" for x :: nat
    using div_mult2_eq [of x 64 64] div_mult2_eq [of x 4096 64] by simp_all
  have two: "c div 64 < d div 64 \<or> c div 64 = d div 64 \<and> c mod 64 < d mod 64"
    using assms by (rule div_mod_less)
  have three: "c div 64 < d div 64 \<Longrightarrow> c div 4096 < d div 4096 \<or>
      c div 4096 = d div 4096 \<and> c div 64 mod 64 < d div 64 mod 64"
    unfolding e1 by (rule div_mod_less)
  have four: "c div 4096 < d div 4096 \<Longrightarrow> c div 262144 < d div 262144 \<or>
      c div 262144 = d div 262144 \<and> c div 4096 mod 64 < d div 4096 mod 64"
    unfolding e2 by (rule div_mod_less)
  have eq4: "c div 64 = d div 64 \<Longrightarrow> c div 4096 = d div 4096"
    by (simp only: e1)
  have eq5: "c div 4096 = d div 4096 \<Longrightarrow> c div 262144 = d div 262144"
    by (simp only: e2)
  have bounds: "c < 2048 \<Longrightarrow> c div 64 < 32" "c < 65536 \<Longrightarrow> c div 4096 < 16" by simp_all
  consider (same1) "d < 128" | (same2) "128 \<le> c" "d < 2048" | (same3) "2048 \<le> c" "d < 65536"
    | (same4) "65536 \<le> c"
    | (to2) "c < 128" "128 \<le> d" | (to3) "128 \<le> c" "c < 2048" "2048 \<le> d"
    | (to4) "2048 \<le> c" "c < 65536" "65536 \<le> d"
    by linarith
  then show ?thesis
  proof cases
    case same1
    with assms show ?thesis by (simp add: utf8_def)
  next
    case same2
    with assms have "utf8 c = [192 + c div 64, 128 + c mod 64]" "utf8 d = [192 + d div 64, 128 + d mod 64]"
      by (simp_all add: utf8_def)
    with two show ?thesis by (metis bytes_less(1))
  next
    case same3
    with assms have u: "utf8 c = [224 + c div 4096, 128 + (c div 64) mod 64, 128 + c mod 64]"
      "utf8 d = [224 + d div 4096, 128 + (d div 64) mod 64, 128 + d mod 64]"
      by (simp_all add: utf8_def)
    show ?thesis unfolding u using two three eq4 by (intro bytes_less(2)) metis
  next
    case same4
    with assms have u: "utf8 c = [240 + c div 262144, 128 + (c div 4096) mod 64, 128 + (c div 64) mod 64, 128 + c mod 64]"
      "utf8 d = [240 + d div 262144, 128 + (d div 4096) mod 64, 128 + (d div 64) mod 64, 128 + d mod 64]"
      by (simp_all add: utf8_def)
    show ?thesis unfolding u using two three four eq4 eq5 by (intro bytes_less(3)) metis
  next
    case to2
    then show ?thesis by (intro head_byte_less) (simp_all add: utf8_def)
  next
    case to3
    with bounds show ?thesis by (intro head_byte_less) (simp_all add: utf8_def)
  next
    case to4
    with bounds show ?thesis by (intro head_byte_less) (simp_all add: utf8_def)
  qed
qed

lemma Nil_less_utf8: "[] < concat (map utf8 ys) \<longleftrightarrow> ys \<noteq> []"
  by (cases ys) (auto simp: utf8_def)

lemma compareLoop_neg_iff:
  "compareLoop xs ys < 0 \<longleftrightarrow> concat (map utf8 xs) < concat (map utf8 ys)"
proof (induction xs ys rule: compareLoop.induct)
  case (1 x xs y ys)
  consider "x < y" | "y < x" | "x = y" by linarith
  then show ?case
  proof cases
    case 1
    then show ?thesis using utf8_less [of x y] by simp
  next
    case 2
    then show ?thesis using utf8_less [OF 2, of "concat (map utf8 ys)" "concat (map utf8 xs)"]
      by auto
  next
    case 3
    with 1 show ?thesis by simp
  qed
qed (auto simp: Nil_less_utf8)

lemma byteOrder_neg_iff: "byteOrder a b < 0 \<longleftrightarrow> utf8_bytes a < utf8_bytes b"
  by (simp add: byteOrder_def utf8_bytes_def compareLoop_neg_iff)

lemma compareLoop_antisym: "compareLoop ys xs = - compareLoop xs ys"
  by (induction xs ys rule: compareLoop.induct) auto

lemma compareLoop_eq_0_iff: "compareLoop xs ys = 0 \<longleftrightarrow> xs = ys"
  by (induction xs ys rule: compareLoop.induct) auto

text \<open>Two strings with the same code points are the same string.\<close>

definition units :: "nat \<Rightarrow> nat list" where
  "units c = (if c < 65536 then [c] else [55296 + (c - 65536) div 1024, 56320 + (c - 65536) mod 1024])"

lemma units_pair:
  assumes "highSurrogate u" and "lowSurrogate v"
  shows "units ((u - 55296) * 1024 + (v - 56320) + 65536) = [u, v]"
proof -
  have "v - 56320 < 1024" using assms(2) by (auto simp: lowSurrogate_def)
  then have "((u - 55296) * 1024 + (v - 56320)) div 1024 = u - 55296"
    and "((u - 55296) * 1024 + (v - 56320)) mod 1024 = v - 56320"
    by simp_all
  moreover have "55296 + (u - 55296) = u" "56320 + (v - 56320) = v"
    using assms by (auto simp: highSurrogate_def lowSurrogate_def)
  ultimately show ?thesis unfolding units_def by (simp del: add_diff_assoc)
qed

lemma units_codePoints: "valid16 s \<Longrightarrow> concat (map units (codePoints s)) = s"
proof (induction s rule: codePoints.induct)
  case 1
  then show ?case by simp
next
  case (2 u)
  then show ?case by (simp add: valid16_def units_def)
next
  case (3 u v us)
  have "u < 65536" using "3.prems" by (simp add: valid16_def)
  then have "units u = [u]" by (simp add: units_def)
  with 3 show ?case by (auto simp: valid16_def units_pair)
qed

lemma codePoints_inject:
  assumes "valid16 a" and "valid16 b" and "codePoints a = codePoints b"
  shows "a = b"
proof -
  have "a = concat (map units (codePoints a))" using assms(1) by (rule units_codePoints [symmetric])
  also have "\<dots> = b" unfolding assms(3) using assms(2) by (rule units_codePoints)
  finally show ?thesis .
qed

lemma byteOrder_eq_0_iff: "valid16 a \<Longrightarrow> valid16 b \<Longrightarrow> byteOrder a b = 0 \<longleftrightarrow> a = b"
  by (auto simp: byteOrder_def compareLoop_eq_0_iff dest: codePoints_inject)

lemma byteOrder_antisym: "byteOrder b a = - byteOrder a b"
  unfolding byteOrder_def by (rule compareLoop_antisym)

lemma byteOrder_pos_iff: "0 < byteOrder a b \<longleftrightarrow> utf8_bytes b < utf8_bytes a"
  using byteOrder_neg_iff [of b a] byteOrder_antisym [of b a] by simp

lemma byteOrder_0_bytes: "byteOrder a b = 0 \<longleftrightarrow> utf8_bytes a = utf8_bytes b"
  by (metis byteOrder_neg_iff byteOrder_pos_iff linorder_less_linear order_less_irrefl)

lemma byteOrder_le_iff: "byteOrder a b \<le> 0 \<longleftrightarrow> utf8_bytes a \<le> utf8_bytes b"
  by (metis byteOrder_pos_iff linorder_not_le)

section \<open>Values\<close>

text \<open>
  A number is an integral double, a finite double with a fractional part
  (\<open>m / 2 ^ k\<close>), \<open>NaN\<close> or an infinity. An object is its own enumerable string
  properties in insertion order. A \<open>Date\<close> carries its time value, \<open>None\<close> when
  it is invalid; a function is a name.
\<close>

datatype jsnum = JsInt int | JsFrac int nat | JsNaN | JsInf bool

datatype jsv =
    Undefined
  | Null
  | Bool bool
  | Num jsnum
  | Bigint int
  | Str jsstr
  | Arr "jsv list"
  | Obj "(jsstr \<times> jsv) list"
  | Date "int option"
  | Fun nat

abbreviation MAX_SAFE :: int where
  "MAX_SAFE \<equiv> 9007199254740991"

definition safe_int :: "int \<Rightarrow> bool" where
  "safe_int n = (- MAX_SAFE \<le> n \<and> n \<le> MAX_SAFE)"

fun isSafeInteger :: "jsv \<Rightarrow> bool" where
  "isSafeInteger (Num (JsInt n)) = safe_int n"
| "isSafeInteger _ = False"

fun isFiniteNum :: "jsv \<Rightarrow> bool" where
  "isFiniteNum (Num (JsInt n)) = True"
| "isFiniteNum (Num (JsFrac m k)) = True"
| "isFiniteNum _ = False"

text \<open>Property read \<open>v.k\<close> on an object; a missing property is \<open>undefined\<close>.\<close>

fun field :: "jsv \<Rightarrow> jsstr \<Rightarrow> jsv" where
  "field (Obj fs) k = (case map_of fs k of None \<Rightarrow> Undefined | Some v \<Rightarrow> v)"
| "field _ k = Undefined"

fun truthy :: "jsv \<Rightarrow> bool" where
  "truthy Undefined = False"
| "truthy Null = False"
| "truthy (Bool b) = b"
| "truthy (Num n) = (n \<noteq> JsInt 0 \<and> n \<noteq> JsNaN)"
| "truthy (Bigint n) = (n \<noteq> 0)"
| "truthy (Str s) = (s \<noteq> [])"
| "truthy _ = True"

text \<open>\<open>value === null || value === undefined\<close>.\<close>

fun nullish :: "jsv \<Rightarrow> bool" where
  "nullish Undefined = True"
| "nullish Null = True"
| "nullish _ = False"

text \<open>\<open>typeof v === "object" && v !== null && !Array.isArray(v)\<close>.\<close>

fun plainObject :: "jsv \<Rightarrow> bool" where
  "plainObject (Obj fs) = True"
| "plainObject (Date d) = True"
| "plainObject _ = False"

fun keys :: "jsv \<Rightarrow> jsstr list" where
  "keys (Obj fs) = map fst fs"
| "keys _ = []"

text \<open>\<open>String(n)\<close> of a non-negative integer.\<close>

function show_nat :: "nat \<Rightarrow> jsstr" where
  "show_nat n = (if n < 10 then [48 + n] else show_nat (n div 10) @ [48 + n mod 10])"
  by pat_completeness auto
termination
  by (relation "measure id") auto

declare show_nat.simps [simp del]

end
