(* ===== verification/Tables.thy ===== *)
theory Tables
  imports JsValue
begin

text \<open>
  The framework tables of \<^verbatim>\<open>packages/backend/postgres/migration.sql\<close> and the statements
  of \<^verbatim>\<open>src/sql.mts\<close> that run on them. A table is an association list keyed by its
  primary key; a \<^verbatim>\<open>CHECK\<close>, \<^verbatim>\<open>UNIQUE\<close>, \<^verbatim>\<open>NOT NULL\<close> or foreign key violation is a
  thrown error, after which the transaction is lost. All statements run inside one
  serializable transaction, so the state they see is the state passed in; row
  locks and row versions (\<open>SET head = head\<close>) leave no trace in it.

  \<open>key_ok\<close> stands for PostgreSQL's JSON parser: whether \<open>identity_key::jsonb\<close> is a
  JSON object, which the generated column and its \<^verbatim>\<open>CHECK\<close> require.
\<close>

section \<open>Tables\<close>

datatype kind = Upsert | Remove

text \<open>One row of \<open>axton_store\<close>.\<close>

record store_row =
  principal :: jsstr
  store_stream :: jsstr
  last_processed_batch_id :: int
  progress :: int
  current_digest :: "jsstr option"
  current_count :: "int option"
  last_digest :: "jsstr option"
  last_count :: "int option"
  bootstrap_prepared :: bool
  start_cursor :: "int option"

text \<open>
  The tables: a Stream's head; the catalog of records and their generated ids;
  the Stores; the results by Store, Batch and ordinal, with the mutation id; the
  Stream members by Stream and record id; and the transaction-local publication
  reservations by Stream and scope.
\<close>

record db =
  axton_stream :: "(jsstr, int) jsmap"
  axton_record :: "(jsstr \<times> jsstr, int) jsmap"
  axton_store :: "(jsstr, store_row) jsmap"
  axton_mutation_result :: "(jsstr \<times> int \<times> int, int \<times> jsv) jsmap"
  axton_stream_record :: "(jsstr \<times> int, int \<times> kind) jsmap"
  publication_cursor :: "(jsstr \<times> jsstr, int) jsmap"
  next_id :: int

text \<open>
  What a persistence call can throw: the statements' constraint violations, then
  the checks of \<^verbatim>\<open>persistence.mts\<close>, each by the message it carries.
\<close>

datatype perr =
    SqlCheck | SqlUnique | SqlNotNull | SqlForeignKey | SqlCardinality | SqlNoSavepoint
  | CounterUnsafe | CounterNotPositive | InvalidStream
  | MustBeObject string | UnknownField string jsstr | MustBeNonEmpty string
  | MustBeStrings string | RepeatsEntry string | MustBeArray string | RepeatsKey string
  | LockNeedsStream | LockOrder
  | StoreMissing | IdentityUntracked | BootstrapHost
  | BatchAdmissionChanged | BatchProgressChanged | ResultGroupSize | ResultGroupRange
  | GuardMode | GuardOrder
  | PositionCardinality | MissingPosition
  | HeadOverflow jsstr | MemberCardinality | MissingMetadata | NoLivePosition
  | UnsupportedOperation string | SavepointOrdinal | LegacyLayout | HostTypeError

section \<open>Stores and Batches\<close>

definition in_range :: "int \<Rightarrow> int \<Rightarrow> bool" where
  "in_range lo n = (lo \<le> n \<and> n \<le> MAX_SAFE)"

text \<open>The \<^verbatim>\<open>CHECK\<close> constraints of \<open>axton_store\<close>.\<close>

definition store_check :: "store_row \<Rightarrow> bool" where
  "store_check r =
     (in_range 0 (last_processed_batch_id r) \<and> in_range 0 (progress r)
      \<and> (case start_cursor r of None \<Rightarrow> True | Some c \<Rightarrow> in_range 0 c)
      \<and> (case (current_digest r, current_count r) of
           (None, None) \<Rightarrow> progress r = 0
         | (Some _, Some n) \<Rightarrow> in_range 1 n \<and> progress r < n
         | _ \<Rightarrow> False)
      \<and> (case (last_digest r, last_count r) of
           (None, None) \<Rightarrow> last_processed_batch_id r = 0
         | (Some _, Some n) \<Rightarrow> 0 < last_processed_batch_id r \<and> in_range 1 n
         | _ \<Rightarrow> False))"

definition new_store :: "jsstr \<Rightarrow> jsstr \<Rightarrow> store_row" where
  "new_store p s = \<lparr>principal = p, store_stream = s, last_processed_batch_id = 0, progress = 0,
     current_digest = None, current_count = None, last_digest = None, last_count = None,
     bootstrap_prepared = False, start_cursor = None\<rparr>"

text \<open>\<open>INSERT ... ON CONFLICT(id) DO NOTHING\<close>\<close>

definition V05_STORE_INSERT :: "db \<Rightarrow> jsstr \<Rightarrow> jsstr \<Rightarrow> jsstr \<Rightarrow> db" where
  "V05_STORE_INSERT d i p s =
     (if mhas (axton_store d) i then d
      else d\<lparr>axton_store := mput i (new_store p s) (axton_store d)\<rparr>)"

definition V05_STORE_LOCK :: "db \<Rightarrow> jsstr \<Rightarrow> store_row option" where
  "V05_STORE_LOCK d i = map_of (axton_store d) i"

definition V05_STORE_INSPECT :: "db \<Rightarrow> jsstr \<Rightarrow> (jsstr \<times> jsstr) option" where
  "V05_STORE_INSPECT d i = map_option (\<lambda>r. (principal r, store_stream r)) (map_of (axton_store d) i)"

text \<open>Write one Store row back, through its constraints.\<close>

definition put_store :: "jsstr \<Rightarrow> store_row \<Rightarrow> db \<Rightarrow> (perr, db) res" where
  "put_store i r d =
     (if store_check r then Inr (d\<lparr>axton_store := mput i r (axton_store d)\<rparr>) else Inl SqlCheck)"

text \<open>
  Admission: the current columns are set, and the results of every earlier Batch
  of the Store are deleted, when the Store expects this Batch and has none open.
  Answers the ids admitted.
\<close>

definition prune_results ::
  "jsstr \<Rightarrow> int \<Rightarrow> ((jsstr \<times> int \<times> int) \<times> 'a) list \<Rightarrow> ((jsstr \<times> int \<times> int) \<times> 'a) list" where
  "prune_results i batch xs = filter (\<lambda>((s, b, _), _). \<not> (s = i \<and> b < batch)) xs"

definition V05_BATCH_BEGIN ::
  "db \<Rightarrow> jsstr \<Rightarrow> int \<Rightarrow> jsstr \<Rightarrow> int \<Rightarrow> (perr, jsstr list \<times> db) res" where
  "V05_BATCH_BEGIN d i batch digest count =
     (case map_of (axton_store d) i of
        None \<Rightarrow> Inr ([], d)
      | Some r \<Rightarrow>
          if last_processed_batch_id r = batch - 1 \<and> current_digest r = None \<and> progress r = 0 then
            bind_res (put_store i (r\<lparr>current_digest := Some digest, current_count := Some count\<rparr>) d)
              (\<lambda>d'. Inr ([i], d'\<lparr>axton_mutation_result :=
                 prune_results i batch (axton_mutation_result d')\<rparr>))
          else Inr ([], d))"

definition V05_RESULT_READ :: "db \<Rightarrow> jsstr \<Rightarrow> int \<Rightarrow> int \<Rightarrow> jsv option" where
  "V05_RESULT_READ d i batch ordinal =
     map_option snd (map_of (axton_mutation_result d) (i, batch, ordinal))"

definition V05_RESULTS_READ :: "db \<Rightarrow> jsstr \<Rightarrow> int \<Rightarrow> jsv list" where
  "V05_RESULTS_READ d i batch =
     map (\<lambda>(_, _, result). result)
       (sort_key (\<lambda>((_, _, ordinal), _). ordinal)
          (filter (\<lambda>((s, b, _), _). s = i \<and> b = batch) (axton_mutation_result d)))"

text \<open>The \<^verbatim>\<open>CASE\<close> expressions of the progress update; \<open>nxt\<close> is the new progress.\<close>

definition advance_store :: "int \<Rightarrow> int \<Rightarrow> int \<Rightarrow> store_row \<Rightarrow> store_row" where
  "advance_store batch nxt count r =
     (if nxt = count
      then r\<lparr>progress := 0, last_processed_batch_id := batch, last_digest := current_digest r,
             last_count := current_count r, current_digest := None, current_count := None\<rparr>
      else r\<lparr>progress := nxt\<rparr>)"

text \<open>\<open>(v->>'mutationId')::bigint\<close>; absent is \<^verbatim>\<open>NULL\<close>.\<close>

definition mutation_id :: "jsv \<Rightarrow> int option" where
  "mutation_id v = (case field v (js ''mutationId'') of Num (JsInt n) \<Rightarrow> Some n | _ \<Rightarrow> None)"

text \<open>One row into \<open>axton_mutation_result\<close>, through its constraints.\<close>

definition insert_result :: "jsstr \<Rightarrow> int \<Rightarrow> db \<Rightarrow> int \<times> jsv \<Rightarrow> (perr, db) res" where
  "insert_result i batch d = (\<lambda>(ordinal, v).
     (case mutation_id v of
        None \<Rightarrow> Inl SqlNotNull
      | Some m \<Rightarrow>
          if \<not> (in_range 1 batch \<and> in_range 1 m \<and> in_range 0 ordinal) then Inl SqlCheck
          else if list_ex (\<lambda>((s, b, ord), mid, _). s = i \<and> b = batch \<and> (mid = m \<or> ord = ordinal))
                 (axton_mutation_result d) then Inl SqlUnique
          else Inr (d\<lparr>axton_mutation_result :=
                 axton_mutation_result d @ [((i, batch, ordinal), (m, v))]\<rparr>)))"

text \<open>Both answer the number of rows \<^verbatim>\<open>RETURNING\<close> gives.\<close>

definition V05_RESULT_SAVE ::
  "db \<Rightarrow> jsstr \<Rightarrow> int \<Rightarrow> int \<Rightarrow> int \<Rightarrow> jsv \<Rightarrow> (perr, nat \<times> db) res" where
  "V05_RESULT_SAVE d i batch ordinal count v =
     (case map_of (axton_store d) i of
        None \<Rightarrow> Inr (0, d)
      | Some r \<Rightarrow>
          if last_processed_batch_id r = batch - 1 \<and> progress r = ordinal \<and> current_count r = Some count then
            bind_res (put_store i (advance_store batch (ordinal + 1) count r) d)
              (\<lambda>d'. bind_res (insert_result i batch d' (ordinal, v)) (\<lambda>d''. Inr (1, d'')))
          else Inr (0, d))"

definition V05_RESULTS_SAVE ::
  "db \<Rightarrow> jsstr \<Rightarrow> int \<Rightarrow> int \<Rightarrow> int \<Rightarrow> int \<Rightarrow> jsstr \<Rightarrow> jsv list \<Rightarrow> (perr, nat \<times> db) res" where
  "V05_RESULTS_SAVE d i batch ordinal count n digest vs =
     (case map_of (axton_store d) i of
        None \<Rightarrow> Inr (0, d)
      | Some r \<Rightarrow>
          if last_processed_batch_id r = batch - 1 \<and> progress r = ordinal \<and> current_count r = Some count
             \<and> current_digest r = Some digest \<and> 0 < n \<and> ordinal + n \<le> count then
            bind_res (put_store i (advance_store batch (ordinal + n) count r) d)
              (\<lambda>d'. bind_res
                 (foldM (insert_result i batch) d' (map (\<lambda>(k, v). (ordinal + int k, v)) (enumerate 0 vs)))
                 (\<lambda>d''. Inr (length vs, d'')))
          else Inr (0, d))"

section \<open>Streams and members\<close>

text \<open>
  \<open>V05_RESERVE_CURSOR\<close>: reserve the next cursor of a Stream once per publication
  scope. A Stream without a row starts at 1; a full counter answers no row.
\<close>

definition V05_RESERVE_CURSOR :: "db \<Rightarrow> jsstr \<Rightarrow> jsstr \<Rightarrow> int option \<times> db" where
  "V05_RESERVE_CURSOR d s scope =
     (case map_of (publication_cursor d) (s, scope) of
        Some c \<Rightarrow> (Some c, d)
      | None \<Rightarrow>
          (case map_of (axton_stream d) s of
             None \<Rightarrow> (Some 1, d\<lparr>axton_stream := mput s 1 (axton_stream d),
                         publication_cursor := mput (s, scope) 1 (publication_cursor d)\<rparr>)
           | Some h \<Rightarrow>
               if h < MAX_SAFE
               then (Some (h + 1), d\<lparr>axton_stream := mput s (h + 1) (axton_stream d),
                       publication_cursor := mput (s, scope) (h + 1) (publication_cursor d)\<rparr>)
               else (None, d)))"

text \<open>\<open>ON COMMIT DELETE ROWS\<close> of the reservation table.\<close>

definition commit_db :: "db \<Rightarrow> db" where
  "commit_db d = d\<lparr>publication_cursor := []\<rparr>"

definition record_id :: "db \<Rightarrow> jsstr \<times> jsstr \<Rightarrow> int option" where
  "record_id d k = map_of (axton_record d) k"

text \<open>\<open>LOCK_IDENTITIES\<close> answers the identities that exist; absence stays absent.\<close>

definition LOCK_IDENTITIES :: "db \<Rightarrow> (jsstr \<times> jsstr) list \<Rightarrow> (jsstr \<times> jsstr) list" where
  "LOCK_IDENTITIES d ks = filter (\<lambda>k. record_id d k \<noteq> None) ks"

text \<open>\<open>ENSURE_IDENTITIES\<close> inserts the missing ones in input order and answers all.\<close>

definition ensure_identity :: "(jsstr \<Rightarrow> bool) \<Rightarrow> db \<Rightarrow> jsstr \<times> jsstr \<Rightarrow> (perr, db) res" where
  "ensure_identity key_ok d k =
     (if record_id d k \<noteq> None then Inr d
      else if key_ok (snd k)
      then Inr (d\<lparr>axton_record := axton_record d @ [(k, next_id d)], next_id := next_id d + 1\<rparr>)
      else Inl SqlCheck)"

definition ENSURE_IDENTITIES ::
  "(jsstr \<Rightarrow> bool) \<Rightarrow> db \<Rightarrow> (jsstr \<times> jsstr) list \<Rightarrow> (perr, (jsstr \<times> jsstr) list \<times> db) res" where
  "ENSURE_IDENTITIES key_ok d ks = bind_res (foldM (ensure_identity key_ok) d ks) (\<lambda>d'. Inr (ks, d'))"

text \<open>\<open>V05_POSITION_READ\<close>: the nullable position of one identity in a Stream.\<close>

definition V05_POSITION_READ :: "db \<Rightarrow> jsstr \<Rightarrow> jsstr \<times> jsstr \<Rightarrow> (int \<times> kind) option" where
  "V05_POSITION_READ d s k =
     (case record_id d k of None \<Rightarrow> None | Some i \<Rightarrow> map_of (axton_stream_record d) (s, i))"

definition V05_POSITIONS_READ_BATCH :: "db \<Rightarrow> jsstr \<Rightarrow> (jsstr \<times> jsstr) list \<Rightarrow> (int \<times> kind) option list" where
  "V05_POSITIONS_READ_BATCH d s ks = map (V05_POSITION_READ d s) ks"

text \<open>One upserted member, through the constraints of \<open>axton_stream_record\<close>.\<close>

definition put_member :: "jsstr \<Rightarrow> int \<Rightarrow> int option \<Rightarrow> db \<Rightarrow> (perr, db) res" where
  "put_member s i c d =
     (case c of
        None \<Rightarrow> Inl SqlNotNull
      | Some n \<Rightarrow>
          if \<not> in_range 1 n then Inl SqlCheck
          else if \<not> mhas (axton_stream d) s then Inl SqlForeignKey
          else Inr (d\<lparr>axton_stream_record := mput (s, i) (n, Upsert) (axton_stream_record d)\<rparr>))"

text \<open>One wanted row of \<open>V05_APPLY_MEMBERS_BATCH\<close>.\<close>

record wanted =
  w_stream :: jsstr
  w_key :: "jsstr \<times> jsstr"
  w_publish :: bool
  w_cursor :: "int option"

text \<open>The rows the \<open>written\<close> CTE inserts, and the answer row of each wanted row.\<close>

definition written_keys :: "db \<Rightarrow> wanted list \<Rightarrow> (jsstr \<times> int) list" where
  "written_keys d ws =
     List.map_filter (\<lambda>w. if w_publish w then map_option (\<lambda>i. (w_stream w, i)) (record_id d (w_key w)) else None) ws"

definition write_wanted :: "db \<Rightarrow> db \<Rightarrow> wanted \<Rightarrow> (perr, db) res" where
  "write_wanted d acc w =
     (case record_id d (w_key w) of
        None \<Rightarrow> Inr acc
      | Some i \<Rightarrow> if w_publish w then put_member (w_stream w) i (w_cursor w) acc else Inr acc)"

text \<open>An answer row: whether the record is represented, its cursor and its kind.\<close>

type_synonym member_answer = "bool \<times> int option \<times> kind option"

definition answer_wanted :: "db \<Rightarrow> wanted \<Rightarrow> member_answer" where
  "answer_wanted d w =
     (case record_id d (w_key w) of
        None \<Rightarrow> (False, None, None)
      | Some i \<Rightarrow>
          if w_publish w then (True, w_cursor w, Some Upsert)
          else (case map_of (axton_stream_record d) (w_stream w, i) of
                  None \<Rightarrow> (True, None, None)
                | Some (c, k) \<Rightarrow> (True, Some c, Some k)))"

definition V05_APPLY_MEMBERS_BATCH :: "db \<Rightarrow> wanted list \<Rightarrow> (perr, member_answer list \<times> db) res" where
  "V05_APPLY_MEMBERS_BATCH d ws =
     (if \<not> distinct (written_keys d ws) then Inl SqlCardinality
      else bind_res (foldM (write_wanted d) d ws) (\<lambda>d'. Inr (map (answer_wanted d) ws, d')))"

text \<open>
  \<open>V05_RESERVE_APPLY_MEMBERS\<close>: reserve and apply for one Stream in one statement.
  Without a cursor (overflow) the cross join writes nothing and every answer row
  says so. The last component of an answer is \<open>overflow\<close>.
\<close>

definition V05_RESERVE_APPLY_MEMBERS ::
  "db \<Rightarrow> jsstr \<Rightarrow> jsstr \<Rightarrow> (jsstr \<times> jsstr) list \<Rightarrow> (perr, (member_answer \<times> bool) list \<times> db) res" where
  "V05_RESERVE_APPLY_MEMBERS d s scope ks =
     (case V05_RESERVE_CURSOR d s scope of
        (None, d') \<Rightarrow> Inr (map (\<lambda>k. ((record_id d k \<noteq> None, None, None), True)) ks, d')
      | (Some c, d') \<Rightarrow>
          (let ids = List.map_filter (record_id d) ks in
           if \<not> distinct ids then Inl SqlCardinality
           else bind_res (foldM (\<lambda>acc i. put_member s i (Some c) acc) d' ids)
             (\<lambda>d''. Inr (map (\<lambda>k. (if record_id d k = None then (False, None, None)
                                    else (True, Some c, Some Upsert), False)) ks, d''))))"

section \<open>Delivery and tracking reads\<close>

record candidate =
  c_key :: "jsstr \<times> jsstr"
  c_cursor :: int
  c_kind :: kind

text \<open>The join of \<open>axton_stream_record\<close> and \<open>axton_record\<close> of one Stream after a cursor.\<close>

definition select_candidates ::
  "db \<Rightarrow> jsstr \<Rightarrow> int \<Rightarrow> jsstr list option \<Rightarrow> (jsstr \<times> jsstr) list \<Rightarrow> candidate list" where
  "select_candidates d s after models ks =
     [\<lparr>c_key = k, c_cursor = c, c_kind = kd\<rparr>.
       ((s', rid), (c, kd)) \<leftarrow> axton_stream_record d, (k, i) \<leftarrow> axton_record d,
       s' = s \<and> i = rid \<and> after < c \<and>
       (case models of None \<Rightarrow> True | Some ms \<Rightarrow> fst k \<in> set ms \<or> k \<in> set ks)]"

text \<open>\<open>ORDER BY s.cursor, r.model COLLATE "C", r.identity_key COLLATE "C" LIMIT n\<close>\<close>

definition order_limit :: "nat \<Rightarrow> candidate list \<Rightarrow> candidate list" where
  "order_limit n cs =
     take n (sort_key (\<lambda>c. (c_cursor c, utf8_bytes (fst (c_key c)), utf8_bytes (snd (c_key c)))) cs)"

text \<open>\<open>ORDER BY s.cursor FETCH FIRST n ROWS WITH TIES\<close>, for a positive \<open>n\<close>\<close>

definition fetch_with_ties :: "nat \<Rightarrow> candidate list \<Rightarrow> candidate list" where
  "fetch_with_ties n cs =
     (let rows = sort_key c_cursor cs
      in take n rows @ takeWhile (\<lambda>c. c_cursor c = c_cursor (rows ! (n - 1))) (drop n rows))"

text \<open>\<open>count(*)\<close> of the wanted keys a Stream has a member row for, of either kind.\<close>

definition tracked_count :: "db \<Rightarrow> jsstr \<Rightarrow> (jsstr \<times> jsstr) list \<Rightarrow> nat" where
  "tracked_count d s ks = length (filter (\<lambda>k. V05_POSITION_READ d s k \<noteq> None) ks)"

text \<open>The live holders of one record, in table order.\<close>

definition READ_TRACKING_RECORD :: "db \<Rightarrow> jsstr \<times> jsstr \<Rightarrow> (jsstr \<times> jsstr \<times> jsstr) list" where
  "READ_TRACKING_RECORD d k =
     (case record_id d k of
        None \<Rightarrow> []
      | Some i \<Rightarrow> [(s, fst k, snd k). ((s, rid), (_, kd)) \<leftarrow> axton_stream_record d, rid = i \<and> kd = Upsert])"

definition READ_TRACKING_PAIR :: "db \<Rightarrow> jsstr \<times> jsstr \<Rightarrow> jsstr \<Rightarrow> (jsstr \<times> jsstr \<times> jsstr) list" where
  "READ_TRACKING_PAIR d k s = filter (\<lambda>(s', _). s' = s) (READ_TRACKING_RECORD d k)"

text \<open>Both selections, deduplicated by \<^verbatim>\<open>UNION\<close>.\<close>

definition READ_TRACKING ::
  "db \<Rightarrow> (jsstr \<times> jsstr) list \<Rightarrow> (jsstr \<times> jsstr \<times> jsstr) list \<Rightarrow> (jsstr \<times> jsstr \<times> jsstr) list" where
  "READ_TRACKING d records pairs =
     js_set (concat (map (READ_TRACKING_RECORD d) records) @
             concat (map (\<lambda>(s, m, k). READ_TRACKING_PAIR d (m, k) s) pairs))"

section \<open>Well-formed tables\<close>

text \<open>
  What the constraints and the statements keep true. The catalog: ids are
  unique and below the generator. The Streams: a member belongs to a
  represented record of an existing Stream and its cursor is not past the head;
  so is a reservation. The Stores: every row passes its constraints, and the
  results of a Store are exactly the ordinals its row says it has processed: those
  of the open Batch, or all of the last one, in order.
\<close>

definition wf_catalog :: "db \<Rightarrow> bool" where
  "wf_catalog d = (mok (axton_record d) \<and> distinct (map snd (axton_record d))
     \<and> list_all (\<lambda>(_, i). i < next_id d) (axton_record d))"

definition below_head :: "db \<Rightarrow> jsstr \<Rightarrow> int \<Rightarrow> bool" where
  "below_head d s c = (case map_of (axton_stream d) s of None \<Rightarrow> False | Some h \<Rightarrow> 1 \<le> c \<and> c \<le> h)"

definition wf_streams :: "db \<Rightarrow> bool" where
  "wf_streams d =
     (mok (axton_stream d) \<and> mok (axton_stream_record d) \<and> mok (publication_cursor d)
      \<and> list_all (\<lambda>(_, h). in_range 0 h) (axton_stream d)
      \<and> list_all (\<lambda>((s, i), (c, _)). i \<in> snd ` set (axton_record d) \<and> below_head d s c) (axton_stream_record d)
      \<and> list_all (\<lambda>((s, _), c). below_head d s c) (publication_cursor d))"

definition result_keys :: "jsstr \<Rightarrow> ((jsstr \<times> int \<times> int) \<times> 'a) list \<Rightarrow> (int \<times> int) list" where
  "result_keys i xs = map (snd \<circ> fst) (filter (\<lambda>x. fst (fst x) = i) xs)"

definition stored_keys :: "db \<Rightarrow> jsstr \<Rightarrow> (int \<times> int) list" where
  "stored_keys d i = result_keys i (axton_mutation_result d)"

definition expected_keys :: "store_row \<Rightarrow> (int \<times> int) list" where
  "expected_keys r =
     (case current_count r of
        Some _ \<Rightarrow> map (Pair (last_processed_batch_id r + 1)) [0..progress r - 1]
      | None \<Rightarrow> (case last_count r of
                   None \<Rightarrow> []
                 | Some n \<Rightarrow> map (Pair (last_processed_batch_id r)) [0..n - 1]))"

definition wf_stores :: "db \<Rightarrow> bool" where
  "wf_stores d =
     (mok (axton_store d)
      \<and> list_all (\<lambda>(i, r). store_check r \<and> stored_keys d i = expected_keys r) (axton_store d)
      \<and> list_all (\<lambda>x. mhas (axton_store d) (fst (fst x))) (axton_mutation_result d))"

definition wf_db :: "db \<Rightarrow> bool" where
  "wf_db d = (wf_catalog d \<and> wf_streams d \<and> wf_stores d)"

definition empty_db :: db where
  "empty_db = \<lparr>axton_stream = [], axton_record = [], axton_store = [], axton_mutation_result = [],
     axton_stream_record = [], publication_cursor = [], next_id = 1\<rparr>"

lemma wf_empty_db: "wf_db empty_db"
  by (simp add: wf_db_def wf_catalog_def wf_streams_def wf_stores_def empty_db_def)

subsection \<open>Stores\<close>

lemma wf_stores_get:
  "wf_stores d \<Longrightarrow> map_of (axton_store d) i = Some r \<Longrightarrow> store_check r \<and> stored_keys d i = expected_keys r"
  unfolding wf_stores_def using mall_get [where m = "axton_store d"] by fastforce

lemma wf_stores_orphan: "wf_stores d \<Longrightarrow> map_of (axton_store d) i = None \<Longrightarrow> stored_keys d i = []"
proof -
  assume wf: "wf_stores d" and none: "map_of (axton_store d) i = None"
  have "x \<in> set (axton_mutation_result d) \<Longrightarrow> fst (fst x) \<noteq> i" for x
    using wf none by (auto simp: wf_stores_def list_all_iff mhas_def)
  then show ?thesis by (auto simp: stored_keys_def result_keys_def filter_empty_conv)
qed

lemma put_store_Inr_iff [res_simps]:
  "put_store i r d = Inr d' \<longleftrightarrow> store_check r \<and> d' = d\<lparr>axton_store := mput i r (axton_store d)\<rparr>"
  by (auto simp: put_store_def)

text \<open>One Store's row and its results change together; every other Store keeps both.\<close>

lemma wf_stores_update:
  assumes "wf_stores d" and "store_check r" and "stored_keys d' i = expected_keys r"
    and "axton_store d' = mput i r (axton_store d)"
    and "\<And>j. j \<noteq> i \<Longrightarrow> stored_keys d' j = stored_keys d j"
    and "list_all (\<lambda>x. mhas (axton_store d') (fst (fst x))) (axton_mutation_result d')"
  shows "wf_stores d'"
proof -
  have ok: "mok (axton_store d)" using assms(1) by (simp add: wf_stores_def)
  have "store_check q \<and> stored_keys d' j = expected_keys q"
    if "map_of (axton_store d') j = Some q" for j q
  proof (cases "j = i")
    case True
    with that assms show ?thesis by (simp add: map_simps)
  next
    case False
    with that have "map_of (axton_store d) j = Some q" by (simp add: assms(4) map_simps)
    with False show ?thesis using assms(1,5) by (simp add: wf_stores_get)
  qed
  then show ?thesis
    unfolding wf_stores_def
    using assms(4,6) ok mall_iff [where m = "axton_store d'" and P = "\<lambda>(i, r). store_check r \<and> stored_keys d' i = expected_keys r"]
    by (simp add: map_simps)
qed

lemma stored_keys_store_update [simp]: "stored_keys (d\<lparr>axton_store := m\<rparr>) i = stored_keys d i"
  by (simp add: stored_keys_def)

lemma insert_result_Inr:
  assumes "insert_result i batch d (ordinal, v) = Inr d'"
  shows "\<exists>m. d' = d\<lparr>axton_mutation_result := axton_mutation_result d @ [((i, batch, ordinal), (m, v))]\<rparr>"
  using assms by (auto simp: insert_result_def split: option.splits if_splits)

lemma wf_results_owner:
  "wf_stores d \<Longrightarrow> list_all (\<lambda>x. mhas (axton_store d) (fst (fst x))) (axton_mutation_result d)"
  by (simp add: wf_stores_def)

lemma mhas_mput_owner:
  "list_all (\<lambda>x. mhas m (fst (fst x))) xs \<Longrightarrow> list_all (\<lambda>x. fst (fst x) = i \<or> mhas m (fst (fst x))) xs"
  by (auto simp: list_all_iff)

lemma upto_snoc: "0 \<le> n \<Longrightarrow> [0..n - 1] @ [n] = [0..n]" for n :: int
  using upto_rec2 [of 0 n] by simp

lemma upto_extend: "0 \<le> (a :: int) \<Longrightarrow> [0..a - 1] @ map (\<lambda>k. a + int k) [0..<n] = [0..a + int n - 1]"
proof (induction n)
  case 0
  then show ?case by simp
next
  case (Suc n)
  then have "[0..a - 1] @ map (\<lambda>k. a + int k) [0..<Suc n] = [0..a + int n - 1] @ [a + int n]"
    by simp
  also have "\<dots> = [0..a + int n]" using Suc.prems by (intro upto_snoc) simp
  finally show ?case by simp
qed

lemma store_check_open:
  assumes "store_check r" and "current_count r = Some n"
  shows "0 \<le> progress r \<and> progress r < n \<and> current_digest r \<noteq> None"
  using assms by (auto simp: store_check_def in_range_def split: option.splits)

lemma expected_keys_advance:
  assumes "store_check r" and "current_count r = Some count" and "last_processed_batch_id r = batch - 1"
    and "nxt = progress r + int n"
  shows "expected_keys (advance_store batch nxt count r) =
     expected_keys r @ map (\<lambda>k. (batch, progress r + int k)) [0..<n]"
proof -
  have "0 \<le> progress r" using store_check_open [OF assms(1,2)] by simp
  then have "map (Pair batch) ([0..progress r - 1] @ map (\<lambda>k. progress r + int k) [0..<n]) =
      map (Pair batch) [0..nxt - 1]"
    using assms(4) by (simp only: upto_extend)
  then show ?thesis
    using assms(2,3) by (auto simp: expected_keys_def advance_store_def o_def)
qed

lemma wf_V05_STORE_INSERT: "wf_stores d \<Longrightarrow> wf_stores (V05_STORE_INSERT d i p s)"
proof -
  assume wf: "wf_stores d"
  have c: "store_check (new_store p s)" "expected_keys (new_store p s) = []"
    by (simp_all add: store_check_def new_store_def in_range_def expected_keys_def)
  show ?thesis
  proof (cases "map_of (axton_store d) i")
    case None
    show ?thesis
      unfolding V05_STORE_INSERT_def
      by (rule wf_stores_update [OF wf c(1)])
         (use None wf c wf_results_owner [OF wf] in \<open>auto simp: mhas_def [of _ i] wf_stores_orphan intro: mhas_mput_owner\<close>)
  next
    case (Some r)
    with wf show ?thesis by (simp add: V05_STORE_INSERT_def mhas_def)
  qed
qed

lemma result_keys_prune:
  "result_keys j (prune_results i batch xs) =
   (if j = i then filter (\<lambda>(b, _). batch \<le> b) (result_keys j xs) else result_keys j xs)"
  by (induction xs) (auto simp: result_keys_def prune_results_def)

lemma wf_V05_BATCH_BEGIN:
  assumes "wf_stores d" and "V05_BATCH_BEGIN d i batch digest count = Inr (rows, d')"
  shows "wf_stores d'"
proof (cases "d' = d")
  case False
  with assms(2) obtain r where r: "map_of (axton_store d) i = Some r"
      "last_processed_batch_id r = batch - 1" "current_digest r = None"
    and ck: "store_check (r\<lparr>current_digest := Some digest, current_count := Some count\<rparr>)"
    and d': "d' = d\<lparr>axton_store := mput i (r\<lparr>current_digest := Some digest, current_count := Some count\<rparr>) (axton_store d),
        axton_mutation_result := prune_results i batch (axton_mutation_result d)\<rparr>"
    and p: "progress r = 0"
    by (auto simp: V05_BATCH_BEGIN_def res_simps split: option.splits if_splits)
  have old: "store_check r" "stored_keys d i = expected_keys r"
    using wf_stores_get [OF assms(1) r(1)] by simp_all
  have "current_count r = None" using old(1) r(3) by (auto simp: store_check_def split: option.splits)
  then have "filter (\<lambda>(b, _). batch \<le> b) (expected_keys r) = []"
    using r(2) by (auto simp: expected_keys_def filter_empty_conv split: option.splits)
  then have keys: "stored_keys d' i = []"
    using old(2) by (simp add: d' stored_keys_def result_keys_prune)
  show ?thesis
  proof (rule wf_stores_update [OF assms(1) ck, of d' i])
    show "stored_keys d' i = expected_keys (r\<lparr>current_digest := Some digest, current_count := Some count\<rparr>)"
      using keys p by (simp add: expected_keys_def)
    show "stored_keys d' j = stored_keys d j" if "j \<noteq> i" for j
      using that by (simp add: d' stored_keys_def result_keys_prune)
    show "list_all (\<lambda>x. mhas (axton_store d') (fst (fst x))) (axton_mutation_result d')"
      using wf_results_owner [OF assms(1)] by (auto simp: d' list_all_iff prune_results_def)
  qed (simp add: d')
qed (simp add: assms(1))

lemma foldM_insert_result:
  assumes "foldM (insert_result i batch) d xs = Inr d'"
  shows "axton_store d' = axton_store d \<and>
    (\<exists>ys. axton_mutation_result d' = axton_mutation_result d @ ys \<and>
       map fst ys = map (\<lambda>(ord, _). (i, batch, ord)) xs \<and> map (snd \<circ> snd) ys = map snd xs)
    \<and> d' = d\<lparr>axton_mutation_result := axton_mutation_result d'\<rparr>"
  using assms
proof (induction xs arbitrary: d)
  case Nil
  then show ?case by simp
next
  case (Cons x xs)
  obtain ord v where x: "x = (ord, v)" by (cases x)
  with Cons.prems obtain d1 where d1: "insert_result i batch d (ord, v) = Inr d1"
      "foldM (insert_result i batch) d1 xs = Inr d'"
    by (auto simp: res_simps)
  obtain m where m: "d1 = d\<lparr>axton_mutation_result := axton_mutation_result d @ [((i, batch, ord), (m, v))]\<rparr>"
    using insert_result_Inr [OF d1(1)] by blast
  obtain ys where ys: "axton_mutation_result d' = axton_mutation_result d1 @ ys"
      "map fst ys = map (\<lambda>(ord, _). (i, batch, ord)) xs" "map (snd \<circ> snd) ys = map snd xs"
    and rest: "axton_store d' = axton_store d1" "d' = d1\<lparr>axton_mutation_result := axton_mutation_result d'\<rparr>"
    using Cons.IH [OF d1(2)] by blast
  have "axton_mutation_result d' = axton_mutation_result d @ (((i, batch, ord), (m, v)) # ys)"
    using ys(1) m by simp
  moreover have "d' = d\<lparr>axton_mutation_result := axton_mutation_result d'\<rparr>"
    using rest(2) m by simp
  ultimately show ?case using rest(1) m ys(2,3) x
    by (intro conjI exI [of _ "((i, batch, ord), (m, v)) # ys"]) (simp_all add: o_def)
qed

end
