(* ===== verification/Persistence.thy ===== *)
theory Persistence
  imports Tables
begin

text \<open>
  \<^verbatim>\<open>packages/backend/postgres/src/persistence.mts\<close>: the persistence half of the host
  contract. Request fields the code validates at run time (\<open>unknown\<close>) are
  JavaScript values; the others have the type the host contract gives them.
  A call takes the transaction's state and answers the new one, or throws; a
  throw loses the transaction, because the session that made the call keeps its
  first failure and refuses to commit.

  \<open>key_ok\<close> is the parameter of \<open>Tables\<close>; \<open>now\<close> is what the database clock
  answers. A delta's \<open>publish\<close> is a boolean in the host contract; the code
  reads it by truthiness and the statement by a cast, which agree on booleans.
\<close>

section \<open>Validation\<close>

text \<open>\<open>Number(n)\<close> of a stored counter is an integer; \<open>safe\<close> and \<open>positiveCounter\<close> bound it.\<close>

definition safe :: "int \<Rightarrow> (perr, int) res" where
  "safe n = (if safe_int n \<and> 0 \<le> n then Inr n else Inl CounterUnsafe)"

definition positiveCounter :: "int \<Rightarrow> (perr, int) res" where
  "positiveCounter n = (if safe_int n \<and> 1 \<le> n then Inr n else Inl CounterNotPositive)"

definition streamName :: "jsv \<Rightarrow> (perr, jsstr) res" where
  "streamName v = (case v of Str s \<Rightarrow> if trim s = [] then Inl InvalidStream else Inr s | _ \<Rightarrow> Inl InvalidStream)"

definition STREAM_BATCH :: nat where
  "STREAM_BATCH = 1000"

text \<open>The loop of \<open>batches\<close>: consecutive slices of at most \<open>STREAM_BATCH\<close>.\<close>

function batches :: "'a list \<Rightarrow> 'a list list" where
  "batches xs = (if xs = [] then [] else take STREAM_BATCH xs # batches (drop STREAM_BATCH xs))"
  by pat_completeness auto
termination
  by (relation "measure length") (auto simp: STREAM_BATCH_def)

declare batches.simps [simp del]

definition fieldsOf :: "jsv \<Rightarrow> string list \<Rightarrow> string \<Rightarrow> (perr, jsv) res" where
  "fieldsOf v allowed what =
     (if \<not> plainObject v then Inl (MustBeObject what)
      else case find (\<lambda>f. f \<notin> js ` set allowed) (keys v) of
             Some f \<Rightarrow> Inl (UnknownField what f)
           | None \<Rightarrow> Inr v)"

definition nonEmpty :: "jsv \<Rightarrow> string \<Rightarrow> (perr, jsstr) res" where
  "nonEmpty v what = (case v of Str s \<Rightarrow> if s = [] then Inl (MustBeNonEmpty what) else Inr s
                              | _ \<Rightarrow> Inl (MustBeNonEmpty what))"

definition strings :: "jsv \<Rightarrow> string \<Rightarrow> (perr, jsstr list) res" where
  "strings v what =
     (case v of
        Arr xs \<Rightarrow>
          bind_res (traverse (\<lambda>x. case x of Str s \<Rightarrow> Inr s | _ \<Rightarrow> Inl (MustBeStrings what)) xs)
            (\<lambda>ss. if length (js_set ss) \<noteq> length ss then Inl (RepeatsEntry what) else Inr ss)
      | _ \<Rightarrow> Inl (MustBeStrings what))"

definition arrayOf :: "jsv \<Rightarrow> string \<Rightarrow> (perr, jsv list) res" where
  "arrayOf v what = (case v of Arr xs \<Rightarrow> Inr xs | _ \<Rightarrow> Inl (MustBeArray what))"

text \<open>\<open>keyOf\<close> answers the validated model and identity key and keeps the object.\<close>

definition keyOf :: "string list \<Rightarrow> jsv \<Rightarrow> (perr, (jsstr \<times> jsstr) \<times> jsv) res" where
  "keyOf extra v =
     bind_res (fieldsOf v ([''model'', ''identityKey''] @ extra) ''record key'') (\<lambda>o'.
     bind_res (nonEmpty (field o' (js ''model'')) ''record model'') (\<lambda>m.
     bind_res (nonEmpty (field o' (js ''identityKey'')) ''record identityKey'') (\<lambda>k.
       Inr ((m, k), o'))))"

text \<open>
  \<open>pairId\<close> is \<open>JSON.stringify([stream, model, identityKey])\<close>, which tells apart
  exactly what this triple does: an absent stream is written \<open>null\<close>.
\<close>

definition pairId :: "(jsstr \<times> jsstr) \<times> jsv \<Rightarrow> jsv \<times> jsstr \<times> jsstr" where
  "pairId p = (case field (snd p) (js ''stream'') of Undefined \<Rightarrow> Null | s \<Rightarrow> s, fst (fst p), snd (fst p))"

definition unique :: "((jsstr \<times> jsstr) \<times> jsv) list \<Rightarrow> string \<Rightarrow> (perr, unit) res" where
  "unique vs what = (if length (js_set (map pairId vs)) \<noteq> length vs then Inl (RepeatsKey what) else Inr ())"

section \<open>Locking Streams\<close>

fun canonicalStreams :: "jsstr list \<Rightarrow> bool" where
  "canonicalStreams (a # b # ss) = (byteOrder a b < 0 \<and> canonicalStreams (b # ss))"
| "canonicalStreams _ = True"

text \<open>
  \<open>lockStreams\<close>: the row locks and the no-op update change no column, so the
  state comes back as it was; what the call decides is whether it refuses.
\<close>

definition lockStreams :: "jsv \<Rightarrow> db \<Rightarrow> (perr, db) res" where
  "lockStreams r d =
     bind_res (fieldsOf r [''op'', ''streams''] ''lockStreams'') (\<lambda>request.
     bind_res (strings (field request (js ''streams'')) ''lockStreams streams'') (\<lambda>streams.
       if streams = [] then Inl LockNeedsStream
       else bind_res (traverse (\<lambda>s. streamName (Str s)) streams) (\<lambda>_.
         if canonicalStreams streams then Inr d else Inl LockOrder)))"

section \<open>Operations\<close>

record position =
  p_stream :: jsstr
  p_key :: "jsstr \<times> jsstr"
  p_cursor :: int
  p_kind :: kind

text \<open>The view of a Store row that \<open>claimStore\<close> answers.\<close>

definition storeAnswer :: "store_row \<Rightarrow> (perr, store_row) res" where
  "storeAnswer r =
     bind_res (safe (last_processed_batch_id r)) (\<lambda>_.
     bind_res (safe (progress r)) (\<lambda>_.
     bind_res (case current_count r of None \<Rightarrow> Inr 0 | Some n \<Rightarrow> safe n) (\<lambda>_.
     bind_res (case last_count r of None \<Rightarrow> Inr 0 | Some n \<Rightarrow> safe n) (\<lambda>_. Inr r))))"

definition bootstrapState :: "jsstr \<Rightarrow> db \<Rightarrow> (perr, bool) res" where
  "bootstrapState i d = (case map_of (axton_store d) i of None \<Rightarrow> Inl StoreMissing | Some r \<Rightarrow> Inr (bootstrap_prepared r))"

definition finishBootstrap :: "jsstr \<Rightarrow> db \<Rightarrow> (perr, db) res" where
  "finishBootstrap i d =
     (case map_of (axton_store d) i of
        None \<Rightarrow> Inr d
      | Some r \<Rightarrow> put_store i (r\<lparr>bootstrap_prepared := True,
          start_cursor := Some (case map_of (axton_stream d) (store_stream r) of None \<Rightarrow> 0 | Some h \<Rightarrow> h)\<rparr>) d)"

definition deliveryHead :: "jsstr \<Rightarrow> db \<Rightarrow> (perr, int) res" where
  "deliveryHead s d = (case map_of (axton_stream d) s of None \<Rightarrow> Inr 0 | Some h \<Rightarrow> safe h)"

text \<open>
  \<open>deliveryCandidates\<close>: every named key must be tracked, then one page of the
  candidates after a cursor, or \<open>null\<close> when it does not fit the capacity.
\<close>

definition deliveryCandidates ::
  "jsstr \<Rightarrow> int \<Rightarrow> jsstr list option \<Rightarrow> (jsstr \<times> jsstr) list option \<Rightarrow> int \<Rightarrow> int option \<Rightarrow> db \<Rightarrow>
   (perr, candidate list option) res" where
  "deliveryCandidates s after models ks capacity pageSize d =
     bind_res (safe capacity) (\<lambda>cap0.
     let cap = min cap0 100000; wanted = (case ks of None \<Rightarrow> [] | Some k \<Rightarrow> k) in
     bind_res (foldM (\<lambda>_ grp. guard_res (tracked_count d s grp = length grp) IdentityUntracked)
                () (batches wanted)) (\<lambda>_.
     bind_res (case pageSize of None \<Rightarrow> Inr None
                 | Some n \<Rightarrow> bind_res (positiveCounter n) (\<lambda>p. Inr (Some (min p cap)))) (\<lambda>page.
     bind_res (safe after) (\<lambda>from.
     let cs = select_candidates d s from models wanted;
         rows = (case page of
                   None \<Rightarrow> order_limit (nat (cap + 1)) cs
                 | Some p \<Rightarrow> take (nat (cap + 1)) (fetch_with_ties (nat (p + 1)) cs))
     in if cap < int (length rows) then Inr None
        else bind_res (traverse (\<lambda>c. bind_res (positiveCounter (c_cursor c)) (\<lambda>_. Inr c)) rows)
               (\<lambda>out. Inr (Some out))))))"

definition claimStore :: "jsstr \<Rightarrow> jsstr \<Rightarrow> jsstr \<Rightarrow> db \<Rightarrow> (perr, store_row \<times> db) res" where
  "claimStore i p s d =
     (let d' = (case V05_STORE_LOCK d i of None \<Rightarrow> V05_STORE_INSERT d i p s | Some _ \<Rightarrow> d) in
      case V05_STORE_LOCK d' i of
        None \<Rightarrow> Inl StoreMissing
      | Some r \<Rightarrow> bind_res (storeAnswer r) (\<lambda>a. Inr (a, d')))"

definition beginBatch :: "jsstr \<Rightarrow> int \<Rightarrow> jsstr \<Rightarrow> int \<Rightarrow> db \<Rightarrow> (perr, db) res" where
  "beginBatch i batch digest count d =
     bind_res (V05_BATCH_BEGIN d i batch digest count) (\<lambda>(rows, d').
       if length rows \<noteq> 1 then Inl BatchAdmissionChanged else Inr d')"

definition saveResult :: "jsstr \<Rightarrow> int \<Rightarrow> int \<Rightarrow> int \<Rightarrow> jsv \<Rightarrow> db \<Rightarrow> (perr, db) res" where
  "saveResult i batch ordinal count v d =
     bind_res (V05_RESULT_SAVE d i batch ordinal count v) (\<lambda>(rows, d').
       if rows \<noteq> 1 then Inl BatchProgressChanged else Inr d')"

definition saveResults :: "jsstr \<Rightarrow> int \<Rightarrow> int \<Rightarrow> int \<Rightarrow> jsstr \<Rightarrow> jsv \<Rightarrow> db \<Rightarrow> (perr, db) res" where
  "saveResults i batch ordinal0 count0 digest vs d =
     bind_res (arrayOf vs ''group results'') (\<lambda>results.
     if results = [] \<or> 32 < length results then Inl ResultGroupSize
     else bind_res (safe ordinal0) (\<lambda>ordinal.
     bind_res (positiveCounter count0) (\<lambda>count.
     if count < ordinal + int (length results) then Inl ResultGroupRange
     else bind_res (V05_RESULTS_SAVE d i batch ordinal count (int (length results)) digest results) (\<lambda>(rows, d').
       if rows \<noteq> length results then Inl BatchProgressChanged else Inr d'))))"

text \<open>\<open>v->>'k'\<close> of a JSON string member; anything else matches nothing.\<close>

definition text_field :: "jsv \<Rightarrow> string \<Rightarrow> jsstr option" where
  "text_field v k = (case field v (js k) of Str s \<Rightarrow> Some s | _ \<Rightarrow> None)"

definition record_of :: "jsv \<Rightarrow> (jsstr \<times> jsstr) option" where
  "record_of v = (case (text_field v ''model'', text_field v ''identityKey'') of
                    (Some m, Some k) \<Rightarrow> Some (m, k) | _ \<Rightarrow> None)"

definition pair_of :: "jsv \<Rightarrow> (jsstr \<times> jsstr \<times> jsstr) option" where
  "pair_of v = (case (text_field v ''stream'', record_of v) of
                  (Some s, Some (m, k)) \<Rightarrow> Some (s, m, k) | _ \<Rightarrow> None)"

definition readTracking :: "jsv \<Rightarrow> jsv \<Rightarrow> db \<Rightarrow> (perr, (jsstr \<times> jsstr \<times> jsstr) list) res" where
  "readTracking rs ps d =
     bind_res (arrayOf rs ''tracking records'') (\<lambda>records.
     bind_res (arrayOf ps ''tracking pairs'') (\<lambda>pairs.
     if records = [] \<and> pairs = [] then Inr []
     else if records = [] \<and> length pairs = 1 then
       bind_res (keyOf [''stream''] (hd pairs)) (\<lambda>(k, o').
       bind_res (streamName (field o' (js ''stream''))) (\<lambda>s. Inr (READ_TRACKING_PAIR d k s)))
     else if pairs = [] \<and> length records = 1 then
       bind_res (keyOf [] (hd records)) (\<lambda>(k, _). Inr (READ_TRACKING_RECORD d k))
     else Inr (READ_TRACKING d (List.map_filter record_of records) (List.map_filter pair_of pairs))))"

subsection \<open>Guards\<close>

type_synonym guard_item = "(jsstr \<times> jsstr) \<times> jsstr"

definition guardItem :: "(jsstr \<times> jsstr) \<times> jsv \<Rightarrow> guard_item" where
  "guardItem p = (fst p, case field (snd p) (js ''mode'') of Str s \<Rightarrow> s | _ \<Rightarrow> [])"

text \<open>The canonical order the guard loop requires of two neighbours.\<close>

definition guardBefore :: "jsstr \<times> jsstr \<Rightarrow> jsstr \<times> jsstr \<Rightarrow> bool" where
  "guardBefore a b = (\<not> (0 < byteOrder (fst a) (fst b) \<or> fst a = fst b \<and> 0 \<le> byteOrder (snd a) (snd b)))"

fun checkGuards :: "guard_item option \<Rightarrow> guard_item list \<Rightarrow> (perr, unit) res" where
  "checkGuards prior [] = Inr ()"
| "checkGuards prior (r # rs) =
     (if \<not> (snd r = js ''ensure'' \<or> snd r = js ''lock'') then Inl GuardMode
      else if (case prior of None \<Rightarrow> False | Some p \<Rightarrow> \<not> guardBefore (fst p) (fst r)) then Inl GuardOrder
      else checkGuards (Some r) rs)"

text \<open>One homogeneous run, at most \<open>STREAM_BATCH\<close> long, as one statement.\<close>

definition guardRun :: "guard_item \<Rightarrow> guard_item list \<Rightarrow> guard_item list" where
  "guardRun r rs = r # take (STREAM_BATCH - 1) (takeWhile (\<lambda>x. snd x = snd r) rs)"

definition guardStatement ::
  "(jsstr \<Rightarrow> bool) \<Rightarrow> jsstr \<Rightarrow> db \<Rightarrow> (jsstr \<times> jsstr) list \<Rightarrow> (perr, (jsstr \<times> jsstr) list \<times> db) res" where
  "guardStatement key_ok mode d ks =
     (if mode = js ''lock'' then Inr (LOCK_IDENTITIES d ks, d) else ENSURE_IDENTITIES key_ok d ks)"

function guardLoop :: "(jsstr \<Rightarrow> bool) \<Rightarrow> db \<Rightarrow> guard_item list \<Rightarrow> (perr, bool list \<times> db) res" where
  "guardLoop key_ok d [] = Inr ([], d)"
| "guardLoop key_ok d (r # rs) =
     (let grp = guardRun r rs in
      bind_res (guardStatement key_ok (snd r) d (map fst grp)) (\<lambda>(rows, d').
      bind_res (guardLoop key_ok d' (drop (length grp) (r # rs))) (\<lambda>(result, d'').
        Inr (map (\<lambda>g. fst g \<in> set rows) grp @ result, d''))))"
  by pat_completeness auto
termination
  by (relation "measure (\<lambda>(_, _, rs). length rs)") (auto simp: guardRun_def)

definition guardRecords :: "(jsstr \<Rightarrow> bool) \<Rightarrow> jsv \<Rightarrow> db \<Rightarrow> (perr, bool list \<times> db) res" where
  "guardRecords key_ok rs d =
     bind_res (arrayOf rs ''guards'') (\<lambda>values.
     bind_res (traverse (keyOf [''mode'']) values) (\<lambda>records.
     bind_res (unique records ''guards'') (\<lambda>_.
     bind_res (checkGuards None (map guardItem records)) (\<lambda>_.
       guardLoop key_ok d (map guardItem records)))))"

subsection \<open>Positions\<close>

text \<open>One group of \<open>targetPositions\<close> or \<open>readPositions\<close>.\<close>

definition positionRows :: "db \<Rightarrow> jsstr \<Rightarrow> (jsstr \<times> jsstr) list \<Rightarrow> (int \<times> kind) option list" where
  "positionRows d s grp =
     (if length grp = 1 then [V05_POSITION_READ d s (hd grp)] else V05_POSITIONS_READ_BATCH d s grp)"

definition positionOf ::
  "bool \<Rightarrow> jsstr \<Rightarrow> (jsstr \<times> jsstr) \<times> (int \<times> kind) option \<Rightarrow> (perr, position option) res" where
  "positionOf required s = (\<lambda>(k, row).
     case row of
       None \<Rightarrow> if required then Inl MissingPosition else Inr None
     | Some (c, kd) \<Rightarrow> bind_res (positiveCounter c)
         (\<lambda>n. Inr (Some \<lparr>p_stream = s, p_key = k, p_cursor = n, p_kind = kd\<rparr>)))"

definition positionGroup :: "bool \<Rightarrow> jsstr \<Rightarrow> db \<Rightarrow> (jsstr \<times> jsstr) list \<Rightarrow> (perr, position option list) res" where
  "positionGroup required s d grp =
     (let rows = positionRows d s grp in
      if length rows \<noteq> length grp then Inl PositionCardinality
      else traverse (positionOf required s) (zip grp rows))"

text \<open>\<open>required\<close> is \<open>r.op === "readPositions"\<close>.\<close>

definition targetPositions :: "bool \<Rightarrow> jsstr \<Rightarrow> jsv \<Rightarrow> db \<Rightarrow> (perr, position option list) res" where
  "targetPositions required s rs d =
     bind_res (arrayOf rs ''positions'') (\<lambda>values.
     bind_res (traverse (keyOf []) values) (\<lambda>records.
     bind_res (traverse (positionGroup required s d) (batches (map fst records))) (\<lambda>groups.
       Inr (concat groups))))"

subsection \<open>Publication\<close>

record delta =
  d_key :: "jsstr \<times> jsstr"
  d_stream :: jsv
  d_publish :: jsv

definition deltaOf :: "(jsstr \<times> jsstr) \<times> jsv \<Rightarrow> delta" where
  "deltaOf p = \<lparr>d_key = fst p, d_stream = field (snd p) (js ''stream''), d_publish = field (snd p) (js ''publish'')\<rparr>"

text \<open>\<open>.sort(byteOrder)\<close>\<close>

fun insertStream :: "jsstr \<Rightarrow> jsstr list \<Rightarrow> jsstr list" where
  "insertStream x [] = [x]"
| "insertStream x (y # ys) = (if byteOrder x y \<le> 0 then x # y # ys else y # insertStream x ys)"

definition sortStreams :: "jsstr list \<Rightarrow> jsstr list" where
  "sortStreams xs = foldr insertStream xs []"

text \<open>The distinct Streams the deltas publish to, in canonical order.\<close>

definition publishStreams :: "delta list \<Rightarrow> (perr, jsstr list) res" where
  "publishStreams ds =
     bind_res (traverse (\<lambda>d. streamName (d_stream d)) (filter (\<lambda>d. truthy (d_publish d)) ds))
       (\<lambda>ss. Inr (sortStreams (js_set ss)))"

definition streamOf :: "delta \<Rightarrow> jsstr" where
  "streamOf x = (case d_stream x of Str s \<Rightarrow> s | _ \<Rightarrow> [])"

text \<open>The checks on one answer row, in the code's order, and the position it becomes.\<close>

definition memberPosition :: "delta \<Rightarrow> member_answer \<Rightarrow> (perr, position) res" where
  "memberPosition x = (\<lambda>(represented, cursor, kd).
     if \<not> represented then Inl MissingMetadata
     else if kd \<noteq> Some Upsert then Inl NoLivePosition
     else case cursor of
            None \<Rightarrow> Inl CounterNotPositive
          | Some c \<Rightarrow> bind_res (positiveCounter c)
              (\<lambda>n. Inr \<lparr>p_stream = streamOf x, p_key = d_key x, p_cursor = n, p_kind = Upsert\<rparr>))"

text \<open>The single-Stream publish-only path: one statement reserves and applies.\<close>

definition applyFast :: "jsstr \<Rightarrow> jsstr \<Rightarrow> delta list \<Rightarrow> db \<Rightarrow> (perr, position list \<times> db) res" where
  "applyFast s scope ds d =
     bind_res (V05_RESERVE_APPLY_MEMBERS d s scope (map d_key ds)) (\<lambda>(rows, d').
     if length rows \<noteq> length ds then Inl MemberCardinality
     else bind_res (traverse (\<lambda>(x, (row, overflow)).
              if overflow then Inl (HeadOverflow s) else memberPosition x row) (zip ds rows))
            (\<lambda>ps. Inr (ps, d')))"

text \<open>The general path: reserve each Stream in order, then apply in groups.\<close>

definition reserveStream ::
  "jsstr \<Rightarrow> (jsstr, int) jsmap \<times> db \<Rightarrow> jsstr \<Rightarrow> (perr, (jsstr, int) jsmap \<times> db) res" where
  "reserveStream scope st s =
     (case V05_RESERVE_CURSOR (snd st) s scope of
        (None, d') \<Rightarrow> Inl (HeadOverflow s)
      | (Some c, d') \<Rightarrow> bind_res (positiveCounter c) (\<lambda>n. Inr (mput s n (fst st), d')))"

definition wantedOf :: "(jsstr, int) jsmap \<Rightarrow> delta \<Rightarrow> (perr, wanted) res" where
  "wantedOf cursors x =
     bind_res (streamName (d_stream x)) (\<lambda>s.
       Inr \<lparr>w_stream = s, w_key = d_key x, w_publish = truthy (d_publish x), w_cursor = map_of cursors s\<rparr>)"

definition applyGroup ::
  "(jsstr, int) jsmap \<Rightarrow> position list \<times> db \<Rightarrow> delta list \<Rightarrow> (perr, position list \<times> db) res" where
  "applyGroup cursors st grp =
     bind_res (traverse (wantedOf cursors) grp) (\<lambda>ws.
     bind_res (V05_APPLY_MEMBERS_BATCH (snd st) ws) (\<lambda>(rows, d').
     if length rows \<noteq> length grp then Inl MemberCardinality
     else bind_res (traverse (\<lambda>(x, row). memberPosition x row) (zip grp rows))
            (\<lambda>ps. Inr (fst st @ ps, d'))))"

definition applyGeneral ::
  "jsstr list \<Rightarrow> jsstr \<Rightarrow> delta list \<Rightarrow> db \<Rightarrow> (perr, position list \<times> db) res" where
  "applyGeneral streams scope ds d =
     bind_res (foldM (reserveStream scope) ([], d) streams) (\<lambda>(cursors, d').
       foldM (applyGroup cursors) ([], d') (batches ds))"

definition fastPath :: "jsstr list \<Rightarrow> delta list \<Rightarrow> bool" where
  "fastPath streams ds =
     (length streams = 1 \<and> length ds \<le> STREAM_BATCH \<and> list_all (\<lambda>x. d_publish x = Bool True) ds)"

definition applyStreamMembers ::
  "jsv \<Rightarrow> jsstr option \<Rightarrow> db \<Rightarrow> (perr, position list \<times> db) res" where
  "applyStreamMembers rs publicationScope d =
     bind_res (arrayOf rs ''deltas'') (\<lambda>values.
     bind_res (traverse (keyOf [''identity'', ''stream'', ''publish'']) values) (\<lambda>records.
     bind_res (unique records ''deltas'') (\<lambda>_.
     let ds = map deltaOf records; scope = (case publicationScope of None \<Rightarrow> [] | Some p \<Rightarrow> p) in
     bind_res (publishStreams ds) (\<lambda>streams.
       if fastPath streams ds then applyFast (hd streams) scope ds d
       else applyGeneral streams scope ds d))))"

section \<open>Dispatch\<close>

text \<open>The protocol-5 operations of the host contract (\<open>Protocol05Operation\<close>).\<close>

datatype op05 =
    BootstrapState jsstr
  | HandleBootstrap05 jsstr jsstr jsstr
  | FinishBootstrap jsstr
  | DeliveryHead jsstr
  | DeliveryNow
  | DeliveryCandidates jsstr int "jsstr list option" "(jsstr \<times> jsstr) list option" int "int option"
  | Admit jsstr jsstr
  | InspectStore jsstr
  | ClaimStore jsstr jsstr jsstr
  | BeginBatch jsstr int jsstr int
  | ReadResult jsstr int int
  | ReadResults jsstr int
  | SaveResult jsstr int int int jsv
  | SaveResults jsstr int int int jsstr jsv
  | ReadTracking jsv jsv
  | GuardRecords jsv
  | TargetPositions jsstr jsv
  | ReadPositions jsstr jsv
  | ApplyStreamMembers jsv "jsstr option"

text \<open>What a persistence call answers.\<close>

datatype answer =
    Acknowledged
  | ABool bool
  | ANumber int
  | ACandidates "candidate list option"
  | ABinding "(jsstr \<times> jsstr) option"
  | AStore store_row
  | AResult "jsv option"
  | AResults "jsv list"
  | ATracking "(jsstr \<times> jsstr \<times> jsstr) list"
  | AGuards "bool list"
  | APositions "position option list"

definition done_with :: "(perr, db) res \<Rightarrow> (perr, answer \<times> db) res" where
  "done_with r = bind_res r (\<lambda>d. Inr (Acknowledged, d))"

definition reading :: "db \<Rightarrow> ('a \<Rightarrow> answer) \<Rightarrow> (perr, 'a) res \<Rightarrow> (perr, answer \<times> db) res" where
  "reading d f r = bind_res r (\<lambda>a. Inr (f a, d))"

fun answer05 :: "(jsstr \<Rightarrow> bool) \<Rightarrow> int \<Rightarrow> op05 \<Rightarrow> db \<Rightarrow> (perr, answer \<times> db) res" where
  "answer05 key_ok now (BootstrapState i) d = reading d ABool (bootstrapState i d)"
| "answer05 key_ok now (FinishBootstrap i) d = done_with (finishBootstrap i d)"
| "answer05 key_ok now (DeliveryHead s) d = reading d ANumber (deliveryHead s d)"
| "answer05 key_ok now DeliveryNow d = reading d ANumber (safe now)"
| "answer05 key_ok now (DeliveryCandidates s after models ks cap page) d =
     reading d ACandidates (deliveryCandidates s after models ks cap page d)"
| "answer05 key_ok now (HandleBootstrap05 _ _ _) d = Inl BootstrapHost"
| "answer05 key_ok now (InspectStore i) d = reading d ABinding (Inr (V05_STORE_INSPECT d i))"
| "answer05 key_ok now (ClaimStore i p s) d =
     bind_res (claimStore i p s d) (\<lambda>(r, d'). Inr (AStore r, d'))"
| "answer05 key_ok now (BeginBatch i batch digest count) d = done_with (beginBatch i batch digest count d)"
| "answer05 key_ok now (ReadResult i batch ordinal) d = reading d AResult (Inr (V05_RESULT_READ d i batch ordinal))"
| "answer05 key_ok now (ReadResults i batch) d = reading d AResults (Inr (V05_RESULTS_READ d i batch))"
| "answer05 key_ok now (SaveResult i batch ordinal count v) d = done_with (saveResult i batch ordinal count v d)"
| "answer05 key_ok now (SaveResults i batch ordinal count digest vs) d =
     done_with (saveResults i batch ordinal count digest vs d)"
| "answer05 key_ok now (ReadTracking rs ps) d = reading d ATracking (readTracking rs ps d)"
| "answer05 key_ok now (GuardRecords rs) d =
     bind_res (guardRecords key_ok rs d) (\<lambda>(bs, d'). Inr (AGuards bs, d'))"
| "answer05 key_ok now (TargetPositions s rs) d = reading d APositions (targetPositions False s rs d)"
| "answer05 key_ok now (ReadPositions s rs) d = reading d APositions (targetPositions True s rs d)"
| "answer05 key_ok now (ApplyStreamMembers rs scope) d =
     bind_res (applyStreamMembers rs scope d) (\<lambda>(ps, d'). Inr (APositions (map Some ps), d'))"
| "answer05 key_ok now (Admit _ _) d = Inl (UnsupportedOperation ''admit'')"

text \<open>The host contract's requests (\<open>HostRequest\<close>).\<close>

datatype host_request =
    Protocol05 op05
  | Head jsstr
  | Savepoint int
  | Rollback int
  | Release int
  | HandleAction
  | Load
  | ReadTrackingRequest jsv jsv
  | GuardRecordsRequest jsv
  | LockStreamsRequest jsv
  | ApplyStreamMembersRequest jsv

text \<open>
  A transaction: its tables, and its open savepoints with the tables each one
  would restore, innermost first. \<^verbatim>\<open>ROLLBACK TO\<close> keeps the savepoint it names and drops
  the ones inside it; \<^verbatim>\<open>RELEASE\<close> drops it as well.
\<close>

record ptx =
  cur :: db
  saves :: "(int \<times> db) list"

definition savepointOrdinal :: "int \<Rightarrow> (perr, unit) res" where
  "savepointOrdinal n = guard_res (safe_int n \<and> 1 \<le> n) SavepointOrdinal"

definition sql_rollback_to :: "int \<Rightarrow> ptx \<Rightarrow> (perr, ptx) res" where
  "sql_rollback_to n t =
     (case dropWhile (\<lambda>(m, _). m \<noteq> n) (saves t) of
        [] \<Rightarrow> Inl SqlNoSavepoint
      | (m, d) # rest \<Rightarrow> Inr (t\<lparr>cur := d, saves := (m, d) # rest\<rparr>))"

definition sql_release :: "int \<Rightarrow> ptx \<Rightarrow> (perr, ptx) res" where
  "sql_release n t =
     (case dropWhile (\<lambda>(m, _). m \<noteq> n) (saves t) of
        [] \<Rightarrow> Inl SqlNoSavepoint
      | _ # rest \<Rightarrow> Inr (t\<lparr>saves := rest\<rparr>))"

definition in_tx :: "ptx \<Rightarrow> (perr, answer \<times> db) res \<Rightarrow> (perr, answer \<times> ptx) res" where
  "in_tx t r = bind_res r (\<lambda>(a, d). Inr (a, t\<lparr>cur := d\<rparr>))"

fun answerInitialized ::
  "(jsstr \<Rightarrow> bool) \<Rightarrow> int \<Rightarrow> host_request \<Rightarrow> ptx \<Rightarrow> (perr, answer \<times> ptx) res" where
  "answerInitialized key_ok now (Protocol05 op) t = in_tx t (answer05 key_ok now op (cur t))"
| "answerInitialized key_ok now (Head s) t = in_tx t (reading (cur t) ANumber (deliveryHead s (cur t)))"
| "answerInitialized key_ok now (LockStreamsRequest r) t = in_tx t (done_with (lockStreams r (cur t)))"
| "answerInitialized key_ok now (ReadTrackingRequest rs ps) t =
     in_tx t (answer05 key_ok now (ReadTracking rs ps) (cur t))"
| "answerInitialized key_ok now (GuardRecordsRequest rs) t =
     in_tx t (answer05 key_ok now (GuardRecords rs) (cur t))"
| "answerInitialized key_ok now (ApplyStreamMembersRequest rs) t =
     in_tx t (answer05 key_ok now (ApplyStreamMembers rs None) (cur t))"
| "answerInitialized key_ok now (Savepoint n) t =
     bind_res (savepointOrdinal n) (\<lambda>_. Inr (Acknowledged, t\<lparr>saves := (n, cur t) # saves t\<rparr>))"
| "answerInitialized key_ok now (Rollback n) t =
     bind_res (savepointOrdinal n) (\<lambda>_. bind_res (sql_rollback_to n t) (\<lambda>t'. Inr (Acknowledged, t')))"
| "answerInitialized key_ok now (Release n) t =
     bind_res (savepointOrdinal n) (\<lambda>_. bind_res (sql_release n t) (\<lambda>t'. Inr (Acknowledged, t')))"
| "answerInitialized key_ok now HandleAction t = Inl (UnsupportedOperation ''handleAction'')"
| "answerInitialized key_ok now Load t = Inl (UnsupportedOperation ''load'')"

section \<open>The adapter\<close>

text \<open>
  The startup check: \<open>legacy\<close> is what the layout query answers, \<open>None\<close> for no row.
  A successful check is remembered by the adapter, a failed one is made again.
\<close>

definition requireFreshLayout :: "bool option \<Rightarrow> (perr, unit) res" where
  "requireFreshLayout legacy = guard_res (legacy = Some False) LegacyLayout"

definition answerOnce ::
  "bool option \<Rightarrow> (jsstr \<Rightarrow> bool) \<Rightarrow> int \<Rightarrow> host_request \<Rightarrow> ptx \<Rightarrow> (perr, answer \<times> ptx) res" where
  "answerOnce legacy key_ok now req t = bind_res (requireFreshLayout legacy) (\<lambda>_. answerInitialized key_ok now req t)"

definition initialize :: "bool option \<Rightarrow> bool \<Rightarrow> (perr, unit) res \<times> bool" where
  "initialize legacy initializing =
     (if initializing then (Inr (), True)
      else case requireFreshLayout legacy of Inl e \<Rightarrow> (Inl e, False) | Inr _ \<Rightarrow> (Inr (), True))"

definition persistenceCall ::
  "bool option \<Rightarrow> (jsstr \<Rightarrow> bool) \<Rightarrow> int \<Rightarrow> bool \<Rightarrow> host_request \<Rightarrow> ptx \<Rightarrow> (perr, answer \<times> ptx) res \<times> bool" where
  "persistenceCall legacy key_ok now initializing req t =
     (case initialize legacy initializing of
        (Inl e, ready) \<Rightarrow> (Inl e, ready)
      | (Inr _, ready) \<Rightarrow> (answerInitialized key_ok now req t, ready))"

end
