(* ===== verification/StoreWf.thy ===== *)
theory StoreWf
  imports Persistence
begin

text \<open>
  The Store half of the tables' invariant, kept by every statement that touches
  \<open>axton_store\<close> and \<open>axton_mutation_result\<close>, and the group save as the loop of
  single saves it replaces.
\<close>

section \<open>Frames\<close>

lemma wf_stores_frame:
  "axton_store d' = axton_store d \<Longrightarrow> axton_mutation_result d' = axton_mutation_result d \<Longrightarrow>
   wf_stores d' = wf_stores d"
  by (simp add: wf_stores_def stored_keys_def)

lemma insert_result_store:
  "insert_result i batch (d\<lparr>axton_store := m\<rparr>) x = map_sum id (axton_store_update (\<lambda>_. m)) (insert_result i batch d x)"
  by (cases x) (auto simp: insert_result_def split: option.splits)

lemma map_sum_bind: "map_sum id g (bind_res r f) = bind_res r (\<lambda>a. map_sum id g (f a))"
  by (cases r) simp_all

lemma bind_map_sum: "bind_res (map_sum id g r) f = bind_res r (\<lambda>a. f (g a))"
  by (cases r) simp_all

section \<open>Saving results keeps the invariant\<close>

lemma wf_save:
  assumes "wf_stores d" and r: "map_of (axton_store d) i = Some r"
    and "last_processed_batch_id r = batch - 1" "current_count r = Some count"
    and "put_store i (advance_store batch (progress r + int (length xs)) count r) d = Inr d1"
    and "foldM (insert_result i batch) d1 xs = Inr d'"
    and ords: "map fst xs = map (\<lambda>k. progress r + int k) [0..<length xs]"
  shows "wf_stores d'"
proof -
  let ?r = "advance_store batch (progress r + int (length xs)) count r"
  have old: "store_check r" "stored_keys d i = expected_keys r"
    using wf_stores_get [OF assms(1) r] by simp_all
  have ck: "store_check ?r" and d1: "d1 = d\<lparr>axton_store := mput i ?r (axton_store d)\<rparr>"
    using assms(5) by (auto simp: res_simps)
  obtain ys where ys: "axton_mutation_result d' = axton_mutation_result d1 @ ys"
      "map fst ys = map (\<lambda>(ord, _). (i, batch, ord)) xs"
    and st: "axton_store d' = axton_store d1"
    using foldM_insert_result [OF assms(6)] by blast
  have owner: "fst (fst y) = i" if "y \<in> set ys" for y
  proof -
    have "fst y \<in> set (map (\<lambda>(ord, _). (i, batch, ord)) xs)" using that ys(2) by (metis image_eqI list.set_map)
    then show ?thesis by auto
  qed
  have "result_keys i ys = map snd (map fst ys)"
    using owner by (simp add: result_keys_def)
  also have "\<dots> = map (Pair batch) (map fst xs)" unfolding ys(2) by (simp add: split_def)
  finally have new: "result_keys i ys = map (\<lambda>k. (batch, progress r + int k)) [0..<length xs]"
    using ords by (simp add: o_def)
  have other: "result_keys j ys = []" if "j \<noteq> i" for j
    using owner that by (fastforce simp: result_keys_def filter_empty_conv)
  have app: "stored_keys d' j = stored_keys d j @ result_keys j ys" for j
    by (simp add: stored_keys_def ys(1) d1) (simp add: result_keys_def)
  show ?thesis
  proof (rule wf_stores_update [OF assms(1) ck, of d' i])
    show "stored_keys d' i = expected_keys ?r"
      using app [of i] new old expected_keys_advance [OF old(1) assms(4,3) refl] by simp
    show "stored_keys d' j = stored_keys d j" if "j \<noteq> i" for j
      using app [of j] other [OF that] by simp
    show "list_all (\<lambda>x. mhas (axton_store d') (fst (fst x))) (axton_mutation_result d')"
      using wf_results_owner [OF assms(1)] owner by (auto simp: ys(1) st d1 list_all_iff)
  qed (simp add: st d1)
qed

lemma wf_V05_RESULT_SAVE:
  assumes "wf_stores d" and "V05_RESULT_SAVE d i batch ordinal count v = Inr (n, d')"
  shows "wf_stores d'"
proof (cases "n = 0")
  case True
  with assms show ?thesis by (auto simp: V05_RESULT_SAVE_def res_simps split: option.splits if_splits)
next
  case False
  with assms(2) obtain r d1 where r: "map_of (axton_store d) i = Some r"
      "last_processed_batch_id r = batch - 1" "current_count r = Some count" "progress r = ordinal"
    and p: "put_store i (advance_store batch (ordinal + 1) count r) d = Inr d1"
    and ins: "insert_result i batch d1 (ordinal, v) = Inr d'"
    by (auto simp: V05_RESULT_SAVE_def bind_res_Inr_iff split: option.splits if_splits)
  show ?thesis
    by (rule wf_save [OF assms(1) r(1,2,3), of "[(ordinal, v)]" d1]) (use r(4) p ins in simp_all)
qed

lemma map_fst_enumerate_ords:
  "map fst (map (\<lambda>(k, v). (a + int k, v)) (enumerate 0 vs)) = map (\<lambda>k. a + int k) [0..<length vs]"
  by (rule nth_equalityI) (simp_all add: nth_enumerate_eq)

lemma wf_V05_RESULTS_SAVE:
  assumes "wf_stores d" and "V05_RESULTS_SAVE d i batch ordinal count n digest vs = Inr (m, d')"
    and "n = int (length vs)"
  shows "wf_stores d'"
proof (cases "d' = d")
  case False
  let ?xs = "map (\<lambda>(k, v). (ordinal + int k, v)) (enumerate 0 vs)"
  from False assms(2) obtain r d1 where r: "map_of (axton_store d) i = Some r"
      "last_processed_batch_id r = batch - 1" "current_count r = Some count" "progress r = ordinal"
    and p: "put_store i (advance_store batch (ordinal + n) count r) d = Inr d1"
    and ins: "foldM (insert_result i batch) d1 ?xs = Inr d'"
    by (auto simp: V05_RESULTS_SAVE_def bind_res_Inr_iff split: option.splits if_splits)
  show ?thesis
    by (rule wf_save [OF assms(1) r(1,2,3) _ ins])
       (use r(4) p assms(3) map_fst_enumerate_ords [of ordinal vs] in simp_all)
qed (simp add: assms(1))

section \<open>A group is the loop of its members\<close>

text \<open>\<open>saveResult\<close> for each result in turn, the fallback of the host.\<close>

fun saveLoop :: "jsstr \<Rightarrow> int \<Rightarrow> int \<Rightarrow> int \<Rightarrow> jsv list \<Rightarrow> db \<Rightarrow> (perr, db) res" where
  "saveLoop i batch ordinal count [] d = Inr d"
| "saveLoop i batch ordinal count (v # vs) d =
     bind_res (saveResult i batch ordinal count v d) (saveLoop i batch (ordinal + 1) count vs)"

text \<open>The Store expects this ordinal of this open Batch.\<close>

definition expects :: "db \<Rightarrow> jsstr \<Rightarrow> int \<Rightarrow> int \<Rightarrow> int \<Rightarrow> bool" where
  "expects d i batch ordinal count =
     (case map_of (axton_store d) i of
        None \<Rightarrow> False
      | Some r \<Rightarrow> last_processed_batch_id r = batch - 1 \<and> progress r = ordinal \<and> current_count r = Some count)"

lemma saveResult_iff:
  "saveResult i batch ordinal count v d = Inr d' \<longleftrightarrow>
   expects d i batch ordinal count \<and>
   (let r = advance_store batch (ordinal + 1) count (the (map_of (axton_store d) i)) in
    store_check r \<and> insert_result i batch (d\<lparr>axton_store := mput i r (axton_store d)\<rparr>) (ordinal, v) = Inr d')"
  by (auto simp: saveResult_def V05_RESULT_SAVE_def expects_def Let_def bind_res_Inr_iff put_store_def
        split: option.splits if_splits)

lemma enumerate_ords_Cons:
  "map (\<lambda>(k, v). (a + int k, v)) (enumerate 0 (v # vs)) =
   (a, v) # map (\<lambda>(k, v). (a + 1 + int k, v)) (enumerate 0 vs)"
  by (rule nth_equalityI) (auto simp: nth_enumerate_eq nth_Cons split: nat.splits)

lemma advance_store_advance:
  "m \<noteq> count \<Longrightarrow> advance_store batch n count (advance_store batch m count r) = advance_store batch n count r"
  by (auto simp: advance_store_def)

lemma advance_store_open:
  "current_count (advance_store batch n count r) = (if n = count then None else current_count r)"
  "n \<noteq> count \<Longrightarrow> last_processed_batch_id (advance_store batch n count r) = last_processed_batch_id r"
  "n \<noteq> count \<Longrightarrow> progress (advance_store batch n count r) = n"
  by (auto simp: advance_store_def)

lemma store_check_advance:
  "store_check (advance_store batch n count r) \<Longrightarrow> store_check r \<Longrightarrow> current_count r = Some count \<Longrightarrow>
   last_processed_batch_id r = batch - 1 \<Longrightarrow> 0 \<le> m \<Longrightarrow> m < n \<Longrightarrow> n \<le> count \<Longrightarrow>
   store_check (advance_store batch m count r)"
  by (auto simp: advance_store_def store_check_def in_range_def split: option.splits if_splits)

lemma map_sum_Inr_iff: "map_sum id g r = Inr b \<longleftrightarrow> (\<exists>a. r = Inr a \<and> b = g a)"
  by (cases r) auto

lemma saveLoop_not_expected: "\<not> expects d i batch ordinal count \<Longrightarrow> vs \<noteq> [] \<Longrightarrow> saveLoop i batch ordinal count vs d \<noteq> Inr d'"
  by (cases vs) (auto simp: bind_res_Inr_iff saveResult_iff)

lemma saveLoop_iff:
  assumes "vs \<noteq> []" and "map_of (axton_store d) i = Some r" and "last_processed_batch_id r = batch - 1"
    and "progress r = ordinal" and "current_count r = Some count" and "store_check r"
  shows "saveLoop i batch ordinal count vs d = Inr d' \<longleftrightarrow>
    ordinal + int (length vs) \<le> count \<and>
    (let r' = advance_store batch (ordinal + int (length vs)) count r in
     store_check r' \<and>
     foldM (insert_result i batch) (d\<lparr>axton_store := mput i r' (axton_store d)\<rparr>)
       (map (\<lambda>(k, v). (ordinal + int k, v)) (enumerate 0 vs)) = Inr d')"
  using assms
proof (induction vs arbitrary: d ordinal r)
  case Nil
  then show ?case by simp
next
  case (Cons v vs)
  have ord: "0 \<le> ordinal" "ordinal < count" using store_check_open [OF Cons.prems(6,5)] Cons.prems(4) by auto
  have exp: "expects d i batch ordinal count" using Cons.prems by (simp add: expects_def)
  let ?r1 = "advance_store batch (ordinal + 1) count r"
  let ?n = "ordinal + int (length (v # vs))"
  let ?r' = "advance_store batch ?n count r"
  have step: "saveResult i batch ordinal count v d = Inr d1 \<longleftrightarrow>
      store_check ?r1 \<and> (\<exists>d0. insert_result i batch d (ordinal, v) = Inr d0
        \<and> d1 = d0\<lparr>axton_store := mput i ?r1 (axton_store d)\<rparr>)" for d1
    using exp Cons.prems(2) by (auto simp: saveResult_iff Let_def insert_result_store map_sum_Inr_iff)
  have group: "foldM (insert_result i batch) (d\<lparr>axton_store := mput i ?r' (axton_store d)\<rparr>)
       (map (\<lambda>(k, v). (ordinal + int k, v)) (enumerate 0 (v # vs))) = Inr d' \<longleftrightarrow>
     (\<exists>d0. insert_result i batch d (ordinal, v) = Inr d0 \<and>
        foldM (insert_result i batch) (d0\<lparr>axton_store := mput i ?r' (axton_store d)\<rparr>)
          (map (\<lambda>(k, v). (ordinal + 1 + int k, v)) (enumerate 0 vs)) = Inr d')"
    by (simp only: enumerate_ords_Cons foldM.simps bind_res_Inr_iff insert_result_store map_sum_Inr_iff) auto
  show ?case
  proof (cases "vs = []")
    case True
    then show ?thesis using ord by (auto simp: bind_res_Inr_iff step Let_def insert_result_store map_sum_Inr_iff enumerate_simps)
  next
    case False
    then have len: "1 \<le> length vs" by (cases vs) auto
    have rest: "saveLoop i batch (ordinal + 1) count vs (d0\<lparr>axton_store := mput i ?r1 (axton_store d)\<rparr>) = Inr d' \<longleftrightarrow>
        ?n \<le> count \<and> store_check ?r' \<and>
        foldM (insert_result i batch) (d0\<lparr>axton_store := mput i ?r' (axton_store d)\<rparr>)
          (map (\<lambda>(k, v). (ordinal + 1 + int k, v)) (enumerate 0 vs)) = Inr d'"
      if ck: "store_check ?r1" for d0
    proof (cases "ordinal + 1 = count")
      case True
      have "\<not> expects (d0\<lparr>axton_store := mput i ?r1 (axton_store d)\<rparr>) i batch (ordinal + 1) count"
        using True by (simp add: expects_def map_simps advance_store_open)
      then show ?thesis using saveLoop_not_expected [OF _ False] True len by auto
    next
      case ne: False
      show ?thesis
        using ne ck Cons.prems
        by (subst Cons.IH [OF False, where r = ?r1])
           (simp_all add: map_simps advance_store_open advance_store_advance Let_def AList.update_last add.assoc)
    qed
    have ck1: "store_check ?r1" if "?n \<le> count" "store_check ?r'"
      using store_check_advance [OF that(2) Cons.prems(6,5,3), of "ordinal + 1"] ord len that(1) False by simp
    show ?thesis
      unfolding group Let_def saveLoop.simps bind_res_Inr_iff step using rest ck1 by auto
  qed
qed

lemma saveResults_eq_loop:
  assumes "wf_stores d" and "vs \<noteq> []" and "length vs \<le> 32"
    and "map_of (axton_store d) i = Some r" and "current_digest r = Some digest"
  shows "saveResults i batch ordinal count digest (Arr vs) d = Inr d' \<longleftrightarrow>
         saveLoop i batch ordinal count vs d = Inr d'"
proof (cases "expects d i batch ordinal count")
  case False
  then show ?thesis
    using saveLoop_not_expected [OF False assms(2)] assms(2,3,4)
    by (auto simp: saveResults_def arrayOf_def safe_def positiveCounter_def V05_RESULTS_SAVE_def
          bind_res_Inr_iff expects_def split: if_splits)
next
  case True
  have r: "last_processed_batch_id r = batch - 1" "progress r = ordinal" "current_count r = Some count"
    using True assms(4) by (simp_all add: expects_def)
  have ck: "store_check r" using wf_stores_get [OF assms(1,4)] by simp
  have "0 \<le> ordinal" "ordinal < count" "count \<le> MAX_SAFE"
    using store_check_open [OF ck r(3)] ck r(2,3) by (auto simp: store_check_def in_range_def split: option.splits)
  then have ok: "safe ordinal = Inr ordinal" "positiveCounter count = Inr count"
    by (auto simp: safe_def positiveCounter_def safe_int_def)
  show ?thesis
    unfolding saveLoop_iff [OF assms(2,4) r ck]
    using assms(2-5) r
    by (auto simp: saveResults_def arrayOf_def ok V05_RESULTS_SAVE_def bind_res_Inr_iff put_store_def Let_def
          split: if_splits)
qed

section \<open>What was saved is what is read\<close>

lemma filter_results_append:
  "filter (\<lambda>((s, b, _), _). s = i \<and> b = batch) ys = ys" if "map fst ys = map (\<lambda>ord. (i, batch, ord)) ords"
proof -
  have "fst y \<in> (\<lambda>ord. (i, batch, ord)) ` set ords" if "y \<in> set ys" for y
    using that \<open>map fst ys = map (\<lambda>ord. (i, batch, ord)) ords\<close> by (metis image_eqI list.set_map)
  then show ?thesis by (fastforce intro: filter_True)
qed

lemma sorted_results:
  assumes "map fst ys = map (\<lambda>ord. (i, batch, ord)) ords" and "sorted ords"
  shows "sort_key (\<lambda>((_, _, ord), _). ord) ys = ys"
proof -
  have "map (\<lambda>((_, _, ord), _). ord) ys = map (snd \<circ> snd) (map fst ys)" by (simp add: split_def)
  then have "map (\<lambda>((_, _, ord), _). ord) ys = ords" by (simp add: assms(1) o_def)
  then show ?thesis by (intro sort_key_id_if_sorted) (use assms(2) in simp)
qed

lemma stored_keys_filter:
  "map fst (filter (\<lambda>((s, b, _), _). s = i \<and> b = batch) xs) =
   map (\<lambda>(b, ord). (i, b, ord)) (filter (\<lambda>(b, _). b = batch) (result_keys i xs))"
  by (induction xs) (auto simp: result_keys_def)

text \<open>Of a well-formed table the results of a Batch are already in ordinal order.\<close>

lemma wf_results_sorted:
  assumes "wf_stores d" and "map_of (axton_store d) i = Some r"
  shows "V05_RESULTS_READ d i batch =
    map (\<lambda>(_, _, result). result) (filter (\<lambda>((s, b, _), _). s = i \<and> b = batch) (axton_mutation_result d))"
proof -
  let ?ys = "filter (\<lambda>((s, b, _), _). s = i \<and> b = batch) (axton_mutation_result d)"
  let ?ks = "filter (\<lambda>(b, _). b = batch) (expected_keys r)"
  have "result_keys i (axton_mutation_result d) = expected_keys r"
    using wf_stores_get [OF assms] by (simp add: stored_keys_def)
  then have "map fst ?ys = map (\<lambda>(b, ord). (i, b, ord)) ?ks" by (simp only: stored_keys_filter)
  also have "\<dots> = map (\<lambda>ord. (i, batch, ord)) (map snd ?ks)" by auto
  finally have "map fst ?ys = map (\<lambda>ord. (i, batch, ord)) (map snd ?ks)" .
  moreover have "sorted (map snd ?ks)"
    by (auto simp: expected_keys_def filter_map o_def sorted_wrt_filter split: option.splits)
  ultimately show ?thesis unfolding V05_RESULTS_READ_def by (simp only: sorted_results)
qed

lemma V05_RESULTS_READ_save:
  assumes "wf_stores d" and "map_of (axton_store d) i = Some r" and "0 < length vs"
    and "saveResults i batch ordinal count digest (Arr vs) d = Inr d'"
  shows "V05_RESULTS_READ d' i batch = V05_RESULTS_READ d i batch @ vs"
proof -
  let ?xs = "map (\<lambda>(k, v). (ordinal + int k, v)) (enumerate 0 vs)"
  obtain d1 where p: "put_store i (advance_store batch (ordinal + int (length vs)) count r) d = Inr d1"
    and ins: "foldM (insert_result i batch) d1 ?xs = Inr d'"
    and save: "V05_RESULTS_SAVE d i batch ordinal count (int (length vs)) digest vs = Inr (length vs, d')"
    using assms(2-4)
    by (auto simp: saveResults_def arrayOf_def safe_def positiveCounter_def V05_RESULTS_SAVE_def bind_res_Inr_iff
        split: if_splits)
  have wf': "wf_stores d'" using wf_V05_RESULTS_SAVE [OF assms(1) save refl] .
  obtain ys where ys: "axton_mutation_result d' = axton_mutation_result d1 @ ys"
      "map fst ys = map (\<lambda>(ord, _). (i, batch, ord)) ?xs" "map (snd \<circ> snd) ys = map snd ?xs"
    and st: "axton_store d' = axton_store d1"
    using foldM_insert_result [OF ins] by blast
  have d1: "axton_mutation_result d1 = axton_mutation_result d" "map_of (axton_store d1) i \<noteq> None"
    using p by (auto simp: res_simps map_simps)
  have "map fst ys = map (\<lambda>ord. (i, batch, ord)) (map fst ?xs)" using ys(2) by (simp add: split_def)
  then have f: "filter (\<lambda>((s, b, _), _). s = i \<and> b = batch) ys = ys" by (rule filter_results_append)
  have "map snd ?xs = vs" by (rule nth_equalityI) (simp_all add: nth_enumerate_eq)
  then have v: "map (\<lambda>(_, _, result). result) ys = vs" using ys(3) by (simp add: o_def split_def)
  obtain r' where "map_of (axton_store d') i = Some r'" using d1(2) st by auto
  then show ?thesis
    using f v by (simp add: wf_results_sorted [OF wf'] wf_results_sorted [OF assms(1,2)] ys(1) d1(1))
qed

lemma saveResults_nonempty: "saveResults i batch ordinal count digest (Arr vs) d = Inr d' \<Longrightarrow> 0 < length vs"
  by (auto simp: saveResults_def arrayOf_def bind_res_Inr_iff split: if_splits)

lemma saveResults_wf:
  assumes "wf_stores d" and "saveResults i batch ordinal count digest vs d = Inr d'"
  shows "wf_stores d'"
proof -
  obtain rs o1 c1 where "V05_RESULTS_SAVE d i batch o1 c1 (int (length rs)) digest rs = Inr (length rs, d')"
    using assms(2) by (auto simp: saveResults_def bind_res_Inr_iff split: if_splits)
  then show ?thesis by (rule wf_V05_RESULTS_SAVE [OF assms(1)]) simp
qed

lemma saveResults_keeps_store:
  assumes "saveResults i batch ordinal count digest vs d = Inr d'" and "mhas (axton_store d) j"
  shows "mhas (axton_store d') j"
proof (cases "d' = d")
  case False
  with assms(1) obtain r d1 xs where "put_store i r d = Inr d1" "foldM (insert_result i batch) d1 xs = Inr d'"
    by (auto simp: saveResults_def V05_RESULTS_SAVE_def bind_res_Inr_iff split: if_splits option.splits)
  then show ?thesis using assms(2) foldM_insert_result by (fastforce simp: res_simps)
qed (use assms(2) in simp)

text \<open>The host's loop over one Batch: every group saved at the next ordinal.\<close>

fun saveGroups :: "jsstr \<Rightarrow> int \<Rightarrow> int \<Rightarrow> int \<Rightarrow> jsstr \<Rightarrow> jsv list list \<Rightarrow> db \<Rightarrow> (perr, db) res" where
  "saveGroups i batch ordinal count digest [] d = Inr d"
| "saveGroups i batch ordinal count digest (vs # vss) d =
     bind_res (saveResults i batch ordinal count digest (Arr vs) d)
       (saveGroups i batch (ordinal + int (length vs)) count digest vss)"

lemma saveGroups_read:
  assumes "wf_stores d" and "mhas (axton_store d) i" and "saveGroups i batch ordinal count digest vss d = Inr d'"
  shows "V05_RESULTS_READ d' i batch = V05_RESULTS_READ d i batch @ concat vss"
  using assms
proof (induction vss arbitrary: d ordinal)
  case Nil
  then show ?case by simp
next
  case (Cons vs vss)
  from Cons.prems(3) obtain d1 where d1: "saveResults i batch ordinal count digest (Arr vs) d = Inr d1"
      "saveGroups i batch (ordinal + int (length vs)) count digest vss d1 = Inr d'"
    by (auto simp: bind_res_Inr_iff)
  obtain r where r: "map_of (axton_store d) i = Some r" using Cons.prems(2) by (auto simp: mhas_def)
  have "V05_RESULTS_READ d' i batch = V05_RESULTS_READ d1 i batch @ concat vss"
    by (rule Cons.IH [OF saveResults_wf [OF Cons.prems(1) d1(1)] saveResults_keeps_store [OF d1(1) Cons.prems(2)] d1(2)])
  then show ?case
    by (simp add: V05_RESULTS_READ_save [OF Cons.prems(1) r saveResults_nonempty [OF d1(1)] d1(1)])
qed

lemma beginBatch_wf: "wf_stores d \<Longrightarrow> beginBatch i batch digest count d = Inr d' \<Longrightarrow> wf_stores d'"
  by (auto simp: beginBatch_def bind_res_Inr_iff split: if_splits intro: wf_V05_BATCH_BEGIN)

lemma beginBatch_fresh:
  assumes "wf_stores d" and "beginBatch i batch digest count d = Inr d'"
  shows "mhas (axton_store d') i \<and> V05_RESULTS_READ d' i batch = []"
proof -
  obtain r where r: "map_of (axton_store d') i = Some r" "current_count r = Some count" "progress r = 0"
    using assms(2) by (auto simp: beginBatch_def V05_BATCH_BEGIN_def bind_res_Inr_iff put_store_def map_simps
        split: option.splits if_splits)
  have wf: "wf_stores d'" by (rule beginBatch_wf [OF assms])
  have "result_keys i (axton_mutation_result d') = []"
    using wf_stores_get [OF wf r(1)] r(2,3) by (simp add: stored_keys_def expected_keys_def)
  then have "map fst (filter (\<lambda>((s, b, _), _). s = i \<and> b = batch) (axton_mutation_result d')) = []"
    by (simp only: stored_keys_filter) simp
  then show ?thesis using r(1) by (simp add: V05_RESULTS_READ_def mhas_def)
qed

end
