(* ===== verification/StreamWf.thy ===== *)
theory StreamWf
  imports StoreWf
begin

text \<open>
  The catalog and Stream half of the tables' invariant, kept by the guard and
  publication operations; with the Store half, every answered request keeps the
  whole invariant.
\<close>

section \<open>The catalog\<close>

lemma wf_streams_frame:
  "axton_stream d' = axton_stream d \<Longrightarrow> axton_stream_record d' = axton_stream_record d \<Longrightarrow>
   publication_cursor d' = publication_cursor d \<Longrightarrow> snd ` set (axton_record d) \<subseteq> snd ` set (axton_record d') \<Longrightarrow>
   wf_streams d \<Longrightarrow> wf_streams d'"
  by (auto simp: wf_streams_def below_head_def list_all_iff)

lemma wf_ensure_identity:
  assumes "wf_db d" and "ensure_identity key_ok d k = Inr d'"
  shows "wf_db d'"
proof (cases "record_id d k")
  case None
  then have d': "d' = d\<lparr>axton_record := axton_record d @ [(k, next_id d)], next_id := next_id d + 1\<rparr>"
    using assms(2) by (auto simp: ensure_identity_def split: if_splits)
  have "k \<notin> fst ` set (axton_record d)" using None by (simp add: record_id_def map_of_eq_None_iff)
  moreover have "next_id d \<notin> snd ` set (axton_record d)"
    using assms(1) by (auto simp: wf_db_def wf_catalog_def list_all_iff)
  ultimately have "wf_catalog d'"
    using assms(1) by (auto simp: wf_db_def wf_catalog_def d' list_all_iff)
  moreover have "wf_streams d'"
    by (rule wf_streams_frame [of d' d]) (use assms(1) in \<open>auto simp: d' wf_db_def\<close>)
  moreover have "wf_stores d'"
    using assms(1) wf_stores_frame [of d' d] by (simp add: d' wf_db_def)
  ultimately show ?thesis by (simp add: wf_db_def)
next
  case (Some i)
  with assms show ?thesis by (simp add: ensure_identity_def)
qed

lemma ensure_identity_grows:
  "ensure_identity key_ok d k = Inr d' \<Longrightarrow> record_id d' k \<noteq> None \<and> (\<forall>j. record_id d j \<noteq> None \<longrightarrow> record_id d' j = record_id d j)"
  by (auto simp: ensure_identity_def record_id_def map_add_def split: if_splits option.splits)

lemma wf_guardStatement:
  assumes "wf_db d" and "guardStatement key_ok m d ks = Inr (rows, d')"
  shows "wf_db d'"
proof (cases "m = js ''lock''")
  case False
  then have "foldM (ensure_identity key_ok) d ks = Inr d'"
    using assms(2) by (auto simp: guardStatement_def ENSURE_IDENTITIES_def bind_res_Inr_iff)
  then show ?thesis by (rule foldM_invariant) (use assms(1) wf_ensure_identity in auto)
qed (use assms in \<open>simp add: guardStatement_def\<close>)

lemma wf_guardLoop:
  "wf_db d \<Longrightarrow> guardLoop key_ok d rs = Inr (bs, d') \<Longrightarrow> wf_db d'"
proof (induction key_ok d rs arbitrary: bs d' rule: guardLoop.induct)
  case (1 key_ok d)
  then show ?case by simp
next
  case (2 key_ok d r rs)
  let ?g = "guardRun r rs"
  from "2.prems"(2) obtain rows d1 bs' where s: "guardStatement key_ok (snd r) d (map fst ?g) = Inr (rows, d1)"
    and l: "guardLoop key_ok d1 (drop (length ?g) (r # rs)) = Inr (bs', d')"
    by (auto simp: bind_res_Inr_iff Let_def)
  show ?case
    using "2.IH" [OF refl s refl wf_guardStatement [OF "2.prems"(1) s] l] .
qed

section \<open>Publication\<close>

lemma below_head_mono:
  "wf_streams d \<Longrightarrow> V05_RESERVE_CURSOR d s scope = (c, d') \<Longrightarrow> below_head d s' n \<Longrightarrow> below_head d' s' n"
  by (fastforce simp: V05_RESERVE_CURSOR_def below_head_def map_simps split: option.splits if_splits)

definition same_rest :: "db \<Rightarrow> db \<Rightarrow> bool" where
  "same_rest d d' = (axton_record d' = axton_record d \<and> next_id d' = next_id d
     \<and> axton_store d' = axton_store d \<and> axton_mutation_result d' = axton_mutation_result d)"

lemma same_rest_refl [simp]: "same_rest d d"
  by (simp add: same_rest_def)

lemma same_rest_trans: "same_rest d d' \<Longrightarrow> same_rest d' d'' \<Longrightarrow> same_rest d d''"
  by (simp add: same_rest_def)

lemma wf_db_same_rest: "wf_db d \<Longrightarrow> same_rest d d' \<Longrightarrow> wf_streams d' \<Longrightarrow> wf_db d'"
  using wf_stores_frame [of d' d] by (simp add: wf_db_def same_rest_def wf_catalog_def)

lemma reserve_frame:
  "V05_RESERVE_CURSOR d s scope = (c, d') \<Longrightarrow> same_rest d d' \<and> axton_stream_record d' = axton_stream_record d"
  by (auto simp: V05_RESERVE_CURSOR_def same_rest_def split: option.splits if_splits)

lemma reserve_below:
  assumes "wf_streams d" and "V05_RESERVE_CURSOR d s scope = (Some n, d')"
  shows "below_head d' s n"
proof (cases "map_of (publication_cursor d) (s, scope)")
  case None
  with assms show ?thesis
    by (auto simp: V05_RESERVE_CURSOR_def below_head_def wf_streams_def in_range_def map_simps
        dest: mall_get split: option.splits if_splits)
next
  case (Some c)
  then have "below_head d s c" using assms(1) mall_get by (fastforce simp: wf_streams_def)
  with Some assms(2) show ?thesis by (simp add: V05_RESERVE_CURSOR_def)
qed

lemma wf_reserve:
  assumes "wf_streams d" and "V05_RESERVE_CURSOR d s scope = (c, d')"
  shows "wf_streams d'"
proof (cases "d' = d")
  case False
  then obtain n where n: "c = Some n" "d' = d\<lparr>axton_stream := mput s n (axton_stream d),
      publication_cursor := mput (s, scope) n (publication_cursor d)\<rparr>" "1 \<le> n" "n \<le> MAX_SAFE"
    using assms by (auto simp: V05_RESERVE_CURSOR_def wf_streams_def in_range_def
        dest: mall_get split: option.splits if_splits)
  have mono: "below_head d t m \<Longrightarrow> below_head d' t m" for t m
    using below_head_mono [OF assms] .
  have new: "below_head d' s n" using reserve_below [OF assms(1)] assms(2) n(1) by simp
  have "list_all (\<lambda>(_, h). in_range 0 h) (axton_stream d')"
    unfolding n(2) by (simp, rule mall_mput) (use assms(1) n(3,4) in \<open>simp_all add: wf_streams_def in_range_def\<close>)
  moreover have "list_all (\<lambda>((s, _), c). below_head d' s c) (publication_cursor d')"
    by (subst n(2), simp, rule mall_mput) (use assms(1) mono new in \<open>auto simp: wf_streams_def list_all_iff\<close>)
  moreover have "list_all (\<lambda>((s, i), (c, _)). i \<in> snd ` set (axton_record d') \<and> below_head d' s c) (axton_stream_record d')"
    using assms(1) mono reserve_frame [OF assms(2)] by (auto simp: same_rest_def wf_streams_def list_all_iff split: prod.splits)
  ultimately show ?thesis
    using assms(1) by (simp add: wf_streams_def n(2) map_simps)
qed (use assms(1) in simp)

lemma wf_put_member:
  assumes "wf_streams d" and "put_member s i c d = Inr d'" and "i \<in> snd ` set (axton_record d)"
    and "\<And>n. c = Some n \<Longrightarrow> below_head d s n"
  shows "wf_streams d'"
proof -
  obtain n where n: "c = Some n" "d' = d\<lparr>axton_stream_record := mput (s, i) (n, Upsert) (axton_stream_record d)\<rparr>"
    using assms(2) by (auto simp: put_member_def split: option.splits if_splits)
  have bh: "below_head d' t m = below_head d t m" for t m by (simp add: n(2) below_head_def)
  have "list_all (\<lambda>((s, i), (c, _)). i \<in> snd ` set (axton_record d') \<and> below_head d' s c) (axton_stream_record d')"
    unfolding bh
    by (subst n(2), simp add: n(2), rule mall_mput)
       (use assms(1,3,4) n(1) in \<open>auto simp: wf_streams_def\<close>)
  with assms(1) show ?thesis by (simp add: wf_streams_def n(2) map_simps below_head_def)
qed

lemma put_member_frame:
  "put_member s i c d = Inr d' \<Longrightarrow>
   same_rest d d' \<and> axton_stream d' = axton_stream d \<and> publication_cursor d' = publication_cursor d"
  by (auto simp: put_member_def same_rest_def split: option.splits if_splits)

lemma below_head_stream: "axton_stream d' = axton_stream d \<Longrightarrow> below_head d' = below_head d"
  by (simp add: below_head_def fun_eq_iff)

text \<open>The state a loop of member writes keeps: well-formed, same heads and catalog as at its start.\<close>

definition writing :: "db \<Rightarrow> db \<Rightarrow> bool" where
  "writing d acc = (wf_streams acc \<and> same_rest d acc \<and> axton_stream acc = axton_stream d
     \<and> publication_cursor acc = publication_cursor d)"

lemma writing_refl: "wf_streams d \<Longrightarrow> writing d d"
  by (simp add: writing_def)

lemma writing_put_member:
  assumes "writing d acc" and "record_id d k = Some i" and "put_member s i c acc = Inr acc'"
    and "\<And>n. c = Some n \<Longrightarrow> below_head d s n"
  shows "writing d acc'"
proof -
  have "i \<in> snd ` set (axton_record acc)"
    using assms(1,2) by (force simp: writing_def same_rest_def record_id_def dest: map_of_SomeD)
  then have "wf_streams acc'"
    using assms by (intro wf_put_member [of acc s i c acc']) (auto simp: writing_def below_head_stream [of acc d])
  then show ?thesis
    using assms(1) put_member_frame [OF assms(3)] by (auto simp: writing_def same_rest_def)
qed

lemma writing_wanted:
  assumes "writing d acc" and "write_wanted d acc w = Inr acc'"
    and "\<And>n. w_cursor w = Some n \<Longrightarrow> below_head d (w_stream w) n"
  shows "writing d acc'"
  using assms writing_put_member [OF assms(1)]
  by (auto simp: write_wanted_def split: option.splits if_splits)

lemma writing_apply_batch:
  assumes "wf_streams d" and "V05_APPLY_MEMBERS_BATCH d ws = Inr (rows, d')"
    and "\<And>w n. w \<in> set ws \<Longrightarrow> w_cursor w = Some n \<Longrightarrow> below_head d (w_stream w) n"
  shows "writing d d'"
proof -
  have "foldM (write_wanted d) d ws = Inr d'"
    using assms(2) by (auto simp: V05_APPLY_MEMBERS_BATCH_def bind_res_Inr_iff split: if_splits)
  then show ?thesis
    by (rule foldM_invariant) (use assms(1,3) writing_refl writing_wanted in blast)+
qed

text \<open>Every reserved cursor the general path holds is at or below its Stream's head.\<close>

definition reserved :: "db \<Rightarrow> (jsstr, int) jsmap \<times> db \<Rightarrow> bool" where
  "reserved d st = (wf_streams (snd st) \<and> same_rest d (snd st)
     \<and> (\<forall>s n. map_of (fst st) s = Some n \<longrightarrow> below_head (snd st) s n))"

lemma reserved_step:
  assumes "reserved d st" and "reserveStream scope st s = Inr st'"
  shows "reserved d st'"
proof -
  obtain c d1 where r: "V05_RESERVE_CURSOR (snd st) s scope = (Some c, d1)" "st' = (mput s c (fst st), d1)"
    using assms(2) by (auto simp: reserveStream_def positiveCounter_def bind_res_Inr_iff
        split: prod.splits option.splits if_splits)
  have wf: "wf_streams (snd st)" using assms(1) by (simp add: reserved_def)
  show ?thesis
    using wf_reserve [OF wf r(1)] reserve_below [OF wf r(1)] below_head_mono [OF wf r(1)] reserve_frame [OF r(1)]
      assms(1) by (auto simp: reserved_def r(2) map_simps intro: same_rest_trans)
qed

lemma writing_trans: "writing d d' \<Longrightarrow> writing d' d'' \<Longrightarrow> writing d d''"
  by (auto simp: writing_def intro: same_rest_trans)

lemma writing_group:
  assumes "writing d (snd st)" and "applyGroup cursors st grp = Inr st'"
    and "\<And>s n. map_of cursors s = Some n \<Longrightarrow> below_head d s n"
  shows "writing d (snd st')"
proof -
  obtain ws rows d' where ws: "traverse (wantedOf cursors) grp = Inr ws"
    and b: "V05_APPLY_MEMBERS_BATCH (snd st) ws = Inr (rows, d')" and d': "snd st' = d'"
    using assms(2) by (auto simp: applyGroup_def bind_res_Inr_iff split: if_splits)
  have "w_cursor w = map_of cursors (w_stream w)" if "w \<in> set ws" for w
    using traverse_origin [OF ws that] by (auto simp: wantedOf_def bind_res_Inr_iff)
  then have "writing (snd st) d'"
    using assms(1,3) by (intro writing_apply_batch [OF _ b]) (auto simp: writing_def below_head_stream [of "snd st" d])
  with assms(1) d' show ?thesis using writing_trans by blast
qed

lemma wf_applyGeneral:
  assumes "wf_db d" and "applyGeneral streams scope ds d = Inr (ps, d')"
  shows "wf_db d'"
proof -
  obtain cursors d1 where r: "foldM (reserveStream scope) ([], d) streams = Inr (cursors, d1)"
    and g: "foldM (applyGroup cursors) ([], d1) (batches ds) = Inr (ps, d')"
    using assms(2) by (auto simp: applyGeneral_def bind_res_Inr_iff)
  have res: "reserved d (cursors, d1)"
    by (rule foldM_invariant [OF r, of "reserved d"], simp add: reserved_def wf_db_def assms(1) [unfolded wf_db_def])
       (rule reserved_step)
  then have w: "writing d1 (snd ([] :: position list, d1))" and c: "\<And>s n. map_of cursors s = Some n \<Longrightarrow> below_head d1 s n"
    by (auto simp: reserved_def intro: writing_refl)
  have "writing d1 (snd (ps, d'))"
    by (rule foldM_invariant [OF g, of "\<lambda>st. writing d1 (snd st)", OF w]) (erule (1) writing_group, rule c)
  with res assms(1) show ?thesis
    by (auto simp: writing_def reserved_def intro: wf_db_same_rest same_rest_trans)
qed

lemma wf_applyFast:
  assumes "wf_db d" and "applyFast s scope ds d = Inr (ps, d')"
  shows "wf_db d'"
proof -
  let ?ids = "List.map_filter (record_id d) (map d_key ds)"
  have wf: "wf_streams d" using assms(1) by (simp add: wf_db_def)
  obtain rows where ap: "V05_RESERVE_APPLY_MEMBERS d s scope (map d_key ds) = Inr (rows, d')"
    using assms(2) by (auto simp: applyFast_def bind_res_Inr_iff split: if_splits)
  obtain c d1 where r: "V05_RESERVE_CURSOR d s scope = (c, d1)" by fastforce
  have d1: "wf_streams d1" "same_rest d d1" using wf_reserve [OF wf r] reserve_frame [OF r] by auto
  have "writing d1 d'"
  proof (cases c)
    case None
    with ap r d1(1) show ?thesis by (auto simp: V05_RESERVE_APPLY_MEMBERS_def intro: writing_refl)
  next
    case (Some n)
    have f: "foldM (\<lambda>acc i. put_member s i (Some n) acc) d1 ?ids = Inr d'"
      using ap r Some by (auto simp: V05_RESERVE_APPLY_MEMBERS_def Let_def bind_res_Inr_iff split: if_splits)
    have below: "below_head d1 s n" using reserve_below [OF wf] r Some by simp
    show ?thesis
    proof (rule foldM_invariant [OF f, of "writing d1"])
      show "writing d1 d1" by (rule writing_refl [OF d1(1)])
      fix acc i t
      assume i: "i \<in> set ?ids" and w: "writing d1 acc" and p: "put_member s i (Some n) acc = Inr t"
      obtain k where "record_id d k = Some i" using i by (auto simp only: set_map_filter_iff)
      then have "record_id d1 k = Some i" using d1(2) by (simp add: record_id_def same_rest_def)
      then show "writing d1 t" by (rule writing_put_member [OF w _ p]) (use below in auto)
    qed
  qed
  with d1(2) assms(1) show ?thesis
    by (auto simp: writing_def intro: wf_db_same_rest same_rest_trans)
qed

section \<open>Every answered request keeps the invariant\<close>

lemma wf_stores_only:
  assumes "wf_db d" and "wf_stores d'" and "axton_record d' = axton_record d" and "next_id d' = next_id d"
    and "axton_stream d' = axton_stream d" and "axton_stream_record d' = axton_stream_record d"
    and "publication_cursor d' = publication_cursor d"
  shows "wf_db d'"
  using assms wf_streams_frame [of d' d] by (simp add: wf_db_def wf_catalog_def)

text \<open>A change of the Store tables alone.\<close>

definition stores_only :: "db \<Rightarrow> db \<Rightarrow> bool" where
  "stores_only d d' = (d' = d\<lparr>axton_store := axton_store d', axton_mutation_result := axton_mutation_result d'\<rparr>)"

lemma stores_only_fields:
  "stores_only d d' \<Longrightarrow> axton_record d' = axton_record d \<and> next_id d' = next_id d \<and> axton_stream d' = axton_stream d
   \<and> axton_stream_record d' = axton_stream_record d \<and> publication_cursor d' = publication_cursor d"
  unfolding stores_only_def by (metis db.select_convs db.surjective db.update_convs)

lemma wf_db_stores_only: "wf_db d \<Longrightarrow> stores_only d d' \<Longrightarrow> wf_stores d' \<Longrightarrow> wf_db d'"
  using wf_stores_only [of d d'] stores_only_fields [of d d'] by simp

lemma stores_only_trans: "stores_only d d' \<Longrightarrow> stores_only d' d'' \<Longrightarrow> stores_only d d''"
  unfolding stores_only_def by (metis (no_types, lifting) db.surjective db.update_convs(3,4))

lemma stores_only_intros [simp]:
  "stores_only d d"
  "stores_only d (d\<lparr>axton_store := m\<rparr>)"
  "stores_only d (d\<lparr>axton_mutation_result := q\<rparr>)"
  "stores_only d (d\<lparr>axton_store := m, axton_mutation_result := q\<rparr>)"
  by (simp_all add: stores_only_def)

lemma stores_only_insert: "foldM (insert_result i batch) d xs = Inr d' \<Longrightarrow> stores_only d d'"
  using foldM_insert_result [of i batch d xs d'] stores_only_intros(3) by metis

lemma stores_only_beginBatch: "beginBatch i batch digest count d = Inr d' \<Longrightarrow> stores_only d d'"
  by (auto simp: beginBatch_def V05_BATCH_BEGIN_def bind_res_Inr_iff put_store_def split: option.splits if_splits)

lemma stores_only_saveResult: "saveResult i batch ordinal count v d = Inr d' \<Longrightarrow> stores_only d d'"
  using insert_result_Inr by (fastforce simp: saveResult_iff Let_def)

lemma stores_only_saveResults: "saveResults i batch ordinal count digest vs d = Inr d' \<Longrightarrow> stores_only d d'"
proof (cases "d' = d")
  case False
  assume "saveResults i batch ordinal count digest vs d = Inr d'"
  with False obtain r d1 xs where "put_store i r d = Inr d1" "foldM (insert_result i batch) d1 xs = Inr d'"
    by (auto simp: saveResults_def V05_RESULTS_SAVE_def bind_res_Inr_iff split: if_splits option.splits)
  then have "stores_only d d1" "stores_only d1 d'" by (auto simp: res_simps stores_only_insert)
  then show ?thesis by (rule stores_only_trans)
qed simp

lemma wf_claimStore: "wf_stores d \<Longrightarrow> claimStore i p s d = Inr (a, d') \<Longrightarrow> wf_stores d' \<and> stores_only d d'"
  by (auto simp: claimStore_def Let_def bind_res_Inr_iff V05_STORE_INSERT_def split: option.splits
      intro: wf_V05_STORE_INSERT [of d i p s, unfolded V05_STORE_INSERT_def])

lemma wf_finishBootstrap:
  assumes "wf_stores d" and "finishBootstrap i d = Inr d'"
  shows "wf_stores d' \<and> stores_only d d'"
proof (cases "map_of (axton_store d) i")
  case None
  with assms show ?thesis by (simp add: finishBootstrap_def)
next
  case (Some r)
  then obtain c where ck: "store_check (r\<lparr>bootstrap_prepared := True, start_cursor := Some c\<rparr>)"
    and d': "d' = d\<lparr>axton_store := mput i (r\<lparr>bootstrap_prepared := True, start_cursor := Some c\<rparr>) (axton_store d)\<rparr>"
    using assms(2) by (auto simp: finishBootstrap_def res_simps)
  have "wf_stores d'"
    by (rule wf_stores_update [OF assms(1) ck, of d' i])
       (use wf_stores_get [OF assms(1) Some] wf_results_owner [OF assms(1)] in
         \<open>auto simp: d' expected_keys_def intro: mhas_mput_owner cong: option.case_cong\<close>)
  then show ?thesis by (simp add: d')
qed

lemma saveResult_wf: "wf_stores d \<Longrightarrow> saveResult i batch ordinal count v d = Inr d' \<Longrightarrow> wf_stores d'"
  by (auto simp: saveResult_def bind_res_Inr_iff split: if_splits intro: wf_V05_RESULT_SAVE)

lemma wf_applyStreamMembers:
  assumes "wf_db d" and "applyStreamMembers rs scope d = Inr (ps, d')"
  shows "wf_db d'"
  using assms(2)
  by (auto simp: applyStreamMembers_def Let_def bind_res_Inr_iff split: if_splits
      intro: wf_applyFast [OF assms(1)] wf_applyGeneral [OF assms(1)])

lemma wf_guardRecords: "wf_db d \<Longrightarrow> guardRecords key_ok rs d = Inr (bs, d') \<Longrightarrow> wf_db d'"
  by (auto simp: guardRecords_def bind_res_Inr_iff intro: wf_guardLoop)

lemma wf_answer05:
  assumes "wf_db d" and "answer05 key_ok now op d = Inr (a, d')"
  shows "wf_db d'"
proof -
  have wf: "wf_stores d" using assms(1) by (simp add: wf_db_def)
  note keep = wf_db_stores_only [OF assms(1)]
  show ?thesis
    using assms
    by (cases op)
       (auto simp: reading_def done_with_def bind_res_Inr_iff
         dest!: wf_finishBootstrap [OF wf] wf_claimStore [OF wf]
         intro: keep stores_only_beginBatch beginBatch_wf [OF wf] stores_only_saveResult saveResult_wf [OF wf]
           stores_only_saveResults saveResults_wf [OF wf] wf_guardRecords wf_applyStreamMembers)
qed

end
