(* ===== verification/Publish.thy ===== *)
theory Publish
  imports StreamWf
begin

text \<open>
  What the publication and delivery operations promise: the single-Stream
  statement is the general path, a cursor is reserved once per scope, a delivery
  page is complete up to its last cursor, and the bounded batches of a request
  cover it exactly.
\<close>

section \<open>Batches\<close>

lemma STREAM_BATCH_pos [simp]: "0 < STREAM_BATCH"
  by (simp add: STREAM_BATCH_def)

lemma batches_Nil [simp]: "batches [] = []"
  by (simp add: batches.simps)

lemma concat_batches [simp]: "concat (batches xs) = xs"
  by (induction xs rule: batches.induct) (subst batches.simps, simp)

lemma batches_single: "xs \<noteq> [] \<Longrightarrow> length xs \<le> STREAM_BATCH \<Longrightarrow> batches xs = [xs]"
  by (simp add: batches.simps)

text \<open>
  The contract of a bounded statement that answers each element of its batch on its
  own: then the loop over the batches answers the whole request as one
  unbounded statement would, errors included.
\<close>

locale bounded_statement =
  fixes grp :: "'a list \<Rightarrow> ('e, 'b list) res"
    and one :: "'a \<Rightarrow> ('e, 'b) res"
  assumes grp_one: "grp xs = traverse one xs"
begin

lemma batched: "bind_res (traverse grp (batches xs)) (\<lambda>yss. Inr (concat yss)) = traverse one xs"
proof -
  have "grp = traverse one" by (simp add: fun_eq_iff grp_one)
  then show ?thesis using traverse_concat [of one "batches xs"] by simp
qed

end

lemma positionRows_pointwise: "positionRows d s ks = map (V05_POSITION_READ d s) ks"
  by (cases ks) (auto simp: positionRows_def V05_POSITIONS_READ_BATCH_def)

lemma traverse_zip_map: "traverse f (zip xs (map g xs)) = traverse (\<lambda>x. f (x, g x)) xs"
  by (induction xs) simp_all

lemma positionGroup_eq:
  "positionGroup required s d ks = traverse (\<lambda>k. positionOf required s (k, V05_POSITION_READ d s k)) ks"
  by (simp add: positionGroup_def Let_def positionRows_pointwise traverse_zip_map)

interpretation positions: bounded_statement
  "positionGroup required s d" "\<lambda>k. positionOf required s (k, V05_POSITION_READ d s k)" for required s d
  by unfold_locales (rule positionGroup_eq)

section \<open>Canonical order\<close>

lemma set_insertStream [simp]: "set (insertStream x ys) = insert x (set ys)"
  by (induction ys) auto

lemma set_sortStreams [simp]: "set (sortStreams xs) = set xs"
  by (induction xs) (simp_all add: sortStreams_def)

lemma length_insertStream [simp]: "length (insertStream x ys) = Suc (length ys)"
  by (induction ys) auto

lemma length_sortStreams [simp]: "length (sortStreams xs) = length xs"
  by (induction xs) (simp_all add: sortStreams_def)

lemma canonicalStreams_iff: "canonicalStreams ss \<longleftrightarrow> sorted_wrt (\<lambda>a b. utf8_bytes a < utf8_bytes b) ss"
proof (induction ss rule: canonicalStreams.induct)
  case (1 a b ss)
  then show ?case by (auto simp: byteOrder_neg_iff intro: less_trans)
qed simp_all

lemma sorted_insertStream: "sorted (map utf8_bytes ys) \<Longrightarrow> sorted (map utf8_bytes (insertStream x ys))"
  by (induction ys) (auto simp: byteOrder_le_iff not_le intro: order_trans)

lemma sorted_sortStreams: "sorted (map utf8_bytes (sortStreams xs))"
  by (induction xs) (simp_all add: sortStreams_def sorted_insertStream)

lemma distinct_sortStreams: "distinct xs \<Longrightarrow> distinct (sortStreams xs)"
  by (metis card_distinct distinct_card length_sortStreams set_sortStreams)

lemma utf8_bytes_inj: "valid16 a \<Longrightarrow> valid16 b \<Longrightarrow> utf8_bytes a = utf8_bytes b \<longleftrightarrow> a = b"
  by (metis byteOrder_0_bytes byteOrder_eq_0_iff)

lemma canonical_sortStreams:
  assumes "distinct xs" and "list_all valid16 xs"
  shows "canonicalStreams (sortStreams xs)"
proof -
  have "inj_on utf8_bytes (set (sortStreams xs))"
    using assms(2) by (auto simp: inj_on_def list_all_iff utf8_bytes_inj)
  then have "distinct (map utf8_bytes (sortStreams xs))"
    using distinct_sortStreams [OF assms(1)] by (simp add: distinct_map)
  then have "sorted_wrt (<) (map utf8_bytes (sortStreams xs))"
    using sorted_sortStreams [of xs] by (simp add: strict_sorted_iff)
  then show ?thesis by (simp add: canonicalStreams_iff sorted_wrt_map)
qed

section \<open>The single-Stream statement is the general path\<close>

text \<open>\<open>applyStreamMembers\<close> without its fast path: every request takes the general one.\<close>

definition applyStreamMembersGeneral ::
  "jsv \<Rightarrow> jsstr option \<Rightarrow> db \<Rightarrow> (perr, position list \<times> db) res" where
  "applyStreamMembersGeneral rs publicationScope d =
     bind_res (arrayOf rs ''deltas'') (\<lambda>values.
     bind_res (traverse (keyOf [''identity'', ''stream'', ''publish'']) values) (\<lambda>records.
     bind_res (unique records ''deltas'') (\<lambda>_.
     let ds = map deltaOf records; scope = (case publicationScope of None \<Rightarrow> [] | Some p \<Rightarrow> p) in
     bind_res (publishStreams ds) (\<lambda>streams. applyGeneral streams scope ds d))))"

lemma streamName_Inr_iff: "streamName v = Inr s \<longleftrightarrow> v = Str s \<and> trim s \<noteq> []"
  by (cases v) (auto simp: streamName_def)

lemma record_id_inj:
  "wf_catalog d \<Longrightarrow> record_id d k = Some i \<Longrightarrow> record_id d k' = Some i \<Longrightarrow> k = k'"
  by (fastforce simp: wf_catalog_def record_id_def distinct_map inj_on_def dest!: map_of_SomeD)

lemma distinct_map_filter_record:
  "wf_catalog d \<Longrightarrow> distinct ks \<Longrightarrow> distinct (List.map_filter (record_id d) ks)"
proof (induction ks)
  case Nil
  then show ?case by (simp add: map_filter_simps)
next
  case (Cons k ks)
  then show ?case
    by (auto simp: map_filter_simps set_map_filter_iff split: option.splits dest: record_id_inj)
qed

text \<open>The deltas of the fast path, as the rows they ask for.\<close>

definition sameStream :: "jsstr \<Rightarrow> delta list \<Rightarrow> bool" where
  "sameStream s ds = list_all (\<lambda>x. d_stream x = Str s \<and> d_publish x = Bool True) ds"

lemma sameStream_Cons [simp]:
  "sameStream s (x # ds) \<longleftrightarrow> d_stream x = Str s \<and> d_publish x = Bool True \<and> sameStream s ds"
  "sameStream s []"
  by (simp_all add: sameStream_def)

abbreviation asked :: "jsstr \<Rightarrow> int \<Rightarrow> delta \<Rightarrow> wanted" where
  "asked s c x \<equiv> \<lparr>w_stream = s, w_key = d_key x, w_publish = True, w_cursor = Some c\<rparr>"

lemma wantedOf_same:
  "sameStream s ds \<Longrightarrow> trim s \<noteq> [] \<Longrightarrow> map_of cursors s = Some c \<Longrightarrow>
   traverse (wantedOf cursors) ds = Inr (map (asked s c) ds)"
  by (rule traverse_all_Inr)
     (auto simp: sameStream_def list_all_iff wantedOf_def streamName_def)

lemma written_keys_same:
  "written_keys d (map (asked s c) ds) = map (Pair s) (List.map_filter (record_id d) (map d_key ds))"
  by (induction ds) (auto simp: written_keys_def map_filter_simps split: option.splits)

lemma write_same:
  "foldM (write_wanted d) acc (map (asked s c) ds) =
   foldM (\<lambda>acc i. put_member s i (Some c) acc) acc (List.map_filter (record_id d) (map d_key ds))"
  by (induction ds arbitrary: acc) (auto simp: map_filter_simps write_wanted_def split: option.splits)

lemma answer_same:
  "answer_wanted d (asked s c x) = (if record_id d (d_key x) = None then (False, None, None) else (True, Some c, Some Upsert))"
  by (simp add: answer_wanted_def split: option.splits)

lemma applyFast_eq_general:
  assumes "wf_db d" and "sameStream s ds" and "trim s \<noteq> []" and "ds \<noteq> []" and "length ds \<le> STREAM_BATCH"
    and "distinct (map d_key ds)"
  shows "applyFast s scope ds d = applyGeneral [s] scope ds d"
proof -
  have wf: "wf_streams d" "wf_catalog d" using assms(1) by (simp_all add: wf_db_def)
  obtain c d1 where r: "V05_RESERVE_CURSOR d s scope = (c, d1)" by fastforce
  have same: "record_id d1 = record_id d"
    using reserve_frame [OF r] by (simp add: same_rest_def record_id_def fun_eq_iff)
  show ?thesis
  proof (cases c)
    case None
    obtain x xs where "ds = x # xs" using assms(4) by (cases ds) auto
    then show ?thesis using r None
      by (simp add: applyFast_def applyGeneral_def V05_RESERVE_APPLY_MEMBERS_def reserveStream_def)
  next
    case (Some n)
    have "below_head d1 s n" "wf_streams d1" using reserve_below [OF wf(1)] wf_reserve [OF wf(1)] r Some by auto
    then have "positiveCounter n = Inr n"
      by (fastforce simp: below_head_def wf_streams_def in_range_def positiveCounter_def safe_int_def
          dest: mall_get split: option.splits)
    then have res: "reserveStream scope ([], d) s = Inr ([(s, n)], d1)"
      using r Some by (simp add: reserveStream_def)
    have ids: "distinct (List.map_filter (record_id d) (map d_key ds))"
      using distinct_map_filter_record [OF wf(2) assms(6)] .
    have "applyGroup [(s, n)] ([], d1) ds = applyFast s scope ds d"
      using r Some ids
      by (auto simp: applyGroup_def wantedOf_same [OF assms(2,3)] V05_APPLY_MEMBERS_BATCH_def written_keys_same
          same write_same answer_same distinct_map inj_on_def applyFast_def V05_RESERVE_APPLY_MEMBERS_def Let_def
          o_def bind_res_assoc traverse_zip_map [where g = "\<lambda>x. f (d_key x)" for f] traverse_zip_map
          intro!: bind_res_cong)
    then show ?thesis
      by (cases "applyFast s scope ds d") (simp_all add: applyGeneral_def res batches_single [OF assms(4,5)])
  qed
qed

lemma publishStreams_single:
  assumes "publishStreams ds = Inr [s]" and "list_all (\<lambda>x. d_publish x = Bool True) ds"
  shows "sameStream s ds \<and> trim s \<noteq> [] \<and> ds \<noteq> []"
proof -
  have f: "filter (\<lambda>x. truthy (d_publish x)) ds = ds"
    using assms(2) by (auto simp: filter_id_conv list_all_iff)
  obtain ss where t: "traverse (\<lambda>x. streamName (d_stream x)) ds = Inr ss" and ss: "sortStreams (js_set ss) = [s]"
    using assms(1) by (auto simp: publishStreams_def f bind_res_Inr_iff)
  have one: "set ss = {s}" using arg_cong [OF ss, of set] by simp
  have l: "length ss = length ds" using traverse_length [OF t] .
  have str: "d_stream x = Str s \<and> trim s \<noteq> []" if "x \<in> set ds" for x
    using traverse_image [OF t that] streamName_Inr_iff [of "d_stream x" s] unfolding one by simp
  have "ss \<noteq> []" using one by force
  then have ne: "ds \<noteq> []" using l by (metis length_0_conv)
  have "trim s \<noteq> []" using str [OF hd_in_set [OF ne]] by simp
  with ne str show ?thesis
    using assms(2) unfolding sameStream_def list_all_iff by blast
qed

lemma unique_keys:
  assumes "unique records what = Inr ()" and "sameStream s (map deltaOf records)"
  shows "distinct (map d_key (map deltaOf records))"
proof -
  have d: "distinct (map pairId records)"
    using assms(1) js_set_size_iff [of "map pairId records"] by (auto simp: unique_def split: if_splits)
  have "pairId p = (Str s, fst p)" if "p \<in> set records" for p
    using assms(2) that by (auto simp: sameStream_def list_all_iff deltaOf_def pairId_def)
  then have "map pairId records = map (Pair (Str s)) (map fst records)" by simp
  with d have "distinct (map (Pair (Str s)) (map fst records))" by simp
  then have "distinct (map fst records)" unfolding distinct_map [of "Pair (Str s)"] by blast
  then show ?thesis by (simp add: o_def deltaOf_def)
qed

lemma fastPath_correct:
  assumes "wf_db d" and "unique records what = Inr ()" and "publishStreams (map deltaOf records) = Inr streams"
    and "fastPath streams (map deltaOf records)"
  shows "applyFast (hd streams) scope (map deltaOf records) d = applyGeneral streams scope (map deltaOf records) d"
proof -
  obtain s where s: "streams = [s]" using assms(4) by (auto simp: fastPath_def length_Suc_conv)
  have ds: "sameStream s (map deltaOf records)" "trim s \<noteq> []" "map deltaOf records \<noteq> []"
    using publishStreams_single [of "map deltaOf records" s] assms(3,4) by (auto simp: s fastPath_def)
  show ?thesis
    using applyFast_eq_general [OF assms(1) ds _ unique_keys [OF assms(2) ds(1)]] assms(4)
    by (simp add: s fastPath_def)
qed

lemma applyStreamMembers_general:
  assumes "wf_db d"
  shows "applyStreamMembers rs scope d = applyStreamMembersGeneral rs scope d"
  unfolding applyStreamMembers_def applyStreamMembersGeneral_def Let_def
  by (intro bind_res_cong refl) (simp add: fastPath_correct [OF assms])

section \<open>Cursors\<close>

definition head_of :: "db \<Rightarrow> jsstr \<Rightarrow> int" where
  "head_of d s = (case map_of (axton_stream d) s of None \<Rightarrow> 0 | Some h \<Rightarrow> h)"

lemma reserve_reuse:
  "V05_RESERVE_CURSOR d s scope = (Some c, d') \<Longrightarrow> V05_RESERVE_CURSOR d' s scope = (Some c, d')"
  by (auto simp: V05_RESERVE_CURSOR_def map_simps split: option.splits if_splits)

lemma reserve_fresh:
  assumes "map_of (publication_cursor d) (s, scope) = None" and "V05_RESERVE_CURSOR d s scope = (Some c, d')"
  shows "c = head_of d s + 1 \<and> head_of d' s = c"
  using assms by (auto simp: V05_RESERVE_CURSOR_def head_of_def map_simps split: option.splits if_splits)

section \<open>Delivery pages\<close>

text \<open>A page \<open>out\<close> of \<open>cs\<close> leaves nothing behind at or below the last cursor it reaches.\<close>

definition complete_page :: "candidate list \<Rightarrow> candidate list \<Rightarrow> bool" where
  "complete_page cs out = (set out \<subseteq> set cs \<and> sorted (map c_cursor out)
     \<and> (\<forall>c \<in> set cs. (\<exists>p \<in> set out. c_cursor c \<le> c_cursor p) \<longrightarrow> c \<in> set out))"

lemma complete_page_all: "set out = set cs \<Longrightarrow> sorted (map c_cursor out) \<Longrightarrow> complete_page cs out"
  by (simp add: complete_page_def)

lemma takeWhile_ties:
  assumes "sorted (map f ys)" and "\<forall>y \<in> set ys. a \<le> f y" and "y \<in> set ys" and "f y \<le> (a :: int)"
  shows "y \<in> set (takeWhile (\<lambda>y. f y = a) ys)"
  using assms
proof (induction ys)
  case Nil
  then show ?case by simp
next
  case (Cons z ys)
  then have z: "f z \<le> f y" "a \<le> f z" by auto
  then have "f z = a" using Cons.prems(4) by linarith
  then show ?case using Cons by auto
qed

lemma fetch_with_ties_complete:
  assumes "0 < n"
  shows "complete_page cs (fetch_with_ties n cs) \<and> (set (fetch_with_ties n cs) = set cs \<or> n \<le> length (fetch_with_ties n cs))"
proof -
  define rows where "rows = sort_key c_cursor cs"
  define last where "last = c_cursor (rows ! (n - 1))"
  have srt: "sorted (map c_cursor rows)" and st: "set rows = set cs" by (simp_all add: rows_def)
  have f: "fetch_with_ties n cs = take n rows @ takeWhile (\<lambda>c. c_cursor c = last) (drop n rows)"
    by (simp add: fetch_with_ties_def rows_def last_def Let_def)
  show ?thesis
  proof (cases "length rows < n")
    case True
    then have "fetch_with_ties n cs = rows" by (simp add: f)
    then show ?thesis using srt st complete_page_all by simp
  next
    case False
    let ?out = "take n rows @ takeWhile (\<lambda>c. c_cursor c = last) (drop n rows)"
    have split: "sorted (map c_cursor (take n rows @ drop n rows))" using srt by simp
    have in_take: "rows ! (n - 1) \<in> set (take n rows)"
      using False assms by (auto simp: in_set_conv_nth intro!: exI [of _ "n - 1"])
    then have ge: "\<forall>c \<in> set (drop n rows). last \<le> c_cursor c"
      using split by (auto simp only: map_append sorted_append last_def set_map)
    have le: "\<forall>c \<in> set (take n rows). c_cursor c \<le> last"
      using srt False assms
      by (auto simp: in_set_conv_nth last_def sorted_iff_nth_mono)
    have sub: "set ?out \<subseteq> set rows" by (auto dest: in_set_takeD set_takeWhileD in_set_dropD)
    have whole: "rows = ?out @ dropWhile (\<lambda>c. c_cursor c = last) (drop n rows)" by simp
    have "sorted (map c_cursor ?out @ map c_cursor (dropWhile (\<lambda>c. c_cursor c = last) (drop n rows)))"
      using srt by (subst (asm) whole) (simp only: map_append)
    then have "sorted (map c_cursor ?out)" by (simp only: sorted_append)
    moreover have "c \<in> set ?out" if "c \<in> set cs" and p: "p \<in> set ?out" "c_cursor c \<le> c_cursor p" for c p
    proof -
      have "c_cursor p \<le> last" using p(1) le by (auto dest: set_takeWhileD)
      then have c: "c_cursor c \<le> last" using p(2) by simp
      have "c \<in> set (take n rows @ drop n rows)" using that(1) st by simp
      then consider "c \<in> set (take n rows)" | "c \<in> set (drop n rows)" by (auto simp only: set_append)
      then show ?thesis
      proof cases
        case 2
        have "sorted (map c_cursor (drop n rows))" using split by (simp only: map_append sorted_append)
        from takeWhile_ties [OF this ge 2 c] show ?thesis by simp
      qed simp
    qed
    ultimately show ?thesis using sub st False by (auto simp: complete_page_def f)
  qed
qed

lemma order_limit_all: "length cs \<le> n \<Longrightarrow> set (order_limit n cs) = set cs"
  by (simp add: order_limit_def)

lemma sorted_order_limit: "sorted (map c_cursor (order_limit n cs))"
proof -
  let ?k = "\<lambda>c. (c_cursor c, utf8_bytes (fst (c_key c)), utf8_bytes (snd (c_key c)))"
  have "sorted (map ?k (sort_key ?k cs))" by (rule sorted_sort_key)
  then have "sorted (map c_cursor (sort_key ?k cs))"
    unfolding sorted_map by (rule sorted_wrt_mono_rel [rotated]) (auto simp: less_eq_prod_def)
  then show ?thesis unfolding order_limit_def take_map [symmetric] by (rule sorted_wrt_take)
qed

lemma length_order_limit: "length (order_limit n cs) = min n (length cs)"
  by (simp add: order_limit_def)

lemma traverse_check_id:
  "traverse (\<lambda>c. bind_res (f c) (\<lambda>_. Inr c)) xs = Inr ys \<Longrightarrow> ys = xs"
  by (induction xs arbitrary: ys) (auto simp: bind_res_Inr_iff)

lemma deliveryCandidates_rows:
  assumes "deliveryCandidates s after models ks capacity pageSize d = Inr (Some out)"
  defines "cs \<equiv> select_candidates d s after models (case ks of None \<Rightarrow> [] | Some k \<Rightarrow> k)"
  shows "int (length out) \<le> min capacity 100000 \<and>
    (case pageSize of
       None \<Rightarrow> out = order_limit (nat (min capacity 100000 + 1)) cs
     | Some n \<Rightarrow> 1 \<le> n \<and> out = take (nat (min capacity 100000 + 1)) (fetch_with_ties (nat (min n (min capacity 100000) + 1)) cs))"
proof -
  define page where "page = (case pageSize of None \<Rightarrow> Inr None
      | Some n \<Rightarrow> bind_res (positiveCounter n) (\<lambda>p. Inr (Some (min p (min capacity 100000)))))"
  define rows where "rows p = (case p of None \<Rightarrow> order_limit (nat (min capacity 100000 + 1)) cs
      | Some p \<Rightarrow> take (nat (min capacity 100000 + 1)) (fetch_with_ties (nat (p + 1)) cs))" for p
  have safe': "safe n = Inr m \<Longrightarrow> m = n" for n m by (auto simp: safe_def split: if_splits)
  obtain p where p: "page = Inr p" and le: "\<not> min capacity 100000 < int (length (rows p))"
    and t: "traverse (\<lambda>c. bind_res (positiveCounter (c_cursor c)) (\<lambda>_. Inr c)) (rows p) = Inr out"
    using assms(1) unfolding deliveryCandidates_def Let_def bind_res_Inr_iff page_def rows_def cs_def
    by (elim exE conjE) (auto dest!: safe' simp: bind_res_Inr_iff split: if_split_asm)
  have out: "out = rows p" using traverse_check_id [OF t] .
  have "int (length out) \<le> min capacity 100000" using le unfolding out by (simp only: not_less)
  moreover have "case pageSize of None \<Rightarrow> p = None | Some n \<Rightarrow> 1 \<le> n \<and> p = Some (min n (min capacity 100000))"
    using p by (cases pageSize) (auto simp: page_def bind_res_Inr_iff positiveCounter_def split: if_split_asm)
  ultimately show ?thesis
    by (cases pageSize) (simp_all add: out rows_def)
qed

lemma deliveryCandidates_complete:
  assumes "deliveryCandidates s after models ks capacity pageSize d = Inr (Some out)"
  defines "cs \<equiv> select_candidates d s after models (case ks of None \<Rightarrow> [] | Some k \<Rightarrow> k)"
  shows "int (length out) \<le> min capacity 100000 \<and> complete_page cs out \<and>
    (set out = set cs \<or> (\<exists>n. pageSize = Some n \<and> n < int (length out)))"
proof -
  let ?cap = "min capacity 100000"
  note rows = deliveryCandidates_rows [OF assms(1), folded cs_def]
  have len: "int (length out) \<le> ?cap" using rows by simp
  show ?thesis
  proof (cases pageSize)
    case None
    then have o: "out = order_limit (nat (?cap + 1)) cs" using rows by simp
    have "length cs \<le> nat (?cap + 1)" using len by (simp add: o length_order_limit) linarith
    then show ?thesis using len order_limit_all sorted_order_limit complete_page_all by (auto simp: o)
  next
    case (Some n)
    let ?n = "nat (min n ?cap + 1)"
    have n: "1 \<le> n" and o: "out = take (nat (?cap + 1)) (fetch_with_ties ?n cs)" using rows Some by auto
    have "length (fetch_with_ties ?n cs) \<le> nat (?cap + 1)" using len by (simp add: o) linarith
    then have o': "out = fetch_with_ties ?n cs" by (simp add: o)
    have "0 < ?n" using n len by linarith
    then have c: "complete_page cs out" "set out = set cs \<or> ?n \<le> length out"
      using fetch_with_ties_complete o' by auto
    then show ?thesis using len Some by (auto split: if_splits simp: min_def)
  qed
qed

section \<open>Guards\<close>

abbreviation present :: "db \<Rightarrow> jsstr \<times> jsstr \<Rightarrow> bool" where
  "present d k \<equiv> record_id d k \<noteq> None"

lemma ensure_identity_present:
  "ensure_identity key_ok d k = Inr d' \<Longrightarrow> present d' j \<longleftrightarrow> present d j \<or> j = k"
  by (auto simp: ensure_identity_def record_id_def map_add_def split: if_splits option.splits)

lemma ensure_all_present:
  assumes "foldM (ensure_identity key_ok) d ks = Inr d'"
  shows "present d' j \<longleftrightarrow> present d j \<or> j \<in> set ks"
  using assms
proof (induction ks arbitrary: d)
  case Nil
  then show ?case by simp
next
  case (Cons k ks)
  from Cons.prems obtain d1 where d1: "ensure_identity key_ok d k = Inr d1" "foldM (ensure_identity key_ok) d1 ks = Inr d'"
    by (auto simp: bind_res_Inr_iff)
  show ?case using ensure_identity_present [OF d1(1), of j] Cons.IH [OF d1(2)] by auto
qed

lemma guardStatement_present:
  assumes "guardStatement key_ok m d ks = Inr (rows, d')"
  shows "set rows = {k \<in> set ks. m \<noteq> js ''lock'' \<or> present d k} \<and>
    (\<forall>j. present d' j \<longleftrightarrow> present d j \<or> m \<noteq> js ''lock'' \<and> j \<in> set ks)"
proof (cases "m = js ''lock''")
  case True
  with assms show ?thesis by (auto simp: guardStatement_def LOCK_IDENTITIES_def)
next
  case False
  then have "rows = ks" "foldM (ensure_identity key_ok) d ks = Inr d'"
    using assms by (auto simp: guardStatement_def ENSURE_IDENTITIES_def bind_res_Inr_iff)
  with False show ?thesis using ensure_all_present by blast
qed

lemma guardRun_split: "r # rs = guardRun r rs @ drop (length (guardRun r rs)) (r # rs)"
proof -
  let ?t = "takeWhile (\<lambda>x. snd x = snd r) rs"
  have "guardRun r rs @ (drop (STREAM_BATCH - 1) ?t @ dropWhile (\<lambda>x. snd x = snd r) rs) = r # rs"
    by (simp only: guardRun_def append_Cons append_assoc [symmetric] append_take_drop_id takeWhile_dropWhile_id)
  then show ?thesis by (metis append_eq_conv_conj)
qed

lemma guardRun_mode: "x \<in> set (guardRun r rs) \<Longrightarrow> snd x = snd r"
  by (auto simp: guardRun_def dest!: in_set_takeD set_takeWhileD)

definition ensured :: "guard_item list \<Rightarrow> (jsstr \<times> jsstr) set" where
  "ensured rs = fst ` {r \<in> set rs. snd r \<noteq> js ''lock''}"

lemma guardLoop_answers:
  assumes "guardLoop key_ok d rs = Inr (bs, d')" and "distinct (map fst rs)"
  shows "bs = map (\<lambda>r. snd r \<noteq> js ''lock'' \<or> present d (fst r)) rs \<and>
    (\<forall>k. present d' k \<longleftrightarrow> present d k \<or> k \<in> ensured rs)"
  using assms
proof (induction key_ok d rs arbitrary: bs d' rule: guardLoop.induct)
  case (1 key_ok d)
  then show ?case by (simp add: ensured_def)
next
  case (2 key_ok d r rs)
  let ?g = "guardRun r rs"
  let ?rest = "drop (length ?g) (r # rs)"
  obtain rows d1 bs' where st: "guardStatement key_ok (snd r) d (map fst ?g) = Inr (rows, d1)"
    and l: "guardLoop key_ok d1 ?rest = Inr (bs', d')"
    and bs: "bs = map (\<lambda>g. fst g \<in> set rows) ?g @ bs'"
    using "2.prems"(1) by (auto simp: bind_res_Inr_iff Let_def)
  have all: "r # rs = ?g @ ?rest" by (rule guardRun_split)
  have dist: "distinct (map fst ?rest)" "fst ` set ?g \<inter> fst ` set ?rest = {}"
    using "2.prems"(2) by (subst (asm) all, simp)+
  have ih: "bs' = map (\<lambda>r. snd r \<noteq> js ''lock'' \<or> present d1 (fst r)) ?rest"
      "\<forall>k. present d' k \<longleftrightarrow> present d1 k \<or> k \<in> ensured ?rest"
    using "2.IH" [OF refl st refl l dist(1)] by auto
  note g = guardStatement_present [OF st]
  have "map (\<lambda>x. fst x \<in> set rows) ?g = map (\<lambda>x. snd x \<noteq> js ''lock'' \<or> present d (fst x)) ?g"
    using g guardRun_mode [of _ r rs] by (intro map_cong refl) auto
  moreover have "bs' = map (\<lambda>r. snd r \<noteq> js ''lock'' \<or> present d (fst r)) ?rest"
  proof -
    have "fst x \<notin> set (map fst ?g)" if "x \<in> set ?rest" for x using dist(2) that by auto
    then have "present d1 (fst x) = present d (fst x)" if "x \<in> set ?rest" for x using g that by blast
    then show ?thesis unfolding ih(1) by (simp cong: map_cong)
  qed
  ultimately have "bs = map (\<lambda>r. snd r \<noteq> js ''lock'' \<or> present d (fst r)) (?g @ ?rest)"
    by (simp only: bs map_append)
  moreover have "ensured (?g @ ?rest) = ensured ?g \<union> ensured ?rest" by (auto simp: ensured_def)
  moreover have "ensured ?g = (if snd r = js ''lock'' then {} else fst ` set ?g)"
    using guardRun_mode [of _ r rs] by (auto simp: ensured_def)
  ultimately show ?case using g ih(2) all [symmetric] by auto
qed

end
