(* ===== verification/Session.thy ===== *)
theory Session
  imports Publish
begin

text \<open>
  \<^verbatim>\<open>packages/backend/server/bindings/session.mts\<close> and the persistence arm of
  \<^verbatim>\<open>host.mts\<close>: a transaction's session remembers its first failure, the Streams it
  published to and, per savepoint, the Streams published before it. The main result
  is that no change of a Stream that survives to the commit goes without a wake.

  Operations of a session run one after the other, as the engine awaits each
  callback; one that is started and never awaited is an entry of \<open>pending\<close>, with
  the failure it will settle with, in settlement order. A failure is an error object,
  so \<open>failed === undefined\<close> is \<open>None\<close>.
\<close>

section \<open>The session\<close>

record 'e session =
  publicationScope :: "jsstr option"
  failed :: "'e option"
  closed :: bool
  pending :: "'e option list"
  touched :: "jsstr list"
  savepoints :: "(int, jsstr list) jsmap"

definition new_session :: "'e session" where
  "new_session = \<lparr>publicationScope = None, failed = None, closed = False, pending = [], touched = [], savepoints = []\<rparr>"

datatype 'e serr = Thrown 'e | SessionClosed | Unawaited

text \<open>\<open>a ??= b\<close>\<close>

definition keepFirst :: "'e option \<Rightarrow> 'e option \<Rightarrow> 'e option" where
  "keepFirst a b = (case a of None \<Rightarrow> b | Some _ \<Rightarrow> a)"

text \<open>
  \<open>track\<close> of an awaited operation. The body answers its result and the state it
  leaves; a closed session refuses before the body runs.
\<close>

definition track ::
  "('e session \<Rightarrow> 's \<Rightarrow> ('e, 'a) res \<times> 'e session \<times> 's) \<Rightarrow> 'e session \<Rightarrow> 's \<Rightarrow> ('e serr, 'a) res \<times> 'e session \<times> 's" where
  "track body ses st =
     (if closed ses then (Inl SessionClosed, ses, st)
      else case body ses st of
             (Inl e, ses', st') \<Rightarrow> (Inl (Thrown e), ses'\<lparr>failed := keepFirst (failed ses') (Some e)\<rparr>, st')
           | (Inr a, ses', st') \<Rightarrow> (Inr a, ses', st'))"

text \<open>\<open>track\<close> of an operation nobody awaits.\<close>

definition track_unawaited :: "'e option \<Rightarrow> 'e session \<Rightarrow> 'e session" where
  "track_unawaited outcome ses = (if closed ses then ses else ses\<lparr>pending := pending ses @ [outcome]\<rparr>)"

definition savepoint :: "int \<Rightarrow> 'e session \<Rightarrow> 'e session" where
  "savepoint n ses = ses\<lparr>savepoints := mput n (js_set (touched ses)) (savepoints ses)\<rparr>"

definition rollback :: "int \<Rightarrow> 'e session \<Rightarrow> 'e session" where
  "rollback n ses = ses\<lparr>touched := js_set (case map_of (savepoints ses) n of None \<Rightarrow> [] | Some ts \<Rightarrow> ts)\<rparr>"

definition release :: "int \<Rightarrow> 'e session \<Rightarrow> 'e session" where
  "release n ses = ses\<lparr>savepoints := mdel n (savepoints ses)\<rparr>"

text \<open>Every pending operation settles, in order, before the outcome is decided.\<close>

definition assertCommittable :: "'e session \<Rightarrow> ('e serr, unit) res \<times> 'e session" where
  "assertCommittable ses =
     (let unawaited = pending ses \<noteq> [];
          ses' = ses\<lparr>pending := [], failed := fold (\<lambda>o' f. keepFirst f o') (pending ses) (failed ses)\<rparr>
      in (case failed ses' of
            Some e \<Rightarrow> Inl (Thrown e)
          | None \<Rightarrow> if unawaited then Inl Unawaited
                    else if closed ses' then Inl SessionClosed else Inr (), ses'))"

section \<open>The persistence arm of the host\<close>

definition bookkeep :: "host_request \<Rightarrow> 'e session \<Rightarrow> 'e session" where
  "bookkeep req ses =
     (case req of Savepoint n \<Rightarrow> savepoint n ses | Rollback n \<Rightarrow> rollback n ses | Release n \<Rightarrow> release n ses
      | _ \<Rightarrow> ses)"

text \<open>A commit group's scope rides on its publications; an empty scope is falsy.\<close>

definition scoped :: "'e session \<Rightarrow> host_request \<Rightarrow> host_request" where
  "scoped ses req =
     (case req of
        Protocol05 op \<Rightarrow>
          (case op of
             ApplyStreamMembers rs _ \<Rightarrow>
               (case publicationScope ses of
                  None \<Rightarrow> req
                | Some s \<Rightarrow> if s = [] then req else Protocol05 (ApplyStreamMembers rs (Some s)))
           | _ \<Rightarrow> req)
      | _ \<Rightarrow> req)"

text \<open>The fallback for a database without group saves: one call per result.\<close>

fun saveEach ::
  "(jsstr \<Rightarrow> bool) \<Rightarrow> int \<Rightarrow> jsstr \<Rightarrow> int \<Rightarrow> int \<Rightarrow> int \<Rightarrow> jsv list \<Rightarrow> ptx \<Rightarrow> (perr, ptx) res" where
  "saveEach key_ok now i batch ordinal count [] t = Inr t"
| "saveEach key_ok now i batch ordinal count (v # vs) t =
     bind_res (answerInitialized key_ok now (Protocol05 (SaveResult i batch ordinal count v)) t)
       (\<lambda>(_, t'). saveEach key_ok now i batch (ordinal + 1) count vs t')"

definition storageCall ::
  "(jsstr \<Rightarrow> bool) \<Rightarrow> int \<Rightarrow> bool \<Rightarrow> host_request \<Rightarrow> ptx \<Rightarrow> (perr, answer \<times> ptx) res" where
  "storageCall key_ok now mutationResultGroups req t =
     (case req of
        Protocol05 op \<Rightarrow>
          (case op of
             SaveResults i batch ordinal count digest vs \<Rightarrow>
               if mutationResultGroups then answerInitialized key_ok now req t
               else (case vs of
                       Arr xs \<Rightarrow> bind_res (saveEach key_ok now i batch ordinal count xs t) (\<lambda>t'. Inr (Acknowledged, t'))
                     | _ \<Rightarrow> Inl HostTypeError)
           | _ \<Rightarrow> answerInitialized key_ok now req t)
      | _ \<Rightarrow> answerInitialized key_ok now req t)"

text \<open>The deltas of a publication request, and the Streams they wake.\<close>

definition publicationDeltas :: "host_request \<Rightarrow> jsv list" where
  "publicationDeltas req =
     (case req of
        Protocol05 op \<Rightarrow> (case op of ApplyStreamMembers rs _ \<Rightarrow> (case rs of Arr xs \<Rightarrow> xs | _ \<Rightarrow> []) | _ \<Rightarrow> [])
      | ApplyStreamMembersRequest rs \<Rightarrow> (case rs of Arr xs \<Rightarrow> xs | _ \<Rightarrow> [])
      | _ \<Rightarrow> [])"

definition wakeOf :: "jsv \<Rightarrow> jsstr list \<Rightarrow> jsstr list" where
  "wakeOf delta ts =
     (if truthy (field delta (js ''publish''))
      then (case field delta (js ''stream'') of Str s \<Rightarrow> sadd s ts | _ \<Rightarrow> ts) else ts)"

definition executeStored ::
  "(jsstr \<Rightarrow> bool) \<Rightarrow> int \<Rightarrow> bool \<Rightarrow> host_request \<Rightarrow> perr session \<Rightarrow> ptx \<Rightarrow> (perr, answer) res \<times> perr session \<times> ptx" where
  "executeStored key_ok now groups req ses t =
     (let ses1 = bookkeep req ses in
      case storageCall key_ok now groups (scoped ses1 req) t of
        Inl e \<Rightarrow> (Inl e, ses1, t)
      | Inr (a, t') \<Rightarrow> (Inr a, ses1\<lparr>touched := fold wakeOf (publicationDeltas req) (touched ses1)\<rparr>, t'))"

text \<open>One host callback of the engine that the persistence answers.\<close>

definition execute ::
  "(jsstr \<Rightarrow> bool) \<Rightarrow> int \<Rightarrow> bool \<Rightarrow> host_request \<Rightarrow> perr session \<Rightarrow> ptx \<Rightarrow> (perr serr, answer) res \<times> perr session \<times> ptx" where
  "execute key_ok now groups req = track (executeStored key_ok now groups req)"

text \<open>The callbacks of one transaction, in order, each awaited.\<close>

fun executeAll ::
  "(jsstr \<Rightarrow> bool) \<Rightarrow> int \<Rightarrow> bool \<Rightarrow> host_request list \<Rightarrow> perr session \<Rightarrow> ptx \<Rightarrow> perr session \<times> ptx" where
  "executeAll key_ok now groups [] ses t = (ses, t)"
| "executeAll key_ok now groups (req # reqs) ses t =
     (case execute key_ok now groups req ses t of (_, ses', t') \<Rightarrow> executeAll key_ok now groups reqs ses' t')"

section \<open>The first failure stays\<close>

lemma keepFirst_simps [simp]: "keepFirst None b = b" "keepFirst (Some e) b = Some e"
  by (simp_all add: keepFirst_def)

lemma fold_keepFirst_Some [simp]: "fold (\<lambda>o' f. keepFirst f o') os (Some e) = Some e"
  by (induction os) simp_all

lemma assertCommittable_Inr_iff:
  "fst (assertCommittable ses) = Inr () \<longleftrightarrow> failed ses = None \<and> pending ses = [] \<and> \<not> closed ses"
  by (cases "failed ses") (auto simp: assertCommittable_def Let_def split: option.splits)

lemma execute_failed: "failed ses = Some e \<Longrightarrow> failed (fst (snd (execute key_ok now groups req ses t))) = Some e"
  by (auto simp: execute_def track_def executeStored_def bookkeep_def savepoint_def rollback_def release_def
      keepFirst_def Let_def split: sum.splits host_request.splits prod.splits)

lemma executeAll_failed: "failed ses = Some e \<Longrightarrow> failed (fst (executeAll key_ok now groups reqs ses t)) = Some e"
proof (induction reqs arbitrary: ses t)
  case Nil
  then show ?case by simp
next
  case (Cons req reqs)
  then show ?case using execute_failed [OF Cons.prems] by (auto split: prod.splits) (metis fst_conv snd_conv)
qed

section \<open>Every surviving change of a Stream wakes it\<close>

text \<open>The Streams whose head or members two states of the tables disagree on.\<close>

definition same_stream :: "db \<Rightarrow> db \<Rightarrow> jsstr \<Rightarrow> bool" where
  "same_stream d d' s = (map_of (axton_stream d') s = map_of (axton_stream d) s
     \<and> (\<forall>i. map_of (axton_stream_record d') (s, i) = map_of (axton_stream_record d) (s, i)))"

definition changed :: "db \<Rightarrow> db \<Rightarrow> jsstr set" where
  "changed d d' = {s. \<not> same_stream d d' s}"

lemma changed_refl [simp]: "changed d d = {}"
  by (simp add: changed_def same_stream_def)

lemma changed_trans: "changed d d'' \<subseteq> changed d d' \<union> changed d' d''"
  by (auto simp: changed_def same_stream_def)

lemma changed_frame:
  "axton_stream d' = axton_stream d \<Longrightarrow> axton_stream_record d' = axton_stream_record d \<Longrightarrow> changed d d' = {}"
  by (simp add: changed_def same_stream_def)

lemma changed_reserve: "V05_RESERVE_CURSOR d s scope = (c, d') \<Longrightarrow> changed d d' \<subseteq> {s}"
  by (auto simp: V05_RESERVE_CURSOR_def changed_def same_stream_def map_simps split: option.splits if_splits)

lemma changed_put_member: "put_member s i c d = Inr d' \<Longrightarrow> changed d d' \<subseteq> {s}"
  by (auto simp: put_member_def changed_def same_stream_def map_simps split: option.splits if_splits)

lemma changed_foldM:
  assumes "foldM f d xs = Inr d'" and "\<And>x a b. x \<in> set xs \<Longrightarrow> f a x = Inr b \<Longrightarrow> changed (g a) (g b) \<subseteq> S"
  shows "changed (g d) (g d') \<subseteq> S"
proof (rule foldM_invariant [OF assms(1), of "\<lambda>a. changed (g d) (g a) \<subseteq> S"])
  fix a x b
  assume "x \<in> set xs" and "changed (g d) (g a) \<subseteq> S" and "f a x = Inr b"
  then show "changed (g d) (g b) \<subseteq> S" using assms(2) changed_trans [of "g d" "g b" "g a"] by blast
qed simp

lemma changed_applyGroup:
  assumes "applyGroup cursors st grp = Inr st'"
  shows "changed (snd st) (snd st') \<subseteq> {s. \<exists>x \<in> set grp. truthy (d_publish x) \<and> d_stream x = Str s}"
proof -
  obtain ws d' where ws: "traverse (wantedOf cursors) grp = Inr ws" and d': "snd st' = d'"
    and w: "foldM (write_wanted (snd st)) (snd st) ws = Inr d'"
    using assms by (auto simp: applyGroup_def V05_APPLY_MEMBERS_BATCH_def bind_res_Inr_iff split: if_splits)
  have "changed a b \<subseteq> {s. \<exists>x \<in> set grp. truthy (d_publish x) \<and> d_stream x = Str s}"
    if "w \<in> set ws" "write_wanted (snd st) a w = Inr b" for w a b
    using traverse_origin [OF ws that(1)] that(2) changed_put_member
    by (fastforce simp: write_wanted_def wantedOf_def streamName_Inr_iff bind_res_Inr_iff
        split: option.splits if_splits)
  then show ?thesis using changed_foldM [OF w, of id] d' by simp
qed

lemma publishStreams_set:
  assumes "publishStreams ds = Inr streams"
  shows "set streams = {s. \<exists>x \<in> set ds. truthy (d_publish x) \<and> d_stream x = Str s}"
proof -
  obtain ss where t: "traverse (\<lambda>x. streamName (d_stream x)) (filter (\<lambda>x. truthy (d_publish x)) ds) = Inr ss"
    and st: "set streams = set ss"
    using assms by (auto simp: publishStreams_def bind_res_Inr_iff)
  show ?thesis
    unfolding st using traverse_origin [OF t] traverse_image [OF t]
    by (fastforce simp: streamName_Inr_iff)
qed

lemma changed_applyGeneral:
  assumes "publishStreams ds = Inr streams" and "applyGeneral streams scope ds d = Inr (ps, d')"
  shows "changed d d' \<subseteq> set streams"
proof -
  obtain cursors d1 where r: "foldM (reserveStream scope) ([], d) streams = Inr (cursors, d1)"
    and g: "foldM (applyGroup cursors) ([], d1) (batches ds) = Inr (ps, d')"
    using assms(2) by (auto simp: applyGeneral_def bind_res_Inr_iff)
  have "changed (snd a) (snd b) \<subseteq> set streams" if "s \<in> set streams" "reserveStream scope a s = Inr b" for s a b
    using that changed_reserve [of "snd a" s scope]
    by (auto simp: reserveStream_def bind_res_Inr_iff split: prod.splits option.splits)
  then have one: "changed d d1 \<subseteq> set streams" using changed_foldM [OF r, of snd] by auto
  have "changed (snd a) (snd b) \<subseteq> set streams" if "grp \<in> set (batches ds)" "applyGroup cursors a grp = Inr b" for grp a b
  proof -
    have "set grp \<subseteq> set ds" using that(1) concat_batches [of ds] by (metis UN_upper set_concat)
    then show ?thesis using changed_applyGroup [OF that(2)] publishStreams_set [OF assms(1)] by blast
  qed
  then have "changed d1 d' \<subseteq> set streams" using changed_foldM [OF g, of snd] by auto
  with one show ?thesis using changed_trans [of d d' d1] by blast
qed

definition wakes :: "jsv list \<Rightarrow> jsstr set" where
  "wakes xs = {s. \<exists>x \<in> set xs. truthy (field x (js ''publish'')) \<and> field x (js ''stream'') = Str s}"

lemma set_fold_wakeOf: "set (fold wakeOf xs ts) = set ts \<union> wakes xs"
  by (induction xs arbitrary: ts) (auto simp: wakeOf_def wakes_def split: jsv.splits)

lemma keyOf_object: "keyOf extra v = Inr r \<Longrightarrow> snd r = v"
  by (auto simp: keyOf_def fieldsOf_def bind_res_Inr_iff split: if_splits option.splits)

lemma changed_applyStreamMembers:
  assumes "wf_db d" and "applyStreamMembers rs scope d = Inr (ps, d')"
  shows "changed d d' \<subseteq> wakes (case rs of Arr xs \<Rightarrow> xs | _ \<Rightarrow> [])"
proof -
  obtain xs records streams sc where rs: "rs = Arr xs"
    and t: "traverse (keyOf [''identity'', ''stream'', ''publish'']) xs = Inr records"
    and p: "publishStreams (map deltaOf records) = Inr streams"
    and g: "applyGeneral streams sc (map deltaOf records) d = Inr (ps, d')"
    using assms(2)
    by (auto simp: applyStreamMembers_general [OF assms(1)] applyStreamMembersGeneral_def arrayOf_def Let_def
        bind_res_Inr_iff split: jsv.splits)
  have "set streams \<subseteq> wakes xs"
  proof
    fix s assume "s \<in> set streams"
    then obtain r where r: "r \<in> set records" "truthy (field (snd r) (js ''publish''))" "field (snd r) (js ''stream'') = Str s"
      by (auto simp: publishStreams_set [OF p] deltaOf_def)
    then show "s \<in> wakes xs" using traverse_origin [OF t r(1)] by (auto simp: wakes_def dest!: keyOf_object)
  qed
  then show ?thesis using changed_applyGeneral [OF p g] by (auto simp: rs)
qed

lemma changed_stores_only: "stores_only d d' \<Longrightarrow> changed d d' = {}"
  using stores_only_fields changed_frame by blast

lemma guardLoop_streams:
  "guardLoop key_ok d rs = Inr (bs, d') \<Longrightarrow>
   axton_stream d' = axton_stream d \<and> axton_stream_record d' = axton_stream_record d"
proof (induction key_ok d rs arbitrary: bs d' rule: guardLoop.induct)
  case (1 key_ok d)
  then show ?case by simp
next
  case (2 key_ok d r rs)
  let ?g = "guardRun r rs"
  from "2.prems" obtain rows d1 bs' where st: "guardStatement key_ok (snd r) d (map fst ?g) = Inr (rows, d1)"
    and l: "guardLoop key_ok d1 (drop (length ?g) (r # rs)) = Inr (bs', d')"
    by (auto simp: bind_res_Inr_iff Let_def)
  have ens: "axton_stream y = axton_stream x \<and> axton_stream_record y = axton_stream_record x"
    if "foldM (ensure_identity key_ok) x ks = Inr y" for x y ks
    by (rule foldM_invariant [OF that]) (auto simp: ensure_identity_def split: if_splits)
  have "axton_stream d1 = axton_stream d \<and> axton_stream_record d1 = axton_stream_record d"
    using st ens by (auto simp: guardStatement_def ENSURE_IDENTITIES_def bind_res_Inr_iff split: if_splits)
  with "2.IH" [OF refl st refl l] show ?case by simp
qed

definition op_wakes :: "op05 \<Rightarrow> jsstr set" where
  "op_wakes op = wakes (publicationDeltas (Protocol05 op))"

lemma changed_answer05:
  assumes "wf_db d" and "answer05 key_ok now op d = Inr (a, d')"
  shows "changed d d' \<subseteq> op_wakes op"
proof -
  have wf: "wf_stores d" using assms(1) by (simp add: wf_db_def)
  note stores = changed_stores_only [OF stores_only_beginBatch] changed_stores_only [OF stores_only_saveResult]
    changed_stores_only [OF stores_only_saveResults]
  show ?thesis
    using assms
    by (cases op)
       (auto simp: reading_def done_with_def bind_res_Inr_iff op_wakes_def publicationDeltas_def stores
          changed_stores_only guardRecords_def changed_frame guardLoop_streams
         dest!: wf_finishBootstrap [OF wf] wf_claimStore [OF wf] changed_applyStreamMembers)
qed

text \<open>
  The invariant of a transaction that started on \<open>d0\<close>: what differs from \<open>d0\<close> now
  is in \<open>touched\<close>, and what would differ after rolling back to an open savepoint
  is in that savepoint's snapshot.
\<close>

definition snapshot :: "db \<Rightarrow> (int, jsstr list) jsmap \<Rightarrow> int \<times> db \<Rightarrow> bool" where
  "snapshot d0 m p = (wf_db (snd p) \<and> (\<exists>ts. map_of m (fst p) = Some ts \<and> changed d0 (snd p) \<subseteq> set ts))"

definition covered :: "db \<Rightarrow> 'e session \<Rightarrow> ptx \<Rightarrow> bool" where
  "covered d0 ses t =
     (wf_db (cur t) \<and> changed d0 (cur t) \<subseteq> set (touched ses) \<and> distinct (map fst (saves t))
      \<and> (\<forall>p \<in> set (saves t). snapshot d0 (savepoints ses) p))"

lemma snapshot_other:
  "fst p \<noteq> n \<Longrightarrow> snapshot d0 (mput n ts m) p = snapshot d0 m p"
  "fst p \<noteq> n \<Longrightarrow> snapshot d0 (mdel n m) p = snapshot d0 m p"
  by (simp_all add: snapshot_def map_simps)

lemma covered_advance:
  assumes "covered d0 ses t" and "wf_db d'" and "changed (cur t) d' \<subseteq> W"
    and "set (touched ses) \<union> W \<subseteq> set ts"
  shows "covered d0 (ses\<lparr>touched := ts\<rparr>) (t\<lparr>cur := d'\<rparr>)"
proof -
  have "changed d0 (cur t) \<subseteq> set (touched ses)" using assms(1) by (simp add: covered_def)
  then have "changed d0 d' \<subseteq> set ts" using assms(3,4) changed_trans [of d0 d' "cur t"] by blast
  with assms(1,2) show ?thesis by (simp add: covered_def)
qed

lemma covered_savepoint:
  assumes "covered d0 ses t" and "n \<notin> fst ` set (saves t)"
  shows "covered d0 (savepoint n ses) (t\<lparr>saves := (n, cur t) # saves t\<rparr>)"
proof -
  have "snapshot d0 (savepoints (savepoint n ses)) (n, cur t)"
    using assms(1) by (simp add: snapshot_def covered_def savepoint_def map_simps)
  moreover have "snapshot d0 (savepoints (savepoint n ses)) p" if "p \<in> set (saves t)" for p
  proof -
    have "fst p \<noteq> n" using assms(2) that by auto
    then show ?thesis using assms(1) that by (simp add: covered_def savepoint_def snapshot_other)
  qed
  ultimately show ?thesis using assms by (simp add: covered_def savepoint_def)
qed

lemma dropWhile_savepoint:
  "dropWhile (\<lambda>(m, _). m \<noteq> n) xs = (m, d) # rest \<Longrightarrow> m = n \<and> (\<exists>pre. xs = pre @ (n, d) # rest)"
proof -
  assume a: "dropWhile (\<lambda>(m, _). m \<noteq> n) xs = (m, d) # rest"
  then have "m = n" using hd_dropWhile [of "\<lambda>(m, _). m \<noteq> n" xs] by auto
  with a show ?thesis by (metis takeWhile_dropWhile_id)
qed

lemma covered_rollback:
  assumes "covered d0 ses t" and "sql_rollback_to n t = Inr t'"
  shows "covered d0 (rollback n ses) t'"
proof -
  obtain d rest pre where t': "t' = t\<lparr>cur := d, saves := (n, d) # rest\<rparr>" and pre: "saves t = pre @ (n, d) # rest"
    using assms(2) by (auto simp: sql_rollback_to_def split: list.splits dest!: dropWhile_savepoint)
  have "snapshot d0 (savepoints ses) (n, d)" using assms(1) pre by (simp add: covered_def)
  then obtain ts where "map_of (savepoints ses) n = Some ts" "changed d0 d \<subseteq> set ts" "wf_db d"
    by (auto simp: snapshot_def)
  then show ?thesis using assms(1) pre by (simp add: covered_def t' rollback_def)
qed

lemma covered_release:
  assumes "covered d0 ses t" and "sql_release n t = Inr t'"
  shows "covered d0 (release n ses) t'"
proof -
  obtain d rest pre where t': "t' = t\<lparr>saves := rest\<rparr>" and pre: "saves t = pre @ (n, d) # rest"
    using assms(2) by (auto simp: sql_release_def split: list.splits dest!: dropWhile_savepoint)
  have "fst p \<noteq> n" if "p \<in> set rest" for p using assms(1) pre that by (force simp: covered_def)
  then have "snapshot d0 (savepoints (release n ses)) p" if "p \<in> set rest" for p
    using assms(1) pre that by (simp add: covered_def release_def snapshot_other)
  then show ?thesis using assms(1) pre by (simp add: covered_def t' release_def)
qed

lemma in_tx_Inr_iff:
  "in_tx t r = Inr (a, t') \<longleftrightarrow> (\<exists>d. r = Inr (a, d) \<and> t' = t\<lparr>cur := d\<rparr>)"
  by (auto simp: in_tx_def bind_res_Inr_iff)

lemma saveEach_loop:
  assumes "saveEach key_ok now i batch ordinal count vs t = Inr t'"
  shows "\<exists>d. saveLoop i batch ordinal count vs (cur t) = Inr d \<and> t' = t\<lparr>cur := d\<rparr>"
  using assms
proof (induction vs arbitrary: t ordinal)
  case Nil
  then show ?case by simp
next
  case (Cons v vs)
  then obtain d where d: "saveResult i batch ordinal count v (cur t) = Inr d"
      "saveEach key_ok now i batch (ordinal + 1) count vs (t\<lparr>cur := d\<rparr>) = Inr t'"
    by (auto simp: bind_res_Inr_iff in_tx_Inr_iff done_with_def)
  from Cons.IH [OF d(2)] d(1) show ?case by auto
qed

lemma saveLoop_keeps:
  "wf_db d \<Longrightarrow> saveLoop i batch ordinal count vs d = Inr d' \<Longrightarrow> wf_db d' \<and> changed d d' = {}"
proof (induction vs arbitrary: d ordinal)
  case Nil
  then show ?case by simp
next
  case (Cons v vs)
  then obtain d1 where d1: "saveResult i batch ordinal count v d = Inr d1"
      "saveLoop i batch (ordinal + 1) count vs d1 = Inr d'" by (auto simp: bind_res_Inr_iff)
  have s: "stores_only d d1" "wf_db d1"
    using stores_only_saveResult [OF d1(1)] saveResult_wf [OF _ d1(1)] wf_db_stores_only [of d d1] Cons.prems(1)
    by (auto simp: wf_db_def)
  then show ?case using Cons.IH [OF s(2) d1(2)] changed_stores_only [OF s(1)] changed_trans [of d d' d1] by auto
qed

lemma lockStreams_same: "lockStreams r d = Inr d' \<Longrightarrow> d' = d"
  by (auto simp: lockStreams_def bind_res_Inr_iff split: if_splits)

text \<open>A storage call outside the savepoint operations moves only the tables.\<close>

lemma storageCall_tables:
  assumes "storageCall key_ok now groups req t = Inr (a, t')" and "wf_db (cur t)"
    and "\<And>n. req \<noteq> Savepoint n \<and> req \<noteq> Rollback n \<and> req \<noteq> Release n"
  shows "\<exists>d. t' = t\<lparr>cur := d\<rparr> \<and> wf_db d \<and> changed (cur t) d \<subseteq> wakes (publicationDeltas req)"
proof (cases req)
  case (Protocol05 op)
  show ?thesis
  proof (cases "\<exists>i b o' c g vs. op = SaveResults i b o' c g vs \<and> \<not> groups")
    case True
    then obtain i b o' c xs where "saveEach key_ok now i b o' c xs t = Inr t'"
      using assms(1) by (auto simp: Protocol05 storageCall_def bind_res_Inr_iff split: jsv.splits)
    then show ?thesis using saveEach_loop saveLoop_keeps [OF assms(2)] by blast
  next
    case False
    then have "answerInitialized key_ok now (Protocol05 op) t = Inr (a, t')"
      using assms(1) by (auto simp: Protocol05 storageCall_def split: op05.splits)
    then obtain d where d: "answer05 key_ok now op (cur t) = Inr (a, d)" "t' = t\<lparr>cur := d\<rparr>"
      by (auto simp: in_tx_Inr_iff)
    then show ?thesis
      using wf_answer05 [OF assms(2) d(1)] changed_answer05 [OF assms(2) d(1)]
      by (auto simp: Protocol05 op_wakes_def)
  qed
next
  case (ApplyStreamMembersRequest rs)
  with assms(1) obtain d where d: "answer05 key_ok now (ApplyStreamMembers rs None) (cur t) = Inr (a, d)" "t' = t\<lparr>cur := d\<rparr>"
    by (auto simp: storageCall_def in_tx_Inr_iff simp del: answer05.simps)
  then show ?thesis
    using wf_answer05 [OF assms(2) d(1)] changed_answer05 [OF assms(2) d(1)]
    by (intro exI [of _ d]) (simp add: ApplyStreamMembersRequest op_wakes_def publicationDeltas_def)
next
  case (GuardRecordsRequest rs)
  with assms(1) obtain d where d: "answer05 key_ok now (GuardRecords rs) (cur t) = Inr (a, d)" "t' = t\<lparr>cur := d\<rparr>"
    by (auto simp: storageCall_def in_tx_Inr_iff simp del: answer05.simps)
  then show ?thesis
    using wf_answer05 [OF assms(2) d(1)] changed_answer05 [OF assms(2) d(1)]
    by (intro exI [of _ d]) (simp add: GuardRecordsRequest op_wakes_def publicationDeltas_def)
qed (use assms in \<open>auto simp: storageCall_def in_tx_Inr_iff reading_def done_with_def bind_res_Inr_iff
       dest!: lockStreams_same\<close>)

lemma wakes_scoped: "publicationDeltas (scoped ses req) = publicationDeltas req"
  by (auto simp: scoped_def publicationDeltas_def split: host_request.splits op05.splits option.splits)

lemma scoped_savepoint [simp]:
  "scoped ses (Savepoint n) = Savepoint n" "scoped ses (Rollback n) = Rollback n" "scoped ses (Release n) = Release n"
  by (simp_all add: scoped_def)

lemma scoped_plain: "(\<And>n. req \<noteq> Savepoint n \<and> req \<noteq> Rollback n \<and> req \<noteq> Release n) \<Longrightarrow>
   scoped ses req \<noteq> Savepoint n \<and> scoped ses req \<noteq> Rollback n \<and> scoped ses req \<noteq> Release n"
  by (auto simp: scoped_def split: host_request.splits op05.splits option.splits)

text \<open>The engine opens a savepoint only under an ordinal that is not open.\<close>

definition opensFresh :: "host_request \<Rightarrow> ptx \<Rightarrow> bool" where
  "opensFresh req t = (case req of Savepoint n \<Rightarrow> n \<notin> fst ` set (saves t) | _ \<Rightarrow> True)"

lemma covered_execute:
  assumes "covered d0 ses t" and "opensFresh req t"
    and "executeStored key_ok now groups req ses t = (Inr a, ses', t')"
  shows "covered d0 ses' t'"
proof -
  have c: "storageCall key_ok now groups (scoped (bookkeep req ses) req) t = Inr (a, t')"
    and ses': "ses' = (bookkeep req ses)\<lparr>touched := fold wakeOf (publicationDeltas req) (touched (bookkeep req ses))\<rparr>"
    using assms(3) by (auto simp: executeStored_def Let_def split: sum.splits)
  have wf: "wf_db (cur t)" using assms(1) by (simp add: covered_def)
  consider n where "req = Savepoint n" | n where "req = Rollback n" | n where "req = Release n"
    | "\<And>n. req \<noteq> Savepoint n \<and> req \<noteq> Rollback n \<and> req \<noteq> Release n" by metis
  then show ?thesis
  proof cases
    case (1 n)
    then have "t' = t\<lparr>saves := (n, cur t) # saves t\<rparr>" "ses' = savepoint n ses"
      using c ses' by (auto simp: storageCall_def bind_res_Inr_iff publicationDeltas_def bookkeep_def)
    then show ?thesis using covered_savepoint [OF assms(1)] assms(2) 1 by (simp add: opensFresh_def)
  next
    case (2 n)
    then have "sql_rollback_to n t = Inr t'" "ses' = rollback n ses"
      using c ses' by (auto simp: storageCall_def bind_res_Inr_iff publicationDeltas_def bookkeep_def)
    then show ?thesis using covered_rollback [OF assms(1)] by simp
  next
    case (3 n)
    then have "sql_release n t = Inr t'" "ses' = release n ses"
      using c ses' by (auto simp: storageCall_def bind_res_Inr_iff publicationDeltas_def bookkeep_def)
    then show ?thesis using covered_release [OF assms(1)] by simp
  next
    case 4
    then have b: "bookkeep req ses = ses" by (auto simp: bookkeep_def split: host_request.splits)
    obtain d where d: "t' = t\<lparr>cur := d\<rparr>" "wf_db d" "changed (cur t) d \<subseteq> wakes (publicationDeltas req)"
      using storageCall_tables [OF c wf scoped_plain [OF 4]] by (auto simp: wakes_scoped)
    show ?thesis
      unfolding ses' d(1) b by (rule covered_advance [OF assms(1) d(2,3)]) (simp add: set_fold_wakeOf)
  qed
qed

fun opensFreshAll ::
  "(jsstr \<Rightarrow> bool) \<Rightarrow> int \<Rightarrow> bool \<Rightarrow> host_request list \<Rightarrow> perr session \<Rightarrow> ptx \<Rightarrow> bool" where
  "opensFreshAll key_ok now groups [] ses t = True"
| "opensFreshAll key_ok now groups (req # reqs) ses t =
     (opensFresh req t \<and>
      (case execute key_ok now groups req ses t of (_, ses', t') \<Rightarrow> opensFreshAll key_ok now groups reqs ses' t'))"

lemma execute_covered:
  assumes "covered d0 ses t \<or> failed ses \<noteq> None" and "opensFresh req t"
    and "execute key_ok now groups req ses t = (r, ses', t')"
  shows "covered d0 ses' t' \<or> failed ses' \<noteq> None"
proof (cases "failed ses")
  case None
  then have cov: "covered d0 ses t" using assms(1) by simp
  show ?thesis
  proof (cases "executeStored key_ok now groups req ses t")
    case (fields r1 ses1 t1)
    then show ?thesis
      using assms(3) cov covered_execute [OF cov assms(2)] None
      by (cases r1) (auto simp: execute_def track_def keepFirst_def split: if_splits option.splits)
  qed
next
  case (Some e)
  from execute_failed [OF this, of key_ok now groups req t] show ?thesis by (simp add: assms(3))
qed

lemma executeAll_covered:
  assumes "covered d0 ses t \<or> failed ses \<noteq> None" and "opensFreshAll key_ok now groups reqs ses t"
    and "executeAll key_ok now groups reqs ses t = (ses', t')"
  shows "covered d0 ses' t' \<or> failed ses' \<noteq> None"
  using assms
proof (induction reqs arbitrary: ses t)
  case Nil
  then show ?case by simp
next
  case (Cons req reqs)
  obtain r ses1 t1 where e: "execute key_ok now groups req ses t = (r, ses1, t1)" by (metis prod_cases3)
  have "covered d0 ses1 t1 \<or> failed ses1 \<noteq> None"
    by (rule execute_covered [OF Cons.prems(1) _ e]) (use Cons.prems(2) in simp)
  then show ?case using Cons.IH Cons.prems(2,3) e by simp
qed

definition start_tx :: "db \<Rightarrow> ptx" where
  "start_tx d = \<lparr>cur = d, saves = []\<rparr>"

lemma covered_start: "wf_db d \<Longrightarrow> covered d new_session (start_tx d)"
  by (simp add: covered_def start_tx_def new_session_def)

lemma committed_covers:
  assumes "wf_db d" and "opensFreshAll key_ok now groups reqs new_session (start_tx d)"
    and "executeAll key_ok now groups reqs new_session (start_tx d) = (ses, t)"
    and "fst (assertCommittable ses) = Inr ()"
  shows "changed d (cur t) \<subseteq> set (touched ses)"
proof -
  have "covered d ses t \<or> failed ses \<noteq> None"
    by (rule executeAll_covered [OF _ assms(2,3)]) (simp add: covered_start assms(1))
  then show ?thesis using assms(4) by (auto simp: assertCommittable_Inr_iff covered_def)
qed

section \<open>Running the model\<close>

lemmas persistence_run [run_simps] =
  execute_def track_def executeStored_def Let_def bookkeep_def scoped_def storageCall_def opensFresh_def start_tx_def
  new_session_def in_tx_def guardRecords_def arrayOf_def keyOf_def fieldsOf_def nonEmpty_def unique_def pairId_def
  js_set_def sadd_def guardItem_def guardRun_def guardStatement_def ENSURE_IDENTITIES_def ensure_identity_def
  record_id_def empty_db_def STREAM_BATCH_def savepointOrdinal_def safe_int_def savepoint_def applyStreamMembers_def
  publishStreams_def deltaOf_def streamName_def trim_Nil_iff js_def jsSpace_def sortStreams_def fastPath_def applyFast_def
  V05_RESERVE_APPLY_MEMBERS_def V05_RESERVE_CURSOR_def put_member_def in_range_def mhas_def memberPosition_def
  positiveCounter_def safe_def streamOf_def publicationDeltas_def wakeOf_def sql_rollback_to_def rollback_def
  sql_release_def release_def map_filter_simps done_with_def reading_def

end
