(* ===== verification/PersistenceSpec.thy ===== *)
theory PersistenceSpec
  imports Session
begin

text \<open>
  What the database side of the backend promises, from the statements up to a
  whole transaction, with a concrete run for each promise that has hypotheses.
\<close>

section \<open>Example data\<close>

definition ex_key :: jsv where
  "ex_key = Obj [(js ''model'', Str (js ''Todo'')), (js ''identityKey'', Str (js ''k'')), (js ''mode'', Str (js ''ensure''))]"

definition ex_delta :: "string \<Rightarrow> jsv" where
  "ex_delta s = Obj [(js ''model'', Str (js ''Todo'')), (js ''identityKey'', Str (js ''k'')),
     (js ''stream'', Str (js s)), (js ''publish'', Bool True)]"

text \<open>A publication to \<open>a\<close> is rolled back, one to \<open>b\<close> stays.\<close>

definition ex_requests :: "host_request list" where
  "ex_requests = [Protocol05 (GuardRecords (Arr [ex_key])),
     Savepoint 1, Protocol05 (ApplyStreamMembers (Arr [ex_delta ''a'']) None), Rollback 1,
     Protocol05 (ApplyStreamMembers (Arr [ex_delta ''b'']) None), Release 1]"

definition ex_tables :: db where
  "ex_tables = empty_db\<lparr>axton_stream := [(js ''b'', 1)], axton_record := [((js ''Todo'', js ''k''), 1)],
     axton_stream_record := [((js ''b'', 1), 1, Upsert)], publication_cursor := [((js ''b'', []), 1)], next_id := 2\<rparr>"

lemmas ex_defs = ex_key_def ex_delta_def ex_requests_def ex_tables_def

lemma ex_run:
  "opensFreshAll (\<lambda>_. True) 0 True ex_requests new_session (start_tx empty_db)"
  "executeAll (\<lambda>_. True) 0 True ex_requests new_session (start_tx empty_db) =
     (new_session\<lparr>touched := [js ''b'']\<rparr>, start_tx ex_tables)"
  by (simp_all add: ex_defs run_simps)

section \<open>Transactions\<close>

text \<open>
  C2: A transaction that may commit wakes every Stream it changed. For every
  sequence of host callbacks that opens a savepoint only under an ordinal that is
  not open, if the session is committable at the end, every Stream whose head or
  members differ from the start of the transaction is in \<open>touched\<close>.
\<close>

theorem wakes_cover_changes:
  assumes "wf_db d" and "opensFreshAll key_ok now groups reqs new_session (start_tx d)"
    and "executeAll key_ok now groups reqs new_session (start_tx d) = (ses, t)"
    and "fst (assertCommittable ses) = Inr ()"
  shows "changed d (cur t) \<subseteq> set (touched ses)"
  by (rule committed_covers [OF assms])

theorem wakes_cover_changes_witness: "changed empty_db ex_tables \<subseteq> {js ''b''}"
  using wakes_cover_changes [OF wf_empty_db ex_run]
  by (simp add: assertCommittable_Inr_iff start_tx_def) (simp add: new_session_def)

text \<open>
  C21: The first failure of a transaction decides it: once a callback has failed,
  whatever the engine still asks, the session refuses to commit with that first error.
\<close>

theorem first_failure_decides:
  assumes "execute key_ok now groups req ses t = (Inl (Thrown e), ses1, t1)" and "failed ses = None"
  shows "fst (assertCommittable (fst (executeAll key_ok now groups reqs ses1 t1))) = Inl (Thrown e)"
proof -
  have "failed ses1 = Some e"
    using assms
    by (auto simp: execute_def track_def executeStored_def bookkeep_def savepoint_def rollback_def release_def Let_def
        split: if_splits sum.splits prod.splits host_request.splits)
  then have "failed (fst (executeAll key_ok now groups reqs ses1 t1)) = Some e" by (rule executeAll_failed)
  then show ?thesis by (simp add: assertCommittable_def Let_def)
qed

theorem first_failure_decides_witness:
  "fst (assertCommittable (fst (executeAll (\<lambda>_. True) 0 True ex_requests
     (new_session\<lparr>failed := Some SqlNoSavepoint\<rparr>) (start_tx empty_db)))) = Inl (Thrown SqlNoSavepoint)"
  by (rule first_failure_decides [of "\<lambda>_. True" 0 True "Release 3" new_session "start_tx empty_db"])
     (simp_all add: run_simps)

text \<open>
  C22: Every answered host request keeps the tables well-formed, those a savepoint
  would restore included: unique ids in the catalog, members and reservations of
  represented records at or below their Stream's head, Store rows within their
  constraints, and exactly the results each Store row says it has processed.
\<close>

theorem answered_requests_keep_wf:
  assumes "answerInitialized key_ok now req t = Inr (a, t')"
    and "wf_db (cur t)" and "list_all (\<lambda>(_, d). wf_db d) (saves t)"
  shows "wf_db (cur t') \<and> list_all (\<lambda>(_, d). wf_db d) (saves t')"
proof -
  have "wf_db d \<and> list_all (\<lambda>(_, d). wf_db d) ((n, d) # rest)"
    if "dropWhile (\<lambda>(m, _). m \<noteq> n) (saves t) = (m, d) # rest" for n m d rest
    using assms(3) dropWhile_savepoint [OF that] by auto
  then show ?thesis
    using assms
    by (cases req)
       (auto simp: in_tx_Inr_iff bind_res_Inr_iff sql_rollback_to_def sql_release_def split: list.splits
         intro: wf_answer05 simp: reading_def done_with_def simp del: answer05.simps dest!: lockStreams_same)
qed

theorem answered_requests_keep_wf_witness: "wf_db ex_tables"
proof -
  let ?d = "empty_db\<lparr>axton_record := [((js ''Todo'', js ''k''), 1)], next_id := 2\<rparr>"
  have "answerInitialized (\<lambda>_. True) 0 (Protocol05 (GuardRecords (Arr [ex_key]))) (start_tx empty_db) =
      Inr (AGuards [True], start_tx ?d)"
    by (simp add: ex_defs run_simps)
  from answered_requests_keep_wf [OF this] have "wf_db ?d"
    using wf_empty_db by (simp add: start_tx_def)
  moreover have "answerInitialized (\<lambda>_. True) 0 (Protocol05 (ApplyStreamMembers (Arr [ex_delta ''b'']) None)) (start_tx ?d) =
      Inr (APositions [Some \<lparr>p_stream = js ''b'', p_key = (js ''Todo'', js ''k''), p_cursor = 1, p_kind = Upsert\<rparr>],
        start_tx ex_tables)"
    by (simp add: ex_defs run_simps)
  ultimately show ?thesis using answered_requests_keep_wf by (fastforce simp: start_tx_def)
qed

section \<open>Batches and their results\<close>

text \<open>A Store with Batch 1 of two calls open, and two results.\<close>

definition ex_result :: "int \<Rightarrow> jsv" where
  "ex_result m = Obj [(js ''mutationId'', Num (JsInt m))]"

definition ex_store :: db where
  "ex_store = V05_STORE_INSERT empty_db (js ''store'') (js ''user'') (js ''s'')"

definition ex_open :: db where
  "ex_open = ex_store\<lparr>axton_store := [(js ''store'',
     (new_store (js ''user'') (js ''s''))\<lparr>current_digest := Some (js ''d''), current_count := Some 2\<rparr>)]\<rparr>"

definition ex_closed :: db where
  "ex_closed = ex_store\<lparr>axton_store := [(js ''store'',
     (new_store (js ''user'') (js ''s''))\<lparr>last_processed_batch_id := 1, last_digest := Some (js ''d''), last_count := Some 2\<rparr>)],
     axton_mutation_result := [((js ''store'', 1, 0), (7, ex_result 7)), ((js ''store'', 1, 1), (8, ex_result 8))]\<rparr>"

lemmas store_run =
  ex_store_def ex_open_def ex_closed_def ex_result_def V05_STORE_INSERT_def new_store_def beginBatch_def V05_BATCH_BEGIN_def put_store_def
  store_check_def prune_results_def saveResults_def V05_RESULTS_SAVE_def advance_store_def insert_result_def
  mutation_id_def enumerate_simps saveResult_def V05_RESULT_SAVE_def

lemma ex_begin: "beginBatch (js ''store'') 1 (js ''d'') 2 ex_store = Inr ex_open"
  by (simp add: store_run run_simps)

lemma ex_save: "saveResults (js ''store'') 1 0 2 (js ''d'') (Arr [ex_result 7, ex_result 8]) ex_open = Inr ex_closed"
  by (simp add: store_run run_simps)

lemma ex_store_wf: "wf_db ex_store"
  unfolding ex_store_def
  by (rule wf_db_stores_only [OF wf_empty_db])
     (use wf_empty_db in \<open>simp_all add: V05_STORE_INSERT_def wf_V05_STORE_INSERT [unfolded V05_STORE_INSERT_def] wf_db_def\<close>)

lemma ex_open_wf: "wf_db ex_open"
  using wf_answer05 [OF ex_store_wf, of "\<lambda>_. True" 0 "BeginBatch (js ''store'') 1 (js ''d'') 2"] ex_begin
  by (simp add: done_with_def)





text \<open>The Batch is open, or it is the last one the Store processed.\<close>

definition admitted :: "db \<Rightarrow> jsstr \<Rightarrow> int \<Rightarrow> bool" where
  "admitted d i batch =
     (case map_of (axton_store d) i of
        None \<Rightarrow> False
      | Some r \<Rightarrow> last_processed_batch_id r = batch \<or> last_processed_batch_id r = batch - 1 \<and> current_digest r \<noteq> None)"

lemma beginBatch_admitted: "beginBatch i batch digest count d = Inr d' \<Longrightarrow> admitted d' i batch"
  by (auto simp: beginBatch_def V05_BATCH_BEGIN_def bind_res_Inr_iff put_store_def admitted_def map_simps
      split: option.splits if_splits)

lemma saveResults_admitted:
  assumes "saveResults i batch ordinal count digest vs d = Inr d'" and "admitted d i batch"
  shows "admitted d' i batch"
proof (cases "d' = d")
  case False
  with assms(1) obtain r d1 xs n where r: "map_of (axton_store d) i = Some r" "last_processed_batch_id r = batch - 1"
      "current_digest r \<noteq> None"
    and p: "put_store i (advance_store batch n count r) d = Inr d1" "foldM (insert_result i batch) d1 xs = Inr d'"
    by (auto simp: saveResults_def positiveCounter_def V05_RESULTS_SAVE_def bind_res_Inr_iff split: if_splits option.splits)
  have "axton_store d' = mput i (advance_store batch n count r) (axton_store d)"
    using foldM_insert_result [OF p(2)] p(1) by (auto simp: res_simps)
  then show ?thesis using r by (auto simp: admitted_def advance_store_def map_simps)
qed (use assms(2) in simp)

lemma saveGroups_admitted:
  "saveGroups i batch ordinal count digest vss d = Inr d' \<Longrightarrow> admitted d i batch \<Longrightarrow> admitted d' i batch"
  by (induction vss arbitrary: d ordinal) (auto simp: bind_res_Inr_iff intro: saveResults_admitted)

text \<open>
  C4: A Batch is admitted at most once: after it was admitted, and whatever groups of
  it were saved since, admitting it again is refused, under any digest and count.
\<close>

theorem batch_admitted_once:
  assumes "beginBatch i batch digest count d = Inr d1"
    and "saveGroups i batch ordinal count digest vss d1 = Inr d2"
  shows "beginBatch i batch digest' count' d2 = Inl BatchAdmissionChanged"
  using saveGroups_admitted [OF assms(2) beginBatch_admitted [OF assms(1)]]
  by (auto simp: admitted_def beginBatch_def V05_BATCH_BEGIN_def split: option.splits)

theorem batch_admitted_once_witness:
  "beginBatch (js ''store'') 1 (js ''d'') 2 ex_closed = Inl BatchAdmissionChanged"
  by (rule batch_admitted_once [OF ex_begin, of 0 "[[ex_result 7, ex_result 8]]"]) (simp add: ex_save)

section \<open>Publication and delivery\<close>

text \<open>
  C5: On well-formed tables the single-statement path of a publication to one Stream
  answers what the general path answers, on every request: the same positions and
  tables, or the same error.
\<close>

theorem fast_path_is_general:
  assumes "wf_db d"
  shows "applyStreamMembers rs scope d = applyStreamMembersGeneral rs scope d"
  by (rule applyStreamMembers_general [OF assms])

theorem fast_path_is_general_witness:
  "applyStreamMembers (Arr [ex_delta ''b'']) None ex_tables = applyStreamMembersGeneral (Arr [ex_delta ''b'']) None ex_tables"
proof -
  have "wf_db ex_tables"
    using executeAll_covered [OF _ ex_run, of empty_db] covered_start [OF wf_empty_db]
    by (auto simp: covered_def start_tx_def new_session_def)
  then show ?thesis by (rule fast_path_is_general)
qed

text \<open>
  C25: A cursor is reserved once per Stream and publication scope: reserving again
  under the same scope answers the same cursor and changes nothing, and a scope that has
  no reservation yet gets a cursor past every one reserved before.
\<close>

theorem cursor_once_per_scope:
  assumes "wf_db d" and "V05_RESERVE_CURSOR d s scope = (Some c, d1)"
    and "V05_RESERVE_CURSOR d1 s scope' = (Some c', d2)"
  shows "(scope' = scope \<longrightarrow> c' = c \<and> d2 = d1) \<and>
         (map_of (publication_cursor d1) (s, scope') = None \<longrightarrow> c' = head_of d1 s + 1 \<and> c < c')"
proof -
  have "below_head d1 s c" using reserve_below [OF _ assms(2)] assms(1) by (simp add: wf_db_def)
  then have "c \<le> head_of d1 s" by (auto simp: below_head_def head_of_def split: option.splits)
  then show ?thesis using reserve_reuse [OF assms(2)] reserve_fresh [OF _ assms(3)] assms(3) by auto
qed

theorem cursor_once_per_scope_witness:
  "let (c, d1) = V05_RESERVE_CURSOR empty_db (js ''b'') (js ''x''); (c', d2) = V05_RESERVE_CURSOR d1 (js ''b'') (js ''y'')
   in c = Some 1 \<and> c' = Some (head_of d1 (js ''b'') + 1)"
proof -
  define d1 where "d1 = empty_db\<lparr>axton_stream := [(js ''b'', 1)], publication_cursor := [((js ''b'', js ''x''), 1)]\<rparr>"
  have one: "V05_RESERVE_CURSOR empty_db (js ''b'') (js ''x'') = (Some 1, d1)"
    by (simp add: V05_RESERVE_CURSOR_def empty_db_def d1_def)
  obtain d2 where two: "V05_RESERVE_CURSOR d1 (js ''b'') (js ''y'') = (Some 2, d2)"
    by (simp add: V05_RESERVE_CURSOR_def d1_def)
  show ?thesis using cursor_once_per_scope [OF wf_empty_db one two] one two by (simp add: d1_def)
qed

text \<open>
  C10: A delivery page leaves nothing behind: it never exceeds the capacity, it is in
  cursor order, every candidate at or below a cursor it reaches is on it, and it
  holds every candidate unless it already exceeds the page size asked for. So a client
  that continues after the last cursor of a page misses no change.
\<close>

theorem delivery_page_complete:
  assumes "answer05 key_ok now (DeliveryCandidates s after models ks capacity pageSize) d = Inr (ACandidates (Some out), d')"
  shows "int (length out) \<le> min capacity 100000 \<and>
    complete_page (select_candidates d s after models (case ks of None \<Rightarrow> [] | Some k \<Rightarrow> k)) out \<and>
    (set out = set (select_candidates d s after models (case ks of None \<Rightarrow> [] | Some k \<Rightarrow> k))
     \<or> (\<exists>n. pageSize = Some n \<and> n < int (length out)))"
  using assms deliveryCandidates_complete [of s after models ks capacity pageSize d out]
  by (auto simp: reading_def bind_res_Inr_iff)

theorem delivery_page_complete_witness:
  "complete_page (select_candidates ex_tables (js ''b'') 0 None []) [\<lparr>c_key = (js ''Todo'', js ''k''), c_cursor = 1, c_kind = Upsert\<rparr>]"
proof -
  have "answer05 (\<lambda>_. True) 0 (DeliveryCandidates (js ''b'') 0 None None 10 (Some 1)) ex_tables =
      Inr (ACandidates (Some [\<lparr>c_key = (js ''Todo'', js ''k''), c_cursor = 1, c_kind = Upsert\<rparr>]), ex_tables)"
    by (simp add: ex_defs run_simps deliveryCandidates_def select_candidates_def fetch_with_ties_def)
  from delivery_page_complete [OF this] show ?thesis by simp
qed

text \<open>
  Guards answer in request order whether each record is represented, an ensured
  one always; and after the call exactly the records that were represented before or
  were asked to be ensured are. A lock creates nothing.
\<close>

lemma guards_answer:
  assumes "checkGuards None rs = Inr ()" and "distinct (map fst rs)" and "guardLoop key_ok d rs = Inr (bs, d')"
  shows "bs = map (\<lambda>r. snd r = js ''ensure'' \<or> present d (fst r)) rs \<and>
    (\<forall>k. present d' k \<longleftrightarrow> present d k \<or> (k, js ''ensure'') \<in> set rs)"
proof -
  have "snd r = js ''ensure'' \<or> snd r = js ''lock''" if "checkGuards p rs = Inr ()" "r \<in> set rs" for p r
    using that by (induction p rs rule: checkGuards.induct) (auto split: if_splits)
  then have mode: "snd r \<noteq> js ''lock'' \<longleftrightarrow> snd r = js ''ensure''" if "r \<in> set rs" for r
    using assms(1) that by fastforce
  then have "ensured rs = {k. (k, js ''ensure'') \<in> set rs}" by (force simp: ensured_def)
  moreover have "map (\<lambda>r. snd r \<noteq> js ''lock'' \<or> present d (fst r)) rs = map (\<lambda>r. snd r = js ''ensure'' \<or> present d (fst r)) rs"
    by (intro map_cong refl) (use mode in blast)
  ultimately show ?thesis using guardLoop_answers [OF assms(3,2)] by simp
qed

text \<open>
  A position request of any size answers each of its keys in order as a
  single read would, however the statements batch them, and fails where the first
  single read would.
\<close>

lemma positions_pointwise:
  "targetPositions required s (Arr vs) d =
     bind_res (traverse (keyOf []) vs) (\<lambda>records.
       traverse (\<lambda>(k, _). positionOf required s (k, V05_POSITION_READ d s k)) records)"
  by (simp add: targetPositions_def arrayOf_def positions.batched traverse_map split_def)

section \<open>Canonical order\<close>

text \<open>
  \<open>byteOrder\<close> compares two Stream names the way the database compares them
  under \<^verbatim>\<open>COLLATE "C"\<close>: its sign is the order of the UTF-8 encodings, and on
  valid UTF-16 it is zero only for equal names.
\<close>

lemma byteOrder_is_collation:
  "(byteOrder a b < 0 \<longleftrightarrow> utf8_bytes a < utf8_bytes b) \<and> (0 < byteOrder a b \<longleftrightarrow> utf8_bytes b < utf8_bytes a)
   \<and> (byteOrder a b = 0 \<longleftrightarrow> utf8_bytes a = utf8_bytes b)
   \<and> (if valid16 a \<and> valid16 b then (byteOrder a b = 0) = (a = b) else True)"
  by (simp add: byteOrder_neg_iff byteOrder_pos_iff byteOrder_0_bytes utf8_bytes_inj)

text \<open>
  \<open>lockStreams\<close> accepts exactly the non-empty lists of non-blank names that are
  strictly ascending in the byte order, so every transaction takes its Stream locks in one global order.
\<close>

lemma lock_order:
  "lockStreams (Obj [(js ''op'', Str (js ''lockStreams'')), (js ''streams'', Arr (map Str ss))]) d = Inr d \<longleftrightarrow>
   ss \<noteq> [] \<and> list_all (\<lambda>s. trim s \<noteq> []) ss \<and> sorted_wrt (\<lambda>a b. utf8_bytes a < utf8_bytes b) ss"
proof -
  have t: "traverse (\<lambda>x. case x of Str s \<Rightarrow> Inr s | _ \<Rightarrow> Inl (MustBeStrings what)) (map Str ss) = Inr ss" for what
    by (induction ss) simp_all
  have n: "(\<exists>ys. traverse (\<lambda>s. streamName (Str s)) ss = Inr ys) \<longleftrightarrow> list_all (\<lambda>s. trim s \<noteq> []) ss"
    by (induction ss) (auto simp: bind_res_Inr_iff streamName_def)
  have "distinct ss" if "sorted_wrt (\<lambda>a b. utf8_bytes a < utf8_bytes b) ss"
    using that by (induction ss) auto
  then show ?thesis
    using n js_set_size_iff [of ss]
    by (auto simp: lockStreams_def fieldsOf_def strings_def t bind_res_Inr_iff canonicalStreams_iff)
qed

text \<open>
  The Streams a publication reserves cursors on are distinct and in the order
  \<open>lockStreams\<close> requires, so reserving them takes the row locks in the same global order.
\<close>

lemma reservations_in_lock_order:
  assumes "publishStreams ds = Inr streams" and "list_all valid16 streams"
  shows "canonicalStreams streams \<and> set streams = {s. \<exists>x. x \<in> set ds \<and> truthy (d_publish x) \<and> d_stream x = Str s}"
proof -
  obtain ss where "streams = sortStreams (js_set ss)"
    using assms(1) by (auto simp: publishStreams_def bind_res_Inr_iff)
  then show ?thesis
    using canonical_sortStreams [of "js_set ss"] assms(2) publishStreams_set [OF assms(1)]
    by (auto simp: list_all_iff)
qed


section \<open>The adapter\<close>

text \<open>
  No statement of a request runs on a historical layout: until a startup check
  has found a current one, every call is refused and the check is made again; once it
  has, every later call is answered without another check.
\<close>

lemma adapter_checks_layout:
  "persistenceCall legacy key_ok now initializing req t =
     (if initializing \<or> legacy = Some False then (answerInitialized key_ok now req t, True) else (Inl LegacyLayout, False))"
  by (simp add: persistenceCall_def initialize_def requireFreshLayout_def guard_res_def)

end
