(* ===== verification/Retry.thy ===== *)
theory Retry
  imports JsValue Complex_Main
begin

text \<open>
  Transaction retries: \<^verbatim>\<open>packages/backend/server/bindings/retryable.mts\<close> and
  \<^verbatim>\<open>packages/backend/postgres/src/driver.mts\<close>, and the transaction runner of
  \<^verbatim>\<open>pg.mts\<close> that uses both (\<^verbatim>\<open>prisma.mts\<close> and \<^verbatim>\<open>drizzle.mts\<close> pass the same attempt to
  their tool). Error objects may refer to each other in a cycle, so they live in a heap.
\<close>

section \<open>Retryable errors\<close>

text \<open>A value an error property holds: \<open>undefined\<close>, a value that is no object, or an object.\<close>

datatype eref = EUndefined | EPrim | ERef nat

text \<open>The properties the classifier reads; \<open>None\<close> is anything but a string.\<close>

record errobj =
  e_code :: "jsstr option"
  e_kind :: "jsstr option"
  e_meta_code :: "jsstr option"
  e_driver :: eref
  e_cause :: eref

type_synonym eheap = "errobj list"

definition ownRetryable :: "errobj \<Rightarrow> bool" where
  "ownRetryable v =
     (e_code v = Some (js ''40001'') \<or> e_code v = Some (js ''40P01'') \<or> e_code v = Some (js ''P2034'')
      \<or> e_code v = Some (js ''transaction.conflict'')
      \<or> e_code v = Some (js ''P2010'') \<and> (e_meta_code v = Some (js ''40001'') \<or> e_meta_code v = Some (js ''40P01''))
      \<or> e_kind v = Some (js ''TransactionWriteConflict''))"

text \<open>
  The loop, with the objects this call has seen. The recursive call on
  \<open>meta.driverAdapterError\<close> starts with an empty \<open>seen\<close>; \<open>None\<close> is a call that does not return.
\<close>

partial_function (option) retryLoop :: "eheap \<Rightarrow> nat list \<Rightarrow> eref \<Rightarrow> bool option" where
  "retryLoop h seen current =
     (case current of
        ERef a \<Rightarrow>
          if a \<in> set seen \<or> length h \<le> a then Some False
          else if ownRetryable (h ! a) then Some True
          else if e_driver (h ! a) = EUndefined then retryLoop h (a # seen) (e_cause (h ! a))
          else Option.bind (retryLoop h [] (e_driver (h ! a)))
                 (\<lambda>b. if b then Some True else retryLoop h (a # seen) (e_cause (h ! a)))
      | _ \<Rightarrow> Some False)"

definition isRetryableTransactionError :: "eheap \<Rightarrow> eref \<Rightarrow> bool option" where
  "isRetryableTransactionError h error = retryLoop h [] error"

section \<open>Retries\<close>

definition RETRY_BACKOFF_BASE_MS :: int where "RETRY_BACKOFF_BASE_MS = 20"
definition RETRY_BACKOFF_CAP_MS :: int where "RETRY_BACKOFF_CAP_MS = 400"

text \<open>\<open>random\<close> is the value \<open>Math.random()\<close> answers.\<close>

definition retryDelay :: "rat \<Rightarrow> nat \<Rightarrow> int" where
  "retryDelay random retry =
     \<lfloor>random * of_int (min RETRY_BACKOFF_CAP_MS (RETRY_BACKOFF_BASE_MS * 2 ^ retry))\<rfloor>"

text \<open>
  \<open>attempt n\<close> is what the attempt number \<open>n\<close> settles with. Answers the outcome and the waits
  the loop made, in order; a delay that is not positive is not waited.
\<close>

function withRetriesFrom ::
  "(nat \<Rightarrow> ('e, 'r) res) \<Rightarrow> ('e \<Rightarrow> bool) \<Rightarrow> nat \<Rightarrow> (nat \<Rightarrow> int) \<Rightarrow> nat \<Rightarrow> ('e, 'r) res \<times> int list" where
  "withRetriesFrom attempt isRetryable retries delay n =
     (case attempt n of
        Inr r \<Rightarrow> (Inr r, [])
      | Inl e \<Rightarrow>
          if \<not> isRetryable e \<or> retries \<le> n then (Inl e, [])
          else (case withRetriesFrom attempt isRetryable retries delay (Suc n) of
                  (out, waits) \<Rightarrow> (out, (if 0 < delay n then [delay n] else []) @ waits)))"
  by pat_completeness auto
termination
  by (relation "measure (\<lambda>(_, _, retries, _, n). retries - n)") auto

declare withRetriesFrom.simps [simp del]

definition withRetries ::
  "(nat \<Rightarrow> ('e, 'r) res) \<Rightarrow> ('e \<Rightarrow> bool) \<Rightarrow> nat \<Rightarrow> (nat \<Rightarrow> int) \<Rightarrow> ('e, 'r) res \<times> int list" where
  "withRetries attempt isRetryable retries delay = withRetriesFrom attempt isRetryable retries delay 0"

section \<open>The node-postgres runner\<close>

text \<open>What the runner does to the pool and its client, in order.\<close>

datatype 'e pg_event = Connect | Command string | Body | Release "'e option"

fun isRelease :: "'e pg_event \<Rightarrow> bool" where
  "isRelease (Release _) = True"
| "isRelease _ = False"

text \<open>
  One attempt. The parameters are how \<open>connect\<close>, the three commands and the body settle.
  A failed rollback hands its error to \<open>release\<close>.
\<close>

definition pgAttempt ::
  "('e, unit) res \<Rightarrow> ('e, unit) res \<Rightarrow> ('e, 'r) res \<Rightarrow> ('e, unit) res \<Rightarrow> ('e, unit) res \<Rightarrow> ('e, 'r) res \<times> 'e pg_event list" where
  "pgAttempt connect begin_tx body commit rollback_tx =
     (case connect of
        Inl e \<Rightarrow> (Inl e, [Connect])
      | Inr _ \<Rightarrow>
          (case begin_tx of
             Inl e \<Rightarrow> (Inl e, [Connect, Command ''BEGIN'', Release None])
           | Inr _ \<Rightarrow>
               (let broken = (case rollback_tx of Inl e \<Rightarrow> Some e | Inr _ \<Rightarrow> None) in
                case body of
                  Inl e \<Rightarrow> (Inl e, [Connect, Command ''BEGIN'', Body, Command ''ROLLBACK'', Release broken])
                | Inr r \<Rightarrow>
                    (case commit of
                       Inl e \<Rightarrow> (Inl e, [Connect, Command ''BEGIN'', Body, Command ''COMMIT'', Command ''ROLLBACK'', Release broken])
                     | Inr _ \<Rightarrow> (Inr r, [Connect, Command ''BEGIN'', Body, Command ''COMMIT'', Release None])))))"

text \<open>\<open>pg\<close> bigint parameters are sent as text; \<open>show_int\<close> is \<open>BigInt.prototype.toString\<close>.\<close>

definition show_int :: "int \<Rightarrow> jsstr" where
  "show_int n = (if n < 0 then 45 # show_nat (nat (- n)) else show_nat (nat n))"

definition bindValue :: "jsv \<Rightarrow> jsv" where
  "bindValue v = (case v of Bigint n \<Rightarrow> Str (show_int n) | _ \<Rightarrow> v)"

definition bind :: "jsv list \<Rightarrow> jsv list" where
  "bind params = map bindValue params"

section \<open>Which errors the classifier decides\<close>

text \<open>The objects an error reaches through \<open>cause\<close> and \<open>driverAdapterError\<close>.\<close>

inductive reaches :: "eheap \<Rightarrow> eref \<Rightarrow> nat \<Rightarrow> bool" for h where
  here: "a < length h \<Longrightarrow> reaches h (ERef a) a"
| cause: "a < length h \<Longrightarrow> reaches h (e_cause (h ! a)) b \<Longrightarrow> reaches h (ERef a) b"
| driver: "a < length h \<Longrightarrow> reaches h (e_driver (h ! a)) b \<Longrightarrow> reaches h (ERef a) b"

lemma retryLoop_sound:
  assumes "retryLoop h seen v = Some b"
  shows "b \<longrightarrow> (\<exists>a. reaches h v a \<and> ownRetryable (h ! a))"
proof (rule retryLoop.raw_induct [where P = "\<lambda>h seen v b. b \<longrightarrow> (\<exists>a. reaches h v a \<and> ownRetryable (h ! a))", OF _ assms])
  fix f h seen v b
  assume ih: "\<And>h seen v b. f h seen v = Some b \<Longrightarrow> b \<longrightarrow> (\<exists>a. reaches h v a \<and> ownRetryable (h ! a))"
    and step: "(case v of
        ERef a \<Rightarrow>
          if a \<in> set seen \<or> length h \<le> a then Some False
          else if ownRetryable (h ! a) then Some True
          else if e_driver (h ! a) = EUndefined then f h (a # seen) (e_cause (h ! a))
          else Option.bind (f h [] (e_driver (h ! a)))
                 (\<lambda>b. if b then Some True else f h (a # seen) (e_cause (h ! a)))
      | _ \<Rightarrow> Some False) = Some b"
  show "b \<longrightarrow> (\<exists>a. reaches h v a \<and> ownRetryable (h ! a))"
  proof
    assume b
    then obtain a where v: "v = ERef a" and a: "a < length h"
      using step by (cases v) (auto split: if_splits)
    have "ownRetryable (h ! a) \<or> (\<exists>c. reaches h (e_cause (h ! a)) c \<and> ownRetryable (h ! c))
        \<or> (\<exists>c. reaches h (e_driver (h ! a)) c \<and> ownRetryable (h ! c))"
      using step ih \<open>b\<close> v by (auto simp: bind_eq_Some_conv split: if_splits)
    then show "\<exists>a. reaches h v a \<and> ownRetryable (h ! a)"
      unfolding v using a by (blast intro: reaches.intros)
  qed
qed

text \<open>
  A rank that \<open>driverAdapterError\<close> lowers and \<open>cause\<close> never raises: no cycle goes
  through \<open>driverAdapterError\<close>, while \<open>cause\<close> may cycle.
\<close>

definition ranked :: "(nat \<Rightarrow> nat) \<Rightarrow> eheap \<Rightarrow> bool" where
  "ranked rank h = list_all (\<lambda>a.
     (case e_driver (h ! a) of ERef b \<Rightarrow> rank b < rank a | _ \<Rightarrow> True) \<and>
     (case e_cause (h ! a) of ERef b \<Rightarrow> rank b \<le> rank a | _ \<Rightarrow> True)) [0..<length h]"

definition eref_rank :: "(nat \<Rightarrow> nat) \<Rightarrow> eref \<Rightarrow> nat" where
  "eref_rank rank v = (case v of ERef a \<Rightarrow> Suc (rank a) | _ \<Rightarrow> 0)"

lemma ranked_edges:
  assumes "ranked rank h" and "a < length h"
  shows "eref_rank rank (e_driver (h ! a)) < eref_rank rank (ERef a)"
    and "eref_rank rank (e_cause (h ! a)) \<le> eref_rank rank (ERef a)"
proof -
  have "a \<in> set [0..<length h]" using assms(2) by simp
  then have "(case e_driver (h ! a) of ERef b \<Rightarrow> rank b < rank a | _ \<Rightarrow> True) \<and>
      (case e_cause (h ! a) of ERef b \<Rightarrow> rank b \<le> rank a | _ \<Rightarrow> True)"
    using assms(1) unfolding ranked_def list_all_iff by blast
  then show "eref_rank rank (e_driver (h ! a)) < eref_rank rank (ERef a)"
    and "eref_rank rank (e_cause (h ! a)) \<le> eref_rank rank (ERef a)"
    by (auto simp: eref_rank_def split: eref.splits)
qed

lemma retryLoop_returns:
  assumes "ranked rank h" and "eref_rank rank v \<le> n"
  shows "\<exists>b. retryLoop h seen v = Some b"
  using assms(2)
proof (induction n arbitrary: v seen rule: less_induct)
  case (less n)
  have "card ({..<length h} - set seen) = k \<Longrightarrow> eref_rank rank v \<le> n \<Longrightarrow> \<exists>b. retryLoop h seen v = Some b" for k
  proof (induction k arbitrary: v seen rule: less_induct)
    case inner: (less k)
    show ?case
    proof (cases v)
      case EUndefined
      have "retryLoop h seen v = Some False" unfolding EUndefined by (subst retryLoop.simps) simp
      then show ?thesis by blast
    next
      case EPrim
      have "retryLoop h seen v = Some False" unfolding EPrim by (subst retryLoop.simps) simp
      then show ?thesis by blast
    next
      case (ERef a)
      show ?thesis
      proof (cases "a \<in> set seen \<or> length h \<le> a \<or> ownRetryable (h ! a)")
        case True
        then show ?thesis using ERef by (subst retryLoop.simps) auto
      next
        case False
        then have a: "a < length h" "a \<notin> set seen" by auto
        have "card ({..<length h} - set (a # seen)) < k"
          using a inner.prems(1) by (intro psubset_card_mono [of "{..<length h} - set seen", simplified inner.prems(1)]) auto
        moreover have "eref_rank rank (e_cause (h ! a)) \<le> n"
          using ranked_edges(2) [OF assms(1) a(1)] inner.prems(2) ERef by simp
        ultimately obtain c where c: "retryLoop h (a # seen) (e_cause (h ! a)) = Some c"
          using inner.IH by blast
        have "eref_rank rank (e_driver (h ! a)) < n"
          using ranked_edges(1) [OF assms(1) a(1)] inner.prems(2) ERef by simp
        then obtain b where "retryLoop h [] (e_driver (h ! a)) = Some b"
          using less.IH by blast
        then show ?thesis using ERef False c by (subst retryLoop.simps) auto
      qed
    qed
  qed
  then show ?case using less.prems by blast
qed

text \<open>One object whose \<open>driverAdapterError\<close> is itself.\<close>

definition selfAdapter :: eheap where
  "selfAdapter = [\<lparr>e_code = Some (js ''P2010''), e_kind = None, e_meta_code = None, e_driver = ERef 0, e_cause = EUndefined\<rparr>]"

lemma retryLoop_selfAdapter:
  assumes "retryLoop h seen v = Some b"
  shows "\<not> (h = selfAdapter \<and> v = ERef 0 \<and> 0 \<notin> set seen)"
proof (rule retryLoop.raw_induct [where P = "\<lambda>h seen v b. \<not> (h = selfAdapter \<and> v = ERef 0 \<and> 0 \<notin> set seen)", OF _ assms])
  fix f h seen v b
  assume ih: "\<And>h seen v b. f h seen v = Some b \<Longrightarrow> \<not> (h = selfAdapter \<and> v = ERef 0 \<and> 0 \<notin> set seen)"
    and step: "(case v of
        ERef a \<Rightarrow>
          if a \<in> set seen \<or> length h \<le> a then Some False
          else if ownRetryable (h ! a) then Some True
          else if e_driver (h ! a) = EUndefined then f h (a # seen) (e_cause (h ! a))
          else Option.bind (f h [] (e_driver (h ! a)))
                 (\<lambda>b. if b then Some True else f h (a # seen) (e_cause (h ! a)))
      | _ \<Rightarrow> Some False) = Some b"
  show "\<not> (h = selfAdapter \<and> v = ERef 0 \<and> 0 \<notin> set seen)"
  proof
    assume a: "h = selfAdapter \<and> v = ERef 0 \<and> 0 \<notin> set seen"
    have self: "\<not> length selfAdapter \<le> 0" "\<not> ownRetryable (selfAdapter ! 0)" "e_driver (selfAdapter ! 0) = ERef 0"
      by (simp_all add: selfAdapter_def ownRetryable_def)
    have "f selfAdapter [] (ERef 0) \<noteq> None"
    proof
      assume "f selfAdapter [] (ERef 0) = None"
      with step a self show False by simp
    qed
    then obtain c where "f selfAdapter [] (ERef 0) = Some c" by auto
    from ih [OF this] show False by simp
  qed
qed

section \<open>Properties\<close>



text \<open>
  A \<open>driverAdapterError\<close> cycle is not caught: the recursive call starts with an
  empty \<open>seen\<close>, so on an error that is its own \<open>driverAdapterError\<close> the classifier never returns.
\<close>

lemma adapter_cycle_diverges: "isRetryableTransactionError selfAdapter (ERef 0) = None"
  using retryLoop_selfAdapter [of selfAdapter "[]" "ERef 0"]
  by (cases "retryLoop selfAdapter [] (ERef 0)") (auto simp: isRetryableTransactionError_def)

lemma withRetriesFrom_spec:
  "\<exists>k. n \<le> k \<and> k \<le> max n retries \<and> fst (withRetriesFrom attempt isRetryable retries delay n) = attempt k \<and>
     (\<forall>j. n \<le> j \<and> j < k \<longrightarrow> (\<exists>e. attempt j = Inl e \<and> isRetryable e)) \<and>
     (\<forall>e. attempt k = Inl e \<longrightarrow> \<not> isRetryable e \<or> retries \<le> k) \<and>
     snd (withRetriesFrom attempt isRetryable retries delay n) = filter ((<) 0) (map delay [n..<k])"
proof (induction attempt isRetryable retries delay n rule: withRetriesFrom.induct)
  case (1 attempt isRetryable retries delay n)
  show ?case
  proof (cases "\<exists>e. attempt n = Inl e \<and> isRetryable e \<and> n < retries")
    case False
    then have "withRetriesFrom attempt isRetryable retries delay n = (attempt n, [])"
      by (subst withRetriesFrom.simps) (auto split: sum.splits)
    with False show ?thesis by (intro exI [of _ n]) auto
  next
    case True
    then obtain e where e: "attempt n = Inl e" "isRetryable e" "n < retries" by blast
    then obtain k where k: "Suc n \<le> k" "k \<le> max (Suc n) retries"
        "fst (withRetriesFrom attempt isRetryable retries delay (Suc n)) = attempt k"
        "\<forall>j. Suc n \<le> j \<and> j < k \<longrightarrow> (\<exists>e. attempt j = Inl e \<and> isRetryable e)"
        "\<forall>e. attempt k = Inl e \<longrightarrow> \<not> isRetryable e \<or> retries \<le> k"
        "snd (withRetriesFrom attempt isRetryable retries delay (Suc n)) = filter ((<) 0) (map delay [Suc n..<k])"
      using "1.IH" [of e] by auto
    have step: "withRetriesFrom attempt isRetryable retries delay n =
        (attempt k, (if 0 < delay n then [delay n] else []) @ filter ((<) 0) (map delay [Suc n..<k]))"
      using e k(3,6) by (subst withRetriesFrom.simps) (auto split: prod.splits)
    have "[n..<k] = n # [Suc n..<k]" using k(1) by (simp add: upt_conv_Cons)
    moreover have "\<exists>e. attempt j = Inl e \<and> isRetryable e" if "n \<le> j" "j < k" for j
      using k(4) e that by (cases "j = n") auto
    ultimately show ?thesis using k e step by (intro exI [of _ k]) auto
  qed
qed

text \<open>
  A transaction runs at most \<open>retries + 1\<close> times. It answers the attempt \<open>k\<close> that
  ended it: every earlier one failed retryably, and that one succeeded, failed for good
  or was the last allowed; the waits are the positive delays before the retries, in order.
\<close>

lemma retries_bounded:
  "\<exists>k. k \<le> retries \<and> fst (withRetries attempt isRetryable retries delay) = attempt k \<and>
     list_all (\<lambda>j. case attempt j of Inl e \<Rightarrow> isRetryable e | Inr _ \<Rightarrow> False) [0..<k] \<and>
     (case attempt k of Inl e \<Rightarrow> (if isRetryable e then retries \<le> k else True) | Inr _ \<Rightarrow> True) \<and>
     snd (withRetries attempt isRetryable retries delay) = filter ((<) 0) (map delay [0..<k])"
proof -
  obtain k where "k \<le> retries" "fst (withRetries attempt isRetryable retries delay) = attempt k"
      "\<forall>j < k. \<exists>e. attempt j = Inl e \<and> isRetryable e" "\<forall>e. attempt k = Inl e \<longrightarrow> \<not> isRetryable e \<or> retries \<le> k"
      "snd (withRetries attempt isRetryable retries delay) = filter ((<) 0) (map delay [0..<k])"
    using withRetriesFrom_spec [of 0 retries attempt isRetryable delay] by (auto simp: withRetries_def)
  then show ?thesis by (intro exI [of _ k]) (auto simp: list_all_iff split: sum.splits)
qed

lemma retryDelay_bounds:
  assumes "0 \<le> random" and "random < 1"
  shows "0 \<le> retryDelay random n \<and> retryDelay random n < min 400 (20 * 2 ^ n)"
proof -
  let ?c = "min 400 (20 * 2 ^ n) :: int"
  have c: "0 < ?c" by simp
  have "random * of_int ?c < of_int ?c" using assms(2) c by (simp del: of_int_min)
  then have "\<lfloor>random * of_int ?c\<rfloor> < ?c" by (simp only: floor_less_iff)
  moreover have "0 \<le> \<lfloor>random * of_int ?c\<rfloor>" using assms(1) c by (simp del: of_int_min)
  ultimately show ?thesis
    by (simp only: retryDelay_def RETRY_BACKOFF_CAP_MS_def RETRY_BACKOFF_BASE_MS_def)
qed

text \<open>
  Full jitter stays within its bounds: retry \<open>n\<close> waits less than
  \<open>min 400 (20 * 2 ^ n)\<close> milliseconds, and three retries wait less than 140 in all.
\<close>

lemma retry_delay_bounded:
  assumes "0 \<le> random" and "random < 1"
  shows "0 \<le> retryDelay random n \<and> retryDelay random n < min 400 (20 * 2 ^ n) \<and>
    sum_list (map (retryDelay random) [0..<3]) < 140"
  using retryDelay_bounds [OF assms, of n] retryDelay_bounds [OF assms, of 0] retryDelay_bounds [OF assms, of 1]
    retryDelay_bounds [OF assms, of "Suc (Suc 0)"] by (simp add: upt_rec)


text \<open>
  A client taken from the pool is released exactly once, last, on every path; it is
  handed an error exactly when a rollback was tried and failed; a transaction succeeds
  only when its body ran and its commit was acknowledged, and after a begun
  transaction fails a rollback is sent.
\<close>

lemma pg_client_released:
  "case pgAttempt connect begin_tx body commit rollback_tx of
     (out, events) \<Rightarrow>
       (case connect of
          Inl e \<Rightarrow> out = Inl e \<and> events = [Connect]
        | Inr _ \<Rightarrow> hd events = Connect \<and> length (filter isRelease events) = 1 \<and>
             last events = Release (if Command ''ROLLBACK'' \<in> set events
               then (case rollback_tx of Inl e \<Rightarrow> Some e | Inr _ \<Rightarrow> None) else None) \<and>
             (case out of
                Inr r \<Rightarrow> begin_tx = Inr () \<and> body = Inr r \<and> commit = Inr () \<and> Command ''COMMIT'' \<in> set events
              | Inl _ \<Rightarrow> (Command ''ROLLBACK'' \<in> set events \<longleftrightarrow> begin_tx = Inr ())))"
  by (cases connect; cases begin_tx; cases body; cases commit; cases rollback_tx) (simp_all add: pgAttempt_def)

end
