(* ===== verification/Backend.thy ===== *)
theory Backend
  imports Session Retry
begin

text \<open>
  \<^verbatim>\<open>packages/backend/server/api/backend.mts\<close>: what a backend refuses at startup (the
  registrations of every retained version, the commit group size), how it runs one
  operation in a transaction and wakes subscribers after the commit, how a Batch is cut
  into commit groups, and the hub that holds the subscribers.

  Functions an application registers are opaque; \<open>Fun n\<close> names one. Native engine calls
  are parameters.
\<close>

section \<open>Registration\<close>

definition lowerAlpha :: "nat \<Rightarrow> bool" where "lowerAlpha c = (97 \<le> c \<and> c \<le> 122)"
definition digit :: "nat \<Rightarrow> bool" where "digit c = (48 \<le> c \<and> c \<le> 57)"
definition codeChar :: "nat \<Rightarrow> bool" where "codeChar c = (lowerAlpha c \<or> digit c)"

text \<open>\<open>(?:[._-][a-z0-9]+)*$\<close> after a run of code characters; the flag is whether the last one was.\<close>

fun codeTail :: "bool \<Rightarrow> jsstr \<Rightarrow> bool" where
  "codeTail ended [] = ended"
| "codeTail ended (c # cs) =
     (if codeChar c then codeTail True cs else ended \<and> c \<in> {46, 95, 45} \<and> codeTail False cs)"

text \<open>\<open>/^[a-z][a-z0-9]*(?:[._-][a-z0-9]+)*$/\<close>\<close>

definition stableCode :: "jsstr \<Rightarrow> bool" where
  "stableCode s = (case s of [] \<Rightarrow> False | c # cs \<Rightarrow> lowerAlpha c \<and> codeTail True cs)"

datatype berr =
    UnstableCode | FunctionRegistersV1Only | MissingRegistration | MissingVersion nat | NotAFunction nat
  | UnknownVersion jsstr | UnknownLoader jsstr | UnknownOperation jsstr | WrongGroup jsstr
  | GroupSizeRange | GroupsUnavailable | GroupsUnsupported | InvalidGroupResults | AlreadyBound

definition versionKey :: "nat \<Rightarrow> jsstr" where
  "versionKey v = js ''v'' @ show_nat v"

text \<open>\<open>Number(digits)\<close>\<close>

definition digitsVal :: "jsstr \<Rightarrow> nat" where
  "digitsVal ds = foldl (\<lambda>n d. 10 * n + (d - 48)) 0 ds"

text \<open>\<open>/^v[1-9][0-9]*$/\<close>\<close>

definition isVersionKey :: "jsstr \<Rightarrow> bool" where
  "isVersionKey k = (case k of
     v # d # ds \<Rightarrow> v = 118 \<and> 49 \<le> d \<and> d \<le> 57 \<and> list_all digit ds | _ \<Rightarrow> False)"

definition versionEntry :: "jsv \<Rightarrow> (nat, nat) jsmap \<Rightarrow> nat \<Rightarrow> (berr, (nat, nat) jsmap) res" where
  "versionEntry registration table version =
     (case field registration (versionKey version) of
        Undefined \<Rightarrow> Inl (MissingVersion version)
      | Fun f \<Rightarrow> Inr (mput version f table)
      | _ \<Rightarrow> Inl (NotAFunction version))"

definition versioned :: "nat list \<Rightarrow> jsv \<Rightarrow> (berr, (nat, nat) jsmap) res" where
  "versioned versions registration =
     (case registration of
        Fun f \<Rightarrow> if versions = [1] then Inr [(1, f)] else Inl FunctionRegistersV1Only
      | Obj fs \<Rightarrow>
          bind_res (foldM (versionEntry registration) [] versions) (\<lambda>table.
            case find (\<lambda>k. \<not> (isVersionKey k \<and> mhas table (digitsVal (tl k)))) (map fst fs) of
              Some k \<Rightarrow> Inl (UnknownVersion k)
            | None \<Rightarrow> Inr table)
      | _ \<Rightarrow> Inl MissingRegistration)"

datatype call_kind = MutationKind | QueryKind

record operation =
  op_name :: jsstr
  op_version :: nat
  op_kind :: call_kind

text \<open>\<open>[...(m.get(name) ?? []), version].sort((a, b) => a - b)\<close> for each entry in turn.\<close>

definition retain :: "(jsstr \<times> nat) list \<Rightarrow> (jsstr, nat list) jsmap" where
  "retain entries = fold (\<lambda>(name, v) m.
     mput name (sort ((case map_of m name of None \<Rightarrow> [] | Some vs \<Rightarrow> vs) @ [v])) m) entries []"

text \<open>The table key \<open>`${name}:${version}`\<close>.\<close>

definition opKey :: "jsstr \<Rightarrow> nat \<Rightarrow> jsstr" where
  "opKey name version = name @ js '':'' @ show_nat version"

definition addTable :: "jsstr \<Rightarrow> (nat, nat) jsmap \<Rightarrow> (jsstr, nat) jsmap \<Rightarrow> (jsstr, nat) jsmap" where
  "addTable name table handlers = fold (\<lambda>(v, f). mput (opKey name v) f) table handlers"

definition lookupRegistration :: "jsv option \<Rightarrow> jsstr \<Rightarrow> jsv" where
  "lookupRegistration m key = (case m of None \<Rightarrow> Undefined | Some r \<Rightarrow> field r key)"

definition registerName ::
  "jsv option \<Rightarrow> (jsstr, nat) jsmap \<Rightarrow> jsstr \<times> nat list \<Rightarrow> (berr, (jsstr, nat) jsmap) res" where
  "registerName m handlers = (\<lambda>(name, versions).
     bind_res (versioned versions (lookupRegistration m (lowerFirst name))) (\<lambda>table.
       Inr (addTable name table handlers)))"

definition registrationKeys :: "jsv option \<Rightarrow> jsstr list" where
  "registrationKeys m = (case m of None \<Rightarrow> [] | Some r \<Rightarrow> keys r)"

text \<open>One pass of the loop over \<open>["mutation", "query"]\<close>.\<close>

definition registerKind ::
  "operation list \<Rightarrow> call_kind \<Rightarrow> jsv option \<Rightarrow> (jsstr, nat) jsmap \<Rightarrow> (berr, (jsstr, nat) jsmap) res" where
  "registerKind operations kind m handlers =
     (let versions = retain (map (\<lambda>a. (op_name a, op_version a)) (filter (\<lambda>a. op_kind a = kind) operations)) in
      bind_res (foldM (registerName m) handlers versions) (\<lambda>handlers'.
        case find (\<lambda>key. \<not> list_ex (\<lambda>(name, _). lowerFirst name = key) versions) (registrationKeys m) of
          None \<Rightarrow> Inr handlers'
        | Some key \<Rightarrow>
            if list_ex (\<lambda>a. lowerFirst (op_name a) = key) operations
            then Inl (WrongGroup key) else Inl (UnknownOperation key)))"

definition actionHandlers ::
  "operation list \<Rightarrow> jsv option \<Rightarrow> jsv option \<Rightarrow> (berr, (jsstr, nat) jsmap) res" where
  "actionHandlers operations mutations queries =
     bind_res (registerKind operations MutationKind mutations []) (registerKind operations QueryKind queries)"

text \<open>
  Loaders: a key that names no Model is refused; a Model whose loader is absent is
  device-only; the others register every retained version.
\<close>

definition loadedModels :: "jsstr list \<Rightarrow> jsv \<Rightarrow> jsstr list" where
  "loadedModels modelNames loaders = filter (\<lambda>name. field loaders (lowerFirst name) \<noteq> Undefined) modelNames"

definition loaderTable ::
  "jsstr list \<Rightarrow> (jsstr \<times> nat) list \<Rightarrow> jsv \<Rightarrow> (berr, (jsstr, nat) jsmap) res" where
  "loaderTable modelNames retained loaders =
     (case find (\<lambda>key. \<not> list_ex (\<lambda>name. lowerFirst name = key) modelNames) (keys loaders) of
        Some key \<Rightarrow> Inl (UnknownLoader key)
      | None \<Rightarrow>
          foldM (\<lambda>table name. registerName (Some loaders) table
                   (name, case map_of (retain retained) name of None \<Rightarrow> [] | Some vs \<Rightarrow> vs))
            [] (loadedModels modelNames loaders))"

section \<open>Commit groups\<close>

text \<open>\<open>mutationGroupSize\<close>: the option, or 8 when both sides support groups and 1 otherwise.\<close>

definition mutationGroupSize :: "jsnum option \<Rightarrow> bool \<Rightarrow> bool \<Rightarrow> (berr, nat) res" where
  "mutationGroupSize experimental processBatchGroup mutationCommitGroups =
     (case (case experimental of Some n \<Rightarrow> n | None \<Rightarrow> JsInt (if processBatchGroup \<and> mutationCommitGroups then 8 else 1)) of
        JsInt n \<Rightarrow>
          if n < 1 \<or> 32 < n then Inl GroupSizeRange
          else if 1 < n \<and> \<not> processBatchGroup then Inl GroupsUnavailable
          else if 1 < n \<and> \<not> mutationCommitGroups then Inl GroupsUnsupported
          else Inr (nat n)
      | _ \<Rightarrow> Inl GroupSizeRange)"

text \<open>
  The loop of \<open>push\<close>. \<open>runGroup ordinal length\<close> is what one transaction answers for those
  members (already parsed), \<open>runMember ordinal\<close> for one; the state is threaded through
  the transactions. A throw ends the loop with the transactions before it committed.
\<close>

function pushLoop ::
  "nat \<Rightarrow> nat \<Rightarrow> ('s \<Rightarrow> nat \<Rightarrow> nat \<Rightarrow> (berr + 'e, jsv \<times> 's) res) \<Rightarrow> ('s \<Rightarrow> nat \<Rightarrow> (berr + 'e, jsstr \<times> 's) res) \<Rightarrow>
   nat \<Rightarrow> jsstr list \<Rightarrow> 's \<Rightarrow> (berr + 'e, jsstr list \<times> 's) res" where
  "pushLoop gsize count runGroup runMember ordinal results s =
     (if count \<le> ordinal \<or> gsize = 0 then Inr (results, s)
      else if 1 < gsize then
        bind_res (runGroup s ordinal (min gsize (count - ordinal))) (\<lambda>(group, s').
          case group of
            Arr xs \<Rightarrow>
              if length xs = min gsize (count - ordinal) \<and> list_all (\<lambda>x. case x of Str _ \<Rightarrow> True | _ \<Rightarrow> False) xs
              then pushLoop gsize count runGroup runMember (ordinal + gsize)
                     (results @ map (\<lambda>x. case x of Str r \<Rightarrow> r | _ \<Rightarrow> []) xs) s'
              else Inl (Inl InvalidGroupResults)
          | _ \<Rightarrow> Inl (Inl InvalidGroupResults))
      else bind_res (runMember s ordinal) (\<lambda>(r, s').
             pushLoop gsize count runGroup runMember (ordinal + gsize) (results @ [r]) s'))"
  by pat_completeness auto
termination
  by (relation "measure (\<lambda>(gsize, count, _, _, ordinal, _, _). count - ordinal)") auto

declare pushLoop.simps [simp del]

section \<open>One operation in a transaction\<close>

datatype 'e outcome_error = Refused berr | Failed "'e serr"

text \<open>
  \<open>bound\<close>: \<open>operation\<close> answers what it settles with and the session it leaves. A
  failure the session remembers replaces the error thrown. The session ends closed
  and unbound on every path, so the bound set is the same before and after.
\<close>

definition bound ::
  "'t list \<Rightarrow> 't \<Rightarrow> ('e session \<Rightarrow> ('e serr, 'r) res \<times> 'e session) \<Rightarrow> ('e outcome_error, 'r \<times> jsstr list) res \<times> 'e session option" where
  "bound sessions tx operation =
     (if tx \<in> set sessions then (Inl (Refused AlreadyBound), None)
      else (case operation new_session of
              (Inl e, ses) \<Rightarrow>
                (let ses' = snd (assertCommittable ses) in
                 (Inl (Failed (case failed ses' of Some f \<Rightarrow> Thrown f | None \<Rightarrow> e)), Some (ses'\<lparr>closed := True\<rparr>)))
            | (Inr r, ses) \<Rightarrow>
                (case assertCommittable ses of
                   (Inr _, ses') \<Rightarrow> (Inr (r, touched ses'), Some (ses'\<lparr>closed := True\<rparr>))
                 | (Inl e, ses') \<Rightarrow>
                     (Inl (Failed (case failed ses' of Some f \<Rightarrow> Thrown f | None \<Rightarrow> e)), Some (ses'\<lparr>closed := True\<rparr>)))))"

text \<open>
  \<open>run\<close> over the node-postgres runner: attempt \<open>n\<close> connects, begins, runs the bound body
  and commits, as \<open>pgAttempt\<close> does. \<open>env n\<close> holds how the four driver calls of the
  attempt settle. \<open>committed\<close> is what the last body that returned assigned; the wakes are
  notified only when the transaction resolves.
\<close>

type_synonym 'x driver_env = "('x, unit) res \<times> ('x, unit) res \<times> ('x, unit) res \<times> ('x, unit) res"

definition run ::
  "(nat \<Rightarrow> 'x driver_env) \<Rightarrow> (nat \<Rightarrow> ('x, 'r \<times> jsstr list) res) \<Rightarrow> ('x \<Rightarrow> bool) \<Rightarrow> nat \<Rightarrow> (nat \<Rightarrow> int) \<Rightarrow>
   ('x, 'r) res \<times> jsstr list" where
  "run env body isRetryable retries delay =
     (let attempt = (\<lambda>n. case env n of (c, b, m, r) \<Rightarrow> fst (pgAttempt c b (body n) m r)) in
      case fst (withRetries attempt isRetryable retries delay) of
        Inl e \<Rightarrow> (Inl e, [])
      | Inr (result, published) \<Rightarrow> (Inr result, published))"

section \<open>The wake hub\<close>

text \<open>
  \<open>listeners\<close> maps a Stream to a \<open>Set\<close>, which lives in a store because the function
  \<open>subscribe\<close> answers keeps its own reference to it. A token is what that function closes over.
\<close>

record hub =
  listeners :: "(jsstr, nat) jsmap"
  sets :: "nat list list"

definition new_hub :: hub where
  "new_hub = \<lparr>listeners = [], sets = []\<rparr>"

record token =
  t_set :: nat
  t_stream :: jsstr
  t_wake :: nat

definition subscribe :: "jsstr \<Rightarrow> nat \<Rightarrow> hub \<Rightarrow> token \<times> hub" where
  "subscribe stream wake h =
     (case map_of (listeners h) stream of
        Some a \<Rightarrow> (\<lparr>t_set = a, t_stream = stream, t_wake = wake\<rparr>,
                    h\<lparr>sets := (sets h)[a := sadd wake (sets h ! a)], listeners := mput stream a (listeners h)\<rparr>)
      | None \<Rightarrow> (\<lparr>t_set = length (sets h), t_stream = stream, t_wake = wake\<rparr>,
                  h\<lparr>sets := sets h @ [[wake]], listeners := mput stream (length (sets h)) (listeners h)\<rparr>))"

definition unsubscribe :: "token \<Rightarrow> hub \<Rightarrow> hub" where
  "unsubscribe t h =
     (let left = filter (\<lambda>w. w \<noteq> t_wake t) (sets h ! t_set t);
          h' = h\<lparr>sets := (sets h)[t_set t := left]\<rparr>
      in if left = [] then h'\<lparr>listeners := mdel (t_stream t) (listeners h')\<rparr> else h')"

definition listenersOf :: "hub \<Rightarrow> jsstr \<Rightarrow> nat list" where
  "listenersOf h stream = (case map_of (listeners h) stream of None \<Rightarrow> [] | Some a \<Rightarrow> sets h ! a)"

text \<open>The microtasks \<open>notify\<close> queues, in order.\<close>

definition notify :: "jsstr list \<Rightarrow> hub \<Rightarrow> nat list" where
  "notify streams h = concat (map (listenersOf h) (js_set streams))"

definition clear :: "hub \<Rightarrow> hub" where
  "clear h = h\<lparr>listeners := []\<rparr>"

end
