(* ===== verification/BackendSpec.thy ===== *)
theory BackendSpec
  imports Backend
begin

text \<open>
  What the backend promises at startup, for the transactions it runs and for the
  subscribers it wakes.
\<close>

section \<open>Version keys\<close>

lemma digitsVal_snoc: "digitsVal (ds @ [d]) = 10 * digitsVal ds + (d - 48)"
  by (simp add: digitsVal_def)

lemma digitsVal_show: "digitsVal (show_nat n) = n"
proof (induction n rule: show_nat.induct)
  case (1 n)
  then show ?case
    by (subst show_nat.simps) (auto simp: digitsVal_snoc digitsVal_def [of "[_]"])
qed

lemma show_nat_inject: "show_nat m = show_nat n \<longleftrightarrow> m = n"
  by (metis digitsVal_show)

lemma digit_add: "k < 10 \<Longrightarrow> digit (48 + k)"
  by (simp add: digit_def)

lemma show_nat_digits: "list_all digit (show_nat n)"
proof (induction n rule: show_nat.induct)
  case (1 n)
  then show ?case by (subst show_nat.simps) (simp add: digit_add)
qed

lemma show_digitsVal:
  assumes "ds \<noteq> []" and "49 \<le> hd ds" and "list_all digit ds"
  shows "show_nat (digitsVal ds) = ds \<and> 1 \<le> digitsVal ds"
  using assms
proof (induction ds rule: rev_induct)
  case Nil
  then show ?case by simp
next
  case (snoc d ds)
  show ?case
  proof (cases "ds = []")
    case True
    then show ?thesis using snoc.prems by (subst show_nat.simps) (auto simp: digitsVal_def digit_def)
  next
    case False
    let ?n = "10 * digitsVal ds + (d - 48)"
    have ih: "show_nat (digitsVal ds) = ds" "1 \<le> digitsVal ds" using snoc False by auto
    obtain k where d: "d = 48 + k" "k < 10"
      using snoc.prems(3) by (auto simp: digit_def intro: that [of "d - 48"])
    have "show_nat ?n = show_nat (digitsVal ds) @ [d]"
      using ih(2) d by (subst show_nat.simps) auto
    then show ?thesis using ih by (simp add: digitsVal_snoc)
  qed
qed

lemma isVersionKey_canonical: "isVersionKey k \<Longrightarrow> k = versionKey (digitsVal (tl k))"
proof -
  assume "isVersionKey k"
  then obtain d ds where k: "k = 118 # d # ds" "49 \<le> d" "d \<le> 57" "list_all digit ds"
    by (auto simp: isVersionKey_def split: list.splits)
  then have "show_nat (digitsVal (d # ds)) = d # ds" using show_digitsVal [of "d # ds"] by (simp add: digit_def)
  then show ?thesis by (simp add: k(1) versionKey_def js_def)
qed

lemma versionEntries:
  assumes "foldM (versionEntry r) t vs = Inr table"
  shows "fst ` set table = fst ` set t \<union> set vs \<and>
    (\<forall>v. map_of table v = (if v \<in> set vs then (case field r (versionKey v) of Fun f \<Rightarrow> Some f | _ \<Rightarrow> None) else map_of t v)) \<and>
    (\<forall>v \<in> set vs. \<exists>f. field r (versionKey v) = Fun f)"
  using assms
proof (induction vs arbitrary: t)
  case Nil
  then show ?case by simp
next
  case (Cons v vs)
  have entry: "versionEntry r t v = Inr t' \<longleftrightarrow> (\<exists>f. field r (versionKey v) = Fun f \<and> t' = mput v f t)" for t'
    by (auto simp: versionEntry_def split: jsv.splits)
  from Cons.prems obtain f where f: "field r (versionKey v) = Fun f" "foldM (versionEntry r) (mput v f t) vs = Inr table"
    by (auto simp: bind_res_Inr_iff entry)
  have k: "fst ` set (mput v f t) = insert v (fst ` set t)" by (simp add: AList.dom_update)
  show ?case using Cons.IH [OF f(2)] f(1) k by (auto simp: map_simps)
qed

lemma versioned_complete:
  assumes "versioned versions registration = Inr table"
  shows "fst ` set table = set versions \<and>
    (\<forall>v \<in> set versions. \<exists>f. map_of table v = Some f \<and>
       (registration = Fun f \<and> v = 1 \<or> field registration (versionKey v) = Fun f)) \<and>
    set (keys registration) \<subseteq> versionKey ` set versions"
proof (cases registration)
  case (Obj fs)
  obtain t: "foldM (versionEntry registration) [] versions = Inr table"
    and n: "find (\<lambda>k. \<not> (isVersionKey k \<and> mhas table (digitsVal (tl k)))) (map fst fs) = None"
    using assms by (auto simp: versioned_def Obj bind_res_Inr_iff split: option.splits)
  note e = versionEntries [OF t]
  have "k \<in> versionKey ` set versions" if "k \<in> set (map fst fs)" for k
  proof -
    have "isVersionKey k" "mhas table (digitsVal (tl k))" using n that by (auto simp: find_None_iff)
    moreover then have "digitsVal (tl k) \<in> set versions"
      using e by (force simp: mhas_def dest: map_of_SomeD)
    ultimately show ?thesis using isVersionKey_canonical by blast
  qed
  then show ?thesis using e by (auto simp: Obj)
qed (use assms in \<open>auto simp: versioned_def split: if_splits\<close>)

section \<open>Handler tables\<close>

lemma separator_unique:
  "x \<notin> set xs \<Longrightarrow> x \<notin> set ys \<Longrightarrow> xs @ x # a = ys @ x # b \<longleftrightarrow> xs = ys \<and> a = b"
proof (induction xs arbitrary: ys)
  case Nil
  then show ?case by (cases ys) auto
next
  case (Cons y xs)
  then show ?case by (cases ys) auto
qed

lemma opKey_inject: "opKey n v = opKey n' v' \<longleftrightarrow> n = n' \<and> v = v'"
proof
  assume "opKey n v = opKey n' v'"
  then have "n @ 58 # show_nat v = n' @ 58 # show_nat v'" by (simp add: opKey_def js_def)
  from arg_cong [OF this, of rev] have "rev (show_nat v) @ 58 # rev n = rev (show_nat v') @ 58 # rev n'" by simp
  moreover have "58 \<notin> set (rev (show_nat w))" for w
    using show_nat_digits [of w] by (auto simp: list_all_iff digit_def)
  ultimately have "rev (show_nat v) = rev (show_nat v') \<and> rev n = rev n'"
    by (metis separator_unique)
  then show "n = n' \<and> v = v'" by (simp add: show_nat_inject)
qed simp

lemma retain_snoc:
  "retain (es @ [(n, v)]) =
     mput n (sort ((case map_of (retain es) n of None \<Rightarrow> [] | Some vs \<Rightarrow> vs) @ [v])) (retain es)"
  by (simp add: retain_def)

lemma mok_retain: "mok (retain es)"
  by (induction es rule: rev_induct) (auto simp: retain_snoc map_simps, simp add: retain_def)

lemma retain_versions: "{v. (n, v) \<in> set es} = (case map_of (retain es) n of None \<Rightarrow> {} | Some vs \<Rightarrow> set vs)"
proof (induction es arbitrary: rule: rev_induct)
  case Nil
  then show ?case by (simp add: retain_def)
next
  case (snoc e es)
  obtain n' v' where e: "e = (n', v')" by (cases e)
  show ?case
  proof (cases "n' = n")
    case True
    then have "{v. (n, v) \<in> set (es @ [e])} = insert v' {v. (n, v) \<in> set es}" by (auto simp: e)
    also have "\<dots> = (case map_of (retain (es @ [e])) n of None \<Rightarrow> {} | Some vs \<Rightarrow> set vs)"
      unfolding snoc.IH e retain_snoc using True by (auto simp: map_simps split: option.splits)
    finally show ?thesis .
  next
    case False
    then have "{v. (n, v) \<in> set (es @ [e])} = {v. (n, v) \<in> set es}" by (auto simp: e)
    then show ?thesis unfolding snoc.IH e retain_snoc using False by (simp add: map_simps)
  qed
qed

lemma map_of_opKey:
  "map_of (map (\<lambda>(v, f). (opKey n v, f)) xs) (opKey n' v) = (if n' = n then map_of xs v else None)"
  by (induction xs) (auto simp: opKey_inject)

lemma addTable_get:
  "map_of (addTable n table h) (opKey n' v) =
     (case if n' = n then map_of (rev table) v else None of None \<Rightarrow> map_of h (opKey n' v) | Some f \<Rightarrow> Some f)"
proof -
  have "addTable n table h = fold (\<lambda>(k, f). mput k f) (map (\<lambda>(v, f). (opKey n v, f)) table) h"
    by (simp add: addTable_def fold_map o_def split_def)
  then show ?thesis by (simp only: jm.get_put_all rev_map map_of_opKey)
qed

text \<open>What a registration says an operation's handler is.\<close>

definition registered :: "jsv option \<Rightarrow> jsstr \<Rightarrow> nat \<Rightarrow> nat \<Rightarrow> bool" where
  "registered m name version f =
     (let r = lookupRegistration m (lowerFirst name) in
      r = Fun f \<and> version = 1 \<or> field r (versionKey version) = Fun f)"

lemma mok_foldM_versionEntry:
  assumes "foldM (versionEntry r) t vs = Inr table" and "mok t"
  shows "mok table"
  by (rule foldM_invariant [OF assms(1), of mok]) (use assms(2) in \<open>auto simp: versionEntry_def map_simps split: jsv.splits\<close>)

lemma mok_versioned: "versioned vs r = Inr table \<Longrightarrow> mok table"
  by (auto simp: versioned_def bind_res_Inr_iff split: jsv.splits if_splits option.splits intro: mok_foldM_versionEntry)

lemma map_of_rev_mok: "mok m \<Longrightarrow> map_of (rev m) = map_of m"
  by (simp add: map_of_inject_set rev_map [symmetric])

lemma registerName_get:
  assumes "registerName m h (n, vs) = Inr h'"
  shows "(n' = n \<and> v \<in> set vs \<longrightarrow> (\<exists>f. map_of h' (opKey n' v) = Some f \<and> registered m n' v f)) \<and>
    (\<not> (n' = n \<and> v \<in> set vs) \<longrightarrow> map_of h' (opKey n' v) = map_of h (opKey n' v))"
proof -
  obtain table where t: "versioned vs (lookupRegistration m (lowerFirst n)) = Inr table" and h': "h' = addTable n table h"
    using assms by (auto simp: registerName_def bind_res_Inr_iff)
  have "map_of (rev table) v = map_of table v" by (simp add: map_of_rev_mok mok_versioned [OF t])
  moreover have "map_of table v = None" if "v \<notin> set vs"
    using versioned_complete [OF t] that by (simp add: map_of_eq_None_iff)
  ultimately show ?thesis
    using versioned_complete [OF t] by (auto simp: h' addTable_get registered_def Let_def)
qed

lemma registerNames_get:
  assumes "foldM (registerName m) h kvs = Inr h'" and "mok kvs"
  shows "(\<forall>vs. map_of kvs n = Some vs \<and> v \<in> set vs \<longrightarrow> (\<exists>f. map_of h' (opKey n v) = Some f \<and> registered m n v f)) \<and>
    ((\<forall>vs. map_of kvs n = Some vs \<longrightarrow> v \<notin> set vs) \<longrightarrow> map_of h' (opKey n v) = map_of h (opKey n v))"
  using assms
proof (induction kvs arbitrary: h)
  case Nil
  then show ?case by simp
next
  case (Cons kv kvs)
  obtain k vs where kv: "kv = (k, vs)" by (cases kv)
  from Cons.prems obtain h1 where h1: "registerName m h (k, vs) = Inr h1" "foldM (registerName m) h1 kvs = Inr h'"
    by (auto simp: kv bind_res_Inr_iff)
  have none: "map_of kvs k = None" using Cons.prems(2) by (auto simp: kv map_of_eq_None_iff)
  note ih = Cons.IH [OF h1(2)] and step = registerName_get [OF h1(1), of n v]
  show ?case
  proof (cases "n = k")
    case True
    then have "map_of h' (opKey n v) = map_of h1 (opKey n v)" using ih Cons.prems(2) none by (simp add: kv)
    then show ?thesis using step True by (auto simp: kv)
  next
    case False
    then show ?thesis using ih step Cons.prems(2) by (auto simp: kv)
  qed
qed

lemma registerKind_get:
  assumes "registerKind ops kind m h = Inr h'"
  shows "((n, v) \<in> (\<lambda>a. (op_name a, op_version a)) ` {a \<in> set ops. op_kind a = kind} \<longrightarrow>
      (\<exists>f. map_of h' (opKey n v) = Some f \<and> registered m n v f)) \<and>
    ((n, v) \<notin> (\<lambda>a. (op_name a, op_version a)) ` {a \<in> set ops. op_kind a = kind} \<longrightarrow>
      map_of h' (opKey n v) = map_of h (opKey n v))"
proof -
  define es where "es = map (\<lambda>a. (op_name a, op_version a)) (filter (\<lambda>a. op_kind a = kind) ops)"
  have r: "foldM (registerName m) h (retain es) = Inr h'"
    using assms by (auto simp: registerKind_def Let_def es_def bind_res_Inr_iff split: option.splits if_splits)
  have "set es = (\<lambda>a. (op_name a, op_version a)) ` {a \<in> set ops. op_kind a = kind}" by (auto simp: es_def)
  moreover have "(n, v) \<in> set es \<longleftrightarrow> (\<exists>vs. map_of (retain es) n = Some vs \<and> v \<in> set vs)"
    using retain_versions [of n es] by (auto split: option.splits)
  ultimately show ?thesis using registerNames_get [OF r mok_retain, of n v] by auto
qed

text \<open>
  A backend that starts serves every retained operation: for each retained
  version of each operation its table holds a handler, and it is the one
  registered for exactly that name, version and kind.
\<close>

lemma every_operation_has_its_handler:
  assumes "actionHandlers ops mutations queries = Inr handlers"
    and "distinct (map (\<lambda>a. (op_name a, op_version a)) ops)" and "a \<in> set ops"
  shows "\<exists>f. map_of handlers (opKey (op_name a) (op_version a)) = Some f \<and>
    registered (case op_kind a of MutationKind \<Rightarrow> mutations | QueryKind \<Rightarrow> queries) (op_name a) (op_version a) f"
proof -
  obtain h1 where h1: "registerKind ops MutationKind mutations [] = Inr h1"
      "registerKind ops QueryKind queries h1 = Inr handlers"
    using assms(1) by (auto simp: actionHandlers_def bind_res_Inr_iff)
  have other: "op_kind b = op_kind a" if "b \<in> set ops" "op_name b = op_name a" "op_version b = op_version a" for b
    using assms(2,3) that by (auto simp: distinct_map inj_on_def)
  show ?thesis
  proof (cases "op_kind a")
    case QueryKind
    then show ?thesis
      using registerKind_get [OF h1(2), of "op_name a" "op_version a"] assms(3) by auto
  next
    case MutationKind
    then have "(op_name a, op_version a) \<notin> (\<lambda>b. (op_name b, op_version b)) ` {b \<in> set ops. op_kind b = QueryKind}"
      using other by force
    then show ?thesis
      using registerKind_get [OF h1(2), of "op_name a" "op_version a"]
        registerKind_get [OF h1(1), of "op_name a" "op_version a"] assms(3) MutationKind by auto
  qed
qed

definition ex_ops :: "operation list" where
  "ex_ops = [\<lparr>op_name = js ''Find'', op_version = 1, op_kind = MutationKind\<rparr>,
             \<lparr>op_name = js ''Find'', op_version = 2, op_kind = QueryKind\<rparr>]"

text \<open>
  A registration is accepted only if it names exactly the retained versions: each one
  has a function, and no other key is there.
\<close>

lemma registration_names_retained_versions:
  assumes "versioned versions (Obj fs) = Inr table"
  shows "fst ` set table = set versions \<and> set (map fst fs) \<subseteq> versionKey ` set versions \<and>
    list_all (\<lambda>v. \<exists>f. map_of table v = Some f \<and> field (Obj fs) (versionKey v) = Fun f) versions"
  using versioned_complete [OF assms] by (auto simp: list_all_iff)


section \<open>Commit groups\<close>

text \<open>The calls one push makes, as ordinal and length.\<close>

abbreviation members :: "(nat \<times> nat) list \<Rightarrow> nat list" where
  "members calls \<equiv> concat (map (\<lambda>(o', n). [o'..<o' + n]) calls)"

lemma upt_group: "[o'..<o' + min g (count - o')] @ [o' + g..<count] = [o'..<count]" if "o' < count" for o' :: nat
  using that upt_add_eq_append [of o' "o' + g" "count - (o' + g)"] by (cases "g \<le> count - o'") (simp_all add: min_def)

lemma pushLoop_partition:
  assumes "\<And>s o' n x s'. runGroup s o' n = Inr (x, s') \<Longrightarrow> calls_of s' = calls_of s @ [(o', n)]"
    and "\<And>s o' x s'. runMember s o' = Inr (x, s') \<Longrightarrow> calls_of s' = calls_of s @ [(o', 1)]"
    and "pushLoop gsize count runGroup runMember ordinal results s = Inr (out, s')" and "0 < gsize"
  shows "length out = length results + (count - ordinal) \<and>
    (\<exists>calls. calls_of s' = calls_of s @ calls \<and> members calls = [ordinal..<count] \<and> list_all (\<lambda>(_, n). 1 \<le> n \<and> n \<le> gsize) calls)"
  using assms(3)
proof (induction "count - ordinal" arbitrary: ordinal results s rule: less_induct)
  case less
  note unfolded = less.prems [unfolded pushLoop.simps [of gsize count runGroup runMember ordinal results s]]
  show ?case
  proof (cases "ordinal < count")
    case False
    then show ?thesis using unfolded by auto
  next
    case lt: True
    let ?n = "if 1 < gsize then min gsize (count - ordinal) else 1"
    have n: "1 \<le> ?n" "?n \<le> gsize" "?n = min gsize (count - ordinal)" using lt assms(4) by auto
    obtain rs s1 where s1: "calls_of s1 = calls_of s @ [(ordinal, ?n)]" "length rs = ?n"
      and rest: "pushLoop gsize count runGroup runMember (ordinal + gsize) (results @ rs) s1 = Inr (out, s')"
    proof (cases "1 < gsize")
      case True
      obtain a s1 where a: "runGroup s ordinal (min gsize (count - ordinal)) = Inr (a, s1)"
        using unfolded lt True by (auto simp: bind_res_Inr_iff)
      then obtain xs where "runGroup s ordinal (min gsize (count - ordinal)) = Inr (Arr xs, s1)"
          "length xs = min gsize (count - ordinal)"
          "pushLoop gsize count runGroup runMember (ordinal + gsize)
             (results @ map (\<lambda>x. case x of Str r \<Rightarrow> r | _ \<Rightarrow> []) xs) s1 = Inr (out, s')"
        using unfolded lt True by (cases a) (auto split: if_splits)
      then show ?thesis
        using that [of s1 "map (\<lambda>x. case x of Str r \<Rightarrow> r | _ \<Rightarrow> []) xs"] assms(1) True by simp
    next
      case False
      then obtain r s1 where "runMember s ordinal = Inr (r, s1)"
          "pushLoop gsize count runGroup runMember (ordinal + gsize) (results @ [r]) s1 = Inr (out, s')"
        using unfolded lt assms(4) by (auto simp: bind_res_Inr_iff)
      then show ?thesis using that [of s1 "[r]"] assms(2) False by simp
    qed
    have "count - (ordinal + gsize) < count - ordinal" using lt assms(4) by simp
    from less.hyps [OF this rest] obtain calls where c: "length out = length (results @ rs) + (count - (ordinal + gsize))"
        "calls_of s' = calls_of s1 @ calls" "members calls = [ordinal + gsize..<count]" "list_all (\<lambda>(_, n). 1 \<le> n \<and> n \<le> gsize) calls"
      by blast
    have "members ((ordinal, ?n) # calls) = [ordinal..<count]"
      unfolding n(3) using c(3) upt_group [OF lt, of gsize] by simp
    moreover have "length out = length results + (count - ordinal)" using c(1) s1(2) n(3) lt by (simp add: min_def split: if_splits)
    ultimately show ?thesis using c(2,4) s1(1) n(1,2) by (intro conjI exI [of _ "(ordinal, ?n) # calls"]) auto
  qed
qed

text \<open>
  C13: A push runs every member of its Batch exactly once and in order: the calls it makes
  cut the ordinals into consecutive groups of at most the group size, and the
  acknowledgement carries one result per member.
\<close>

theorem push_partitions_batch:
  assumes "mutationGroupSize experimental native_groups database_groups = Inr gsize"
    and "\<And>s o' n x s'. runGroup s o' n = Inr (x, s') \<Longrightarrow> calls_of s' = calls_of s @ [(o', n)]"
    and "\<And>s o' x s'. runMember s o' = Inr (x, s') \<Longrightarrow> calls_of s' = calls_of s @ [(o', 1)]"
    and "pushLoop gsize count runGroup runMember 0 [] s = Inr (out, s')" and "calls_of s = []"
  shows "length out = count \<and> members (calls_of s') = [0..<count] \<and> list_all (\<lambda>(_, n). 1 \<le> n \<and> n \<le> gsize \<and> n \<le> 32) (calls_of s')"
proof -
  have g: "0 < gsize" "gsize \<le> 32"
    using assms(1) by (auto simp: mutationGroupSize_def split: option.splits jsnum.splits if_splits)
  have "length out = length ([] :: jsstr list) + (count - 0) \<and> (\<exists>calls. calls_of s' = calls_of s @ calls \<and>
      members calls = [0..<count] \<and> list_all (\<lambda>(_, n). 1 \<le> n \<and> n \<le> gsize) calls)"
    by (rule pushLoop_partition [of runGroup calls_of runMember gsize count 0 "[]" s out s'])
       (use assms(2-4) g(1) in blast)+
  then show ?thesis using assms(5) g(2) by (force simp: list_all_iff)
qed

theorem push_partitions_batch_witness:
  "members (snd (([] :: nat list), [(0, 2), (2, 1)])) = [0..<3]"
proof -
  let ?g = "\<lambda>s o' n. Inr (Arr (replicate n (Str [])), s @ [(o', n)]) :: (berr + unit, jsv \<times> (nat \<times> nat) list) res"
  let ?m = "\<lambda>s o'. Inr ([], s @ [(o', 1)]) :: (berr + unit, jsstr \<times> (nat \<times> nat) list) res"
  have "mutationGroupSize (Some (JsInt 2)) True True = Inr 2" by (simp add: mutationGroupSize_def)
  moreover have "pushLoop 2 3 ?g ?m 0 [] [] = Inr ([[], [], []], [(0, 2), (2, 1)])"
    by (simp add: pushLoop.simps numeral_2_eq_2 numeral_3_eq_3)
  ultimately show ?thesis using push_partitions_batch [of "Some (JsInt 2)" True True 2 ?g "\<lambda>s. s" ?m 3 "[]"] by simp
qed

section \<open>Transactions and wakes\<close>

lemma run_committed:
  "case run env body isRetryable retries delay of
     (Inl _, woken) \<Rightarrow> woken = []
   | (Inr r, woken) \<Rightarrow> (\<exists>n. n \<le> retries \<and> body n = Inr (r, woken) \<and> fst (snd (snd (env n))) = Inr ())"
proof -
  let ?attempt = "\<lambda>n. case env n of (c, b, m, r) \<Rightarrow> fst (pgAttempt c b (body n) m r)"
  obtain k where k: "k \<le> retries" "fst (withRetries ?attempt isRetryable retries delay) = ?attempt k"
    using withRetriesFrom_spec [of 0 retries ?attempt isRetryable delay] by (auto simp: withRetries_def)
  show ?thesis
    using k by (auto simp: run_def Let_def pgAttempt_def split: sum.splits prod.splits)
qed


text \<open>
  A transaction serves one session at a time, and every session ends closed: a bound
  transaction is refused before the operation runs; otherwise the answer carries the
  Streams touched by a session with no failure and nothing unawaited, and a session
  that remembers a failure throws that failure.
\<close>

lemma bound_sessions:
  "case bound sessions tx operation of
     (Inl (Refused e), ses) \<Rightarrow> e = AlreadyBound \<and> tx \<in> set sessions \<and> ses = None
   | (Inl (Failed e), ses) \<Rightarrow> tx \<notin> set sessions \<and>
       (\<exists>s. ses = Some s \<and> session.closed s \<and> (case failed s of Some f \<Rightarrow> e = Thrown f | None \<Rightarrow> True))
   | (Inr (r, published), ses) \<Rightarrow> tx \<notin> set sessions \<and>
       (\<exists>s. operation new_session = (Inr r, s) \<and> published = touched s \<and> failed s = None \<and> pending s = [] \<and> \<not> session.closed s
          \<and> ses = Some (s\<lparr>closed := True\<rparr>))"
proof (cases "operation new_session")
  case (Pair r s)
  show ?thesis
  proof (cases r)
    case (Inl e)
    then show ?thesis by (auto simp: bound_def Pair assertCommittable_def Let_def split: option.splits)
  next
    case (Inr v)
    then show ?thesis
      by (cases "failed s"; cases "pending s"; cases "session.closed s")
         (auto simp: bound_def Pair assertCommittable_def Let_def split: option.splits)
  qed
qed

section \<open>The wake hub\<close>

text \<open>
  How the live connections use the hub: a fresh wake function per subscription,
  each unsubscribe function called at most once, and none after \<open>clear\<close>. The set
  holds the tokens of the open subscriptions.
\<close>

inductive hub_reach :: "hub \<Rightarrow> token set \<Rightarrow> bool" where
  init: "hub_reach new_hub {}"
| sub: "hub_reach h ts \<Longrightarrow> w \<notin> t_wake ` ts \<Longrightarrow> subscribe s w h = (t, h') \<Longrightarrow> hub_reach h' (insert t ts)"
| unsub: "hub_reach h ts \<Longrightarrow> t \<in> ts \<Longrightarrow> hub_reach (unsubscribe t h) (ts - {t})"
| clr: "hub_reach h ts \<Longrightarrow> hub_reach (clear h) {}"

inductive_cases hub_reachE: "hub_reach h ts"

text \<open>The Stream's set, at address \<open>a\<close>, holds the wakes of its open subscriptions.\<close>

definition holds_set :: "hub \<Rightarrow> token set \<Rightarrow> jsstr \<Rightarrow> nat \<Rightarrow> bool" where
  "holds_set h ts s a = (a < length (sets h) \<and> distinct (sets h ! a) \<and> sets h ! a \<noteq> []
     \<and> set (sets h ! a) = t_wake ` {t \<in> ts. t_stream t = s})"

definition hub_inv :: "hub \<Rightarrow> token set \<Rightarrow> bool" where
  "hub_inv h ts =
     (inj_on t_wake ts \<and> (\<forall>t \<in> ts. map_of (listeners h) (t_stream t) = Some (t_set t)) \<and>
      (\<forall>s a. map_of (listeners h) s = Some a \<longrightarrow> holds_set h ts s a) \<and>
      (\<forall>s s' a. map_of (listeners h) s = Some a \<longrightarrow> map_of (listeners h) s' = Some a \<longrightarrow> s = s'))"

lemma hub_invD:
  assumes "hub_inv h ts"
  shows "inj_on t_wake ts"
    and "t \<in> ts \<Longrightarrow> map_of (listeners h) (t_stream t) = Some (t_set t)"
    and "map_of (listeners h) s = Some a \<Longrightarrow> holds_set h ts s a"
    and "map_of (listeners h) s = Some a \<Longrightarrow> map_of (listeners h) s' = Some a \<Longrightarrow> s = s'"
  using assms unfolding hub_inv_def by blast+

lemma hub_inv_new:
  assumes inv: "hub_inv h ts" and fresh: "w \<notin> t_wake ` ts" and none: "map_of (listeners h) s = None"
  shows "hub_inv (h\<lparr>sets := sets h @ [[w]], listeners := mput s (length (sets h)) (listeners h)\<rparr>)
    (insert \<lparr>t_set = length (sets h), t_stream = s, t_wake = w\<rparr> ts)" (is "hub_inv ?h (insert ?t ts)")
proof -
  have no: "t_stream u \<noteq> s" if "u \<in> ts" for u using hub_invD(2) [OF inv that] none by auto
  have less: "a < length (sets h)" if "map_of (listeners h) s' = Some a" for s' a
    using hub_invD(3) [OF inv that] by (simp add: holds_set_def)
  have m: "map_of (listeners ?h) = (map_of (listeners h))(s \<mapsto> length (sets h))" by (simp add: map_simps)
  have "inj_on t_wake (insert ?t ts)" using hub_invD(1) [OF inv] fresh by (auto simp: inj_on_def)
  moreover have "map_of (listeners ?h) (t_stream u) = Some (t_set u)" if "u \<in> insert ?t ts" for u
    using that hub_invD(2) [OF inv] no by (auto simp: map_simps)
  moreover have "holds_set ?h (insert ?t ts) s' a" if "map_of (listeners ?h) s' = Some a" for s' a
  proof (cases "s' = s")
    case True
    then have "{u \<in> insert ?t ts. t_stream u = s'} = {?t}" using no by auto
    then show ?thesis using that True by (auto simp: map_simps holds_set_def nth_append)
  next
    case False
    then have a: "map_of (listeners h) s' = Some a" using that by (simp add: map_simps)
    have "{u \<in> insert ?t ts. t_stream u = s'} = {u \<in> ts. t_stream u = s'}" using False by auto
    then show ?thesis using hub_invD(3) [OF inv a] by (simp add: holds_set_def nth_append)
  qed
  moreover have "s1 = s2" if "map_of (listeners ?h) s1 = Some a" "map_of (listeners ?h) s2 = Some a" for s1 s2 a
    using that less [of s1] less [of s2] hub_invD(4) [OF inv, of s1 a s2] by (auto simp: map_simps split: if_splits)
  ultimately show ?thesis unfolding hub_inv_def by blast
qed

lemma hub_inv_join:
  assumes inv: "hub_inv h ts" and fresh: "w \<notin> t_wake ` ts" and some: "map_of (listeners h) s = Some a"
  shows "hub_inv (h\<lparr>sets := (sets h)[a := sadd w (sets h ! a)], listeners := mput s a (listeners h)\<rparr>)
    (insert \<lparr>t_set = a, t_stream = s, t_wake = w\<rparr> ts)" (is "hub_inv ?h (insert ?t ts)")
proof -
  have m: "map_of (listeners ?h) = map_of (listeners h)" using some by (auto simp: map_simps fun_eq_iff)
  have a: "holds_set h ts s a" using hub_invD(3) [OF inv some] .
  have "inj_on t_wake (insert ?t ts)" using hub_invD(1) [OF inv] fresh by (auto simp: inj_on_def)
  moreover have "map_of (listeners ?h) (t_stream u) = Some (t_set u)" if "u \<in> insert ?t ts" for u
    using that hub_invD(2) [OF inv] some unfolding m by auto
  moreover have "holds_set ?h (insert ?t ts) s' b" if "map_of (listeners ?h) s' = Some b" for s' b
  proof (cases "s' = s")
    case True
    then have "{u \<in> insert ?t ts. t_stream u = s'} = insert ?t {u \<in> ts. t_stream u = s}" by auto
    moreover have "b = a" using that some True by (simp add: map_simps)
    ultimately show ?thesis using a True by (auto simp: holds_set_def sadd_def)
  next
    case False
    have b: "map_of (listeners h) s' = Some b" using that False by (simp add: map_simps)
    have "b \<noteq> a"
    proof
      assume "b = a"
      then show False using hub_invD(4) [OF inv b, of s] some False by simp
    qed
    moreover have "{u \<in> insert ?t ts. t_stream u = s'} = {u \<in> ts. t_stream u = s'}" using False by auto
    ultimately show ?thesis using hub_invD(3) [OF inv b] by (simp add: holds_set_def)
  qed
  moreover have "s1 = s2" if "map_of (listeners ?h) s1 = Some b" "map_of (listeners ?h) s2 = Some b" for s1 s2 b
    using that hub_invD(4) [OF inv] unfolding m by blast
  ultimately show ?thesis unfolding hub_inv_def by blast
qed

lemma hub_inv_unsubscribe:
  assumes inv: "hub_inv h ts" and t: "t \<in> ts"
  shows "hub_inv (unsubscribe t h) (ts - {t})"
proof -
  let ?a = "t_set t" and ?s = "t_stream t"
  let ?left = "filter (\<lambda>w. w \<noteq> t_wake t) (sets h ! ?a)"
  let ?h = "unsubscribe t h"
  have some: "map_of (listeners h) ?s = Some ?a" using hub_invD(2) [OF inv t] .
  have a: "holds_set h ts ?s ?a" using hub_invD(3) [OF inv some] .
  have wakes: "set ?left = t_wake ` {u \<in> ts - {t}. t_stream u = ?s}"
    using a hub_invD(1) [OF inv] t by (auto simp: holds_set_def inj_on_def)
  have gone: "?left = [] \<Longrightarrow> {u \<in> ts - {t}. t_stream u = ?s} = {}" using wakes by force
  have m: "map_of (listeners ?h) s' = (if ?left = [] \<and> s' = ?s then None else map_of (listeners h) s')" for s'
    by (auto simp: unsubscribe_def Let_def map_simps)
  have st: "sets ?h = (sets h)[?a := ?left]" by (simp add: unsubscribe_def Let_def)
  have "inj_on t_wake (ts - {t})" using hub_invD(1) [OF inv] by (rule inj_on_subset) blast
  moreover have "map_of (listeners ?h) (t_stream u) = Some (t_set u)" if "u \<in> ts - {t}" for u
    using that hub_invD(2) [OF inv] gone unfolding m by auto
  moreover have "holds_set ?h (ts - {t}) s' b" if "map_of (listeners ?h) s' = Some b" for s' b
  proof (cases "s' = ?s")
    case True
    then have "b = ?a" "?left \<noteq> []" using that some by (auto simp: m split: if_splits)
    then show ?thesis using a wakes True by (simp add: holds_set_def st)
  next
    case False
    have b: "map_of (listeners h) s' = Some b" using that False by (simp add: m)
    have "b \<noteq> ?a"
    proof
      assume "b = ?a"
      then show False using hub_invD(4) [OF inv b, of ?s] some False by simp
    qed
    moreover have "{u \<in> ts - {t}. t_stream u = s'} = {u \<in> ts. t_stream u = s'}" using False by auto
    ultimately show ?thesis using hub_invD(3) [OF inv b] by (simp add: holds_set_def st)
  qed
  moreover have "s1 = s2" if "map_of (listeners ?h) s1 = Some b" "map_of (listeners ?h) s2 = Some b" for s1 s2 b
    using that hub_invD(4) [OF inv, of s1 b s2] by (auto simp: m split: if_splits)
  ultimately show ?thesis unfolding hub_inv_def by blast
qed

lemma hub_inv_subscribe:
  "hub_inv h ts \<Longrightarrow> w \<notin> t_wake ` ts \<Longrightarrow> subscribe s w h = (t, h') \<Longrightarrow>
     hub_inv h' (insert t ts) \<and> t_wake t = w \<and> t_stream t = s"
  using hub_inv_new hub_inv_join by (auto simp: subscribe_def split: option.splits)

lemma hub_inv_empty: "hub_inv new_hub {}"
  by (simp add: hub_inv_def new_hub_def)

lemma hub_reach_inv: "hub_reach h ts \<Longrightarrow> hub_inv h ts"
proof (induction rule: hub_reach.induct)
  case (sub h ts w s t h')
  then show ?case using hub_inv_subscribe by blast
next
  case (unsub h ts t)
  then show ?case by (simp add: hub_inv_unsubscribe)
qed (simp_all add: hub_inv_def new_hub_def clear_def)

lemma listenersOf_open:
  assumes "hub_inv h ts"
  shows "set (listenersOf h s) = t_wake ` {t \<in> ts. t_stream t = s} \<and> distinct (listenersOf h s)"
proof (cases "map_of (listeners h) s")
  case None
  then show ?thesis using hub_invD(2) [OF assms] by (auto simp: listenersOf_def)
next
  case (Some a)
  then show ?thesis using hub_invD(3) [OF assms Some] by (simp add: listenersOf_def holds_set_def)
qed

lemma notify_open:
  assumes inv: "hub_inv h ts"
  shows "distinct (notify streams h) \<and> set (notify streams h) = t_wake ` {t \<in> ts. t_stream t \<in> set streams}"
proof -
  note l = listenersOf_open [OF inv]
  have "set (listenersOf h x) \<inter> set (listenersOf h y) = {}" if "x \<noteq> y" for x y
    using l hub_invD(1) [OF inv] that by (auto simp: inj_on_def)
  then have apart: "set (listenersOf h x) \<inter> set (concat (map (listenersOf h) xs)) = {}" if "x \<notin> set xs" for x xs
  proof -
    have "set (listenersOf h x) \<inter> set (listenersOf h y) = {}" if "y \<in> set xs" for y
      using \<open>x \<notin> set xs\<close> that by (intro \<open>\<And>y x. x \<noteq> y \<Longrightarrow> set (listenersOf h x) \<inter> set (listenersOf h y) = {}\<close>) auto
    then show ?thesis by auto
  qed
  have "distinct (concat (map (listenersOf h) xs))" if "distinct xs" for xs
    using that by (induction xs) (use l apart in \<open>simp_all del: set_concat\<close>)
  moreover have "set (notify streams h) = (\<Union>s \<in> set streams. t_wake ` {t \<in> ts. t_stream t = s})"
    using l by (simp add: notify_def)
  ultimately show ?thesis by (auto simp: notify_def)
qed

text \<open>
  A notification queues the wake of every open subscription of the Streams it names,
  each once, and no other, as long as each unsubscribe function is called at most
  once and before the hub is cleared.
\<close>

lemma notify_wakes_open_subscriptions:
  assumes "hub_reach h ts"
  shows "distinct (notify streams h) \<and> set (notify streams h) = t_wake ` {t \<in> ts. t_stream t \<in> set streams}"
  using notify_open [OF hub_reach_inv [OF assms]] .

text \<open>
  A second call of the same unsubscribe function is not idle: it deletes the Stream's
  entry even when a later subscription has put a new set there, so that
  subscriber is never woken again.
\<close>

lemma stale_unsubscribe_drops_listener:
  "let (t1, h1) = subscribe s 1 new_hub; (t2, h2) = subscribe s 2 (unsubscribe t1 h1)
   in notify [s] h2 = [2] \<and> notify [s] (unsubscribe t1 h2) = []"
  by (simp add: subscribe_def unsubscribe_def new_hub_def notify_def listenersOf_def js_set_def sadd_def)

end
