(* ===== verification/Calendar.thy ===== *)
theory Calendar
  imports JsValue
begin

text \<open>
  The date-times of \<^verbatim>\<open>packages/backend/server/bindings/effects.mts\<close>: \<open>zoned\<close> accepts
  RFC 3339 text with real calendar fields, \<open>instant\<close> spells the UTC instant it names.
  \<open>Date\<close> is modelled by the day and time arithmetic of ECMAScript over the proleptic
  Gregorian calendar.
\<close>

section \<open>Parsing\<close>

definition isDigit :: "nat \<Rightarrow> bool" where
  "isDigit c = (48 \<le> c \<and> c \<le> 57)"

definition numOf :: "jsstr \<Rightarrow> int" where
  "numOf ds = foldl (\<lambda>n d. 10 * n + (int d - 48)) 0 ds"

text \<open>\<open>\d{k}\<close>: exactly \<open>k\<close> digits, then the rest.\<close>

definition digits :: "nat \<Rightarrow> jsstr \<Rightarrow> (int \<times> jsstr) option" where
  "digits k s = (if k \<le> length s \<and> list_all isDigit (take k s) then Some (numOf (take k s), drop k s) else None)"

definition literal :: "nat \<Rightarrow> jsstr \<Rightarrow> jsstr option" where
  "literal c s = (case s of [] \<Rightarrow> None | x # xs \<Rightarrow> if x = c then Some xs else None)"

text \<open>\<open>(?:\.(\d{1,9}))?\<close>, greedy: a dot must be followed by one to nine digits.\<close>

definition fraction :: "jsstr \<Rightarrow> (jsstr \<times> jsstr) option" where
  "fraction s = (case literal 46 s of
     None \<Rightarrow> Some ([], s)
   | Some r \<Rightarrow> (let ds = takeWhile isDigit (take 9 r) in
       if ds = [] then None else Some (ds, drop (length ds) r)))"

text \<open>\<open>(?:[Zz]|([+-])(\d{2}):(\d{2}))$\<close>\<close>

definition zone :: "jsstr \<Rightarrow> (bool \<times> int \<times> int) option option" where
  "zone s =
     (if s = [90] \<or> s = [122] then Some None
      else case s of
        sign # r \<Rightarrow>
          if sign = 43 \<or> sign = 45 then
            Option.bind (digits 2 r) (\<lambda>(h, r1).
            Option.bind (literal 58 r1) (\<lambda>r2.
            Option.bind (digits 2 r2) (\<lambda>(m, r3).
              if r3 = [] then Some (Some (sign = 45, h, m)) else None)))
          else None
      | [] \<Rightarrow> None)"

record zparts =
  z_year :: int
  z_month :: int
  z_day :: int
  z_hour :: int
  z_minute :: int
  z_second :: int
  z_fraction :: jsstr
  z_zone :: "(bool \<times> int \<times> int) option"

definition ZONED :: "jsstr \<Rightarrow> zparts option" where
  "ZONED s =
     Option.bind (digits 4 s) (\<lambda>(y, s). Option.bind (literal 45 s) (\<lambda>s.
     Option.bind (digits 2 s) (\<lambda>(mo, s). Option.bind (literal 45 s) (\<lambda>s.
     Option.bind (digits 2 s) (\<lambda>(d, s). Option.bind (literal 84 s) (\<lambda>s.
     Option.bind (digits 2 s) (\<lambda>(h, s). Option.bind (literal 58 s) (\<lambda>s.
     Option.bind (digits 2 s) (\<lambda>(mi, s). Option.bind (literal 58 s) (\<lambda>s.
     Option.bind (digits 2 s) (\<lambda>(sec, s).
     Option.bind (fraction s) (\<lambda>(f, s).
     Option.bind (zone s) (\<lambda>z.
       Some \<lparr>z_year = y, z_month = mo, z_day = d, z_hour = h, z_minute = mi, z_second = sec,
             z_fraction = f, z_zone = z\<rparr>)))))))))))))"

definition leapYear :: "int \<Rightarrow> bool" where
  "leapYear y = (y mod 4 = 0 \<and> (y mod 100 \<noteq> 0 \<or> y mod 400 = 0))"

definition monthDays :: "int \<Rightarrow> nat \<Rightarrow> nat" where
  "monthDays y m = (if m = 2 then (if leapYear y then 29 else 28) else if m \<in> {4, 6, 9, 11} then 30 else 31)"

definition zoned :: "jsstr \<Rightarrow> bool" where
  "zoned s =
     (case ZONED s of
        None \<Rightarrow> False
      | Some p \<Rightarrow>
          1 \<le> z_month p \<and> z_month p \<le> 12 \<and> 1 \<le> z_day p \<and> z_day p \<le> int (monthDays (z_year p) (nat (z_month p)))
          \<and> z_hour p < 24 \<and> z_minute p < 60 \<and> z_second p < 60
          \<and> (case z_zone p of None \<Rightarrow> True | Some (_, h, m) \<Rightarrow> h < 24 \<and> m < 60))"

section \<open>Dates\<close>

text \<open>The day number of 1 January, the days of a year before a month, and \<open>MakeDay\<close>.\<close>

definition dayFromYear :: "int \<Rightarrow> int" where
  "dayFromYear y = 365 * (y - 1) + (y - 1) div 4 - (y - 1) div 100 + (y - 1) div 400 - 719162"

fun monthStart :: "int \<Rightarrow> nat \<Rightarrow> nat" where
  "monthStart y 0 = 0"
| "monthStart y (Suc m) = monthStart y m + (if m = 0 then 0 else monthDays y m)"

definition makeDay :: "int \<Rightarrow> nat \<Rightarrow> nat \<Rightarrow> int" where
  "makeDay y m d = dayFromYear y + int (monthStart y m) + int d - 1"

text \<open>\<open>YearFromTime\<close>: the year whose days hold this one, searched from an estimate.\<close>

lemma div_step: "a \<le> b \<Longrightarrow> b div k - a div k \<le> b - a" if "0 < k" for a b k :: int
proof -
  assume "a \<le> b"
  have "b div k \<le> (a + k * (b - a)) div k"
    using that \<open>a \<le> b\<close> mult_right_mono [of 1 k "b - a"] by (intro zdiv_mono1) simp_all
  then show ?thesis using that by simp
qed

lemma year_sum_step:
  "b - b' \<le> a - a' \<Longrightarrow> c' \<le> c \<Longrightarrow> 365 * (y - 1) + a' - b' + c' - 719162 + 365 \<le> 365 * y + a - b + c - (719162 :: int)"
  by simp

lemma dayFromYear_step: "dayFromYear y + 365 \<le> dayFromYear (y + 1)"
proof -
  have mono: "(y - 1) div k \<le> y div k" if "0 < k" for k using that by (intro zdiv_mono1) simp_all
  have "y div 4 div 25 - (y - 1) div 4 div 25 \<le> y div 4 - (y - 1) div 4" by (intro div_step mono) simp_all
  then have "y div (4 * 25) - (y - 1) div (4 * 25) \<le> y div 4 - (y - 1) div 4"
    by (simp only: zdiv_zmult2_eq zero_le_numeral)
  then have "y div 100 - (y - 1) div 100 \<le> y div 4 - (y - 1) div 4" by (simp only: mult_numeral_1_right numeral_times_numeral semiring_norm)
  then show ?thesis
    unfolding dayFromYear_def add_diff_cancel_right' by (rule year_sum_step) (rule mono, simp)
qed

function yearUp :: "int \<Rightarrow> int \<Rightarrow> int" where
  "yearUp D y = (if dayFromYear (y + 1) \<le> D then yearUp D (y + 1) else y)"
  by pat_completeness auto
termination
proof (relation "measure (\<lambda>(D, y). nat (D - dayFromYear y))")
  fix D y assume "dayFromYear (y + 1) \<le> D"
  then show "((D, y + 1), D, y) \<in> measure (\<lambda>(D, y). nat (D - dayFromYear y))"
    using dayFromYear_step [of y] by simp
qed simp

function yearDown :: "int \<Rightarrow> int \<Rightarrow> int" where
  "yearDown D y = (if D < dayFromYear y then yearDown D (y - 1) else yearUp D y)"
  by pat_completeness auto
termination
proof (relation "measure (\<lambda>(D, y). nat (dayFromYear y - D))")
  fix D y assume "D < dayFromYear y"
  then show "((D, y - 1), D, y) \<in> measure (\<lambda>(D, y). nat (dayFromYear y - D))"
    using dayFromYear_step [of "y - 1"] by simp
qed simp

declare yearUp.simps [simp del] yearDown.simps [simp del]

definition yearFromDay :: "int \<Rightarrow> int" where
  "yearFromDay D = yearDown D (1970 + D div 365)"

text \<open>Year, month and day of a day number: the last month that starts by then.\<close>

function monthUp :: "int \<Rightarrow> nat \<Rightarrow> nat \<Rightarrow> nat" where
  "monthUp y yd m = (if m < 12 \<and> monthStart y (Suc m) \<le> yd then monthUp y yd (Suc m) else m)"
  by pat_completeness auto
termination by (relation "measure (\<lambda>(y, yd, m). 12 - m)") auto

declare monthUp.simps [simp del]

definition civil :: "int \<Rightarrow> int \<times> nat \<times> nat" where
  "civil D =
     (let y = yearFromDay D; yd = nat (D - dayFromYear y); m = monthUp y yd 1
      in (y, m, yd - monthStart y m + 1))"

definition pad2 :: "nat \<Rightarrow> jsstr" where "pad2 n = [48 + n div 10 mod 10, 48 + n mod 10]"
definition pad3 :: "nat \<Rightarrow> jsstr" where "pad3 n = (48 + n div 100 mod 10) # pad2 n"
definition pad4 :: "nat \<Rightarrow> jsstr" where "pad4 n = (48 + n div 1000 mod 10) # pad3 n"
definition pad6 :: "int \<Rightarrow> jsstr" where
  "pad6 n = map (\<lambda>k. 48 + nat (n div k mod 10)) [100000, 10000, 1000, 100, 10, 1]"

text \<open>\<open>toISOString\<close>; a year outside 0 to 9999 takes a sign and six digits.\<close>

definition isoYear :: "int \<Rightarrow> jsstr" where
  "isoYear y = (if 0 \<le> y \<and> y \<le> 9999 then pad4 (nat y) else if y < 0 then 45 # pad6 (- y) else 43 # pad6 y)"

definition toISOString :: "int \<Rightarrow> jsstr" where
  "toISOString t =
     (let D = t div 86400000; ms = t mod 86400000 in
      case civil D of
        (y, m, d) \<Rightarrow>
          isoYear y @ 45 # pad2 m @ 45 # pad2 d @ 84 # pad2 (nat (ms div 3600000)) @ 58 # pad2 (nat (ms div 60000 mod 60))
          @ 58 # pad2 (nat (ms div 1000 mod 60)) @ 46 # pad3 (nat (ms mod 1000)) @ [90])"

text \<open>
  \<open>Number((fraction ?? "").padEnd(3, "0").slice(0, 3))\<close> and the instant; \<open>None\<close> is the
  error \<open>ZONED.exec(text)!\<close> raises on text the expression does not match.
\<close>

definition millisOf :: "jsstr \<Rightarrow> int" where
  "millisOf f = numOf (take 3 (f @ replicate (3 - length f) 48))"

definition timeValue :: "zparts \<Rightarrow> int" where
  "timeValue p =
     makeDay (z_year p) (nat (z_month p)) (nat (z_day p)) * 86400000
     + z_hour p * 3600000 + z_minute p * 60000 + z_second p * 1000 + millisOf (z_fraction p)
     - (case z_zone p of None \<Rightarrow> 0 | Some (neg, h, m) \<Rightarrow> (if neg then - 1 else 1) * (h * 60 + m)) * 60000"

definition instant :: "jsstr \<Rightarrow> jsstr option" where
  "instant s = map_option (\<lambda>p. toISOString (timeValue p)) (ZONED s)"

definition utcYear :: "int \<Rightarrow> int" where
  "utcYear t = fst (civil (t div 86400000))"

section \<open>The calendar is consistent\<close>

lemma yearUp_bounds: "dayFromYear y \<le> D \<Longrightarrow> dayFromYear (yearUp D y) \<le> D \<and> D < dayFromYear (yearUp D y + 1)"
proof (induction D y rule: yearUp.induct)
  case (1 D y)
  then show ?case by (cases "dayFromYear (y + 1) \<le> D") (simp_all add: yearUp.simps [of D y])
qed

lemma yearDown_bounds: "dayFromYear (yearDown D y) \<le> D \<and> D < dayFromYear (yearDown D y + 1)"
proof (induction D y rule: yearDown.induct)
  case (1 D y)
  then show ?case by (cases "D < dayFromYear y") (simp_all add: yearDown.simps [of D y] yearUp_bounds)
qed

lemma yearFromDay_bounds: "dayFromYear (yearFromDay D) \<le> D" "D < dayFromYear (yearFromDay D + 1)"
  by (simp_all add: yearFromDay_def yearDown_bounds)

lemma div_pred: "y div k - (y - 1) div k = (if y mod k = 0 then 1 else 0)" if "0 < k" for y k :: int
proof (cases "y mod k = 0")
  case True
  have e: "y - 1 = k * (y div k - 1) + (k - 1)"
    using True mult_div_mod_eq [of k y] by (simp add: right_diff_distrib)
  have "(y - 1) div k = y div k - 1" 
    using that by (intro int_div_pos_eq [OF e]) simp_all
  with True show ?thesis by simp
next
  case False
  have "y - 1 = k * (y div k) + (y mod k - 1)" by simp
  moreover have "0 \<le> y mod k - 1" using False that by (metis int_one_le_iff_zero_less diff_ge_0_iff_ge order_le_less pos_mod_sign)
  moreover have "y mod k - 1 < k" using that pos_mod_bound [of k y] by linarith
  ultimately have "(y - 1) div k = y div k" by (intro int_div_pos_eq)
  with False show ?thesis by simp
qed

lemma leap_mods: "y mod 400 = 0 \<Longrightarrow> y mod 100 = 0" "y mod 100 = 0 \<Longrightarrow> y mod 4 = 0" for y :: int
  by presburger+

lemma year_length: "dayFromYear (y + 1) = dayFromYear y + (if leapYear y then 366 else 365)"
proof -
  have "a - a' = (if p then 1 else 0) \<Longrightarrow> b - b' = (if q then 1 else 0) \<Longrightarrow> c - c' = (if r then 1 else 0) \<Longrightarrow>
    (r \<Longrightarrow> q) \<Longrightarrow> (q \<Longrightarrow> p) \<Longrightarrow>
    365 * y + a - b + c - 719162 =
    365 * (y - 1) + a' - b' + c' - 719162 + (if p \<and> (\<not> q \<or> r) then 366 else 365)"
    for a a' b b' c c' :: int and p q r
    by (cases p; cases q; cases r) auto
  from this [OF div_pred div_pred div_pred leap_mods]
  show ?thesis unfolding dayFromYear_def leapYear_def add_diff_cancel_right' by simp
qed

lemma monthStart_13: "monthStart y 13 = (if leapYear y then 366 else 365)"
  by (simp add: eval_nat_numeral monthDays_def)

lemma monthUp_bounds:
  assumes "monthStart y m \<le> yd" "yd < monthStart y 13" "1 \<le> m" "m \<le> 12"
  shows "monthStart y (monthUp y yd m) \<le> yd \<and> yd < monthStart y (Suc (monthUp y yd m)) \<and> 1 \<le> monthUp y yd m \<and> monthUp y yd m \<le> 12"
  using assms
proof (induction y yd m rule: monthUp.induct)
  case (1 y yd m)
  show ?case
  proof (cases "m < 12 \<and> monthStart y (Suc m) \<le> yd")
    case True
    with 1 show ?thesis by (simp add: monthUp.simps [of y yd m] del: monthStart.simps)
  next
    case False
    then have "yd < monthStart y (Suc m)"
      using "1.prems" by (cases "m = 12") (auto simp del: monthStart.simps)
    with 1 False show ?thesis by (simp add: monthUp.simps [of y yd m] del: monthStart.simps)
  qed
qed

lemma civil_correct:
  assumes "civil D = (y, m, d)"
  shows "makeDay y m d = D" "1 \<le> m" "m \<le> 12" "1 \<le> d" "d \<le> monthDays y m"
proof -
  define yd where "yd = nat (D - dayFromYear y)"
  have y: "y = yearFromDay D" using assms by (simp add: civil_def Let_def)
  have m: "m = monthUp y yd 1" and d: "d = yd - monthStart y m + 1"
    using assms by (auto simp: civil_def Let_def yd_def y)
  have "yd < monthStart y 13"
    unfolding monthStart_13 using yearFromDay_bounds [of D] year_length [of y]
    by (simp add: yd_def y split: if_splits)
  then have b: "monthStart y m \<le> yd" "yd < monthStart y (Suc m)" "1 \<le> m" "m \<le> 12"
    using monthUp_bounds [of y 1 yd] by (auto simp: m)
  have "D = dayFromYear y + int yd" using yearFromDay_bounds [of D] by (simp add: yd_def y)
  then show "makeDay y m d = D" using b(1) by (simp add: makeDay_def d)
  show "1 \<le> m" "m \<le> 12" "1 \<le> d" "d \<le> monthDays y m" using b by (auto simp: d)
qed

section \<open>Spelling and reading\<close>

lemma isDigit_digit: "isDigit (48 + n mod 10)"
  by (simp add: isDigit_def)

lemma pad_digits: "list_all isDigit (pad2 n)" "list_all isDigit (pad3 n)" "list_all isDigit (pad4 n)"
  by (simp_all add: pad2_def pad3_def pad4_def isDigit_digit)

lemma numOf_pad2: "numOf (pad2 n) = int (n mod 100)"
proof -
  have "n mod (10 * 10) = 10 * (n div 10 mod 10) + n mod 10" by (rule mod_mult2_eq)
  then show ?thesis by (simp add: numOf_def pad2_def)
qed

lemma numOf_pad3: "numOf (pad3 n) = int (n mod 1000)"
proof -
  have "n mod (100 * 10) = 100 * (n div 100 mod 10) + n mod 100" by (rule mod_mult2_eq)
  then show ?thesis using numOf_pad2 [of n] by (simp add: numOf_def pad3_def pad2_def)
qed

lemma numOf_pad4: "numOf (pad4 n) = int (n mod 10000)"
proof -
  have "n mod (1000 * 10) = 1000 * (n div 1000 mod 10) + n mod 1000" by (rule mod_mult2_eq)
  then show ?thesis using numOf_pad3 [of n] by (simp add: numOf_def pad4_def pad3_def pad2_def)
qed

lemma length_pad [simp]: "length (pad2 n) = 2" "length (pad3 n) = 3" "length (pad4 n) = 4"
  by (simp_all add: pad2_def pad3_def pad4_def)

lemma digits_pad:
  "n < 100 \<Longrightarrow> digits 2 (pad2 n @ r) = Some (int n, r)"
  "n < 10000 \<Longrightarrow> digits 4 (pad4 n @ r) = Some (int n, r)"
  by (simp_all add: digits_def pad_digits numOf_pad2 numOf_pad4)

lemma literal_Cons [simp]: "literal c (c # r) = Some r"
  by (simp add: literal_def)

lemma takeWhile_pad3: "takeWhile isDigit (take 9 (pad3 n @ [90])) = pad3 n"
proof -
  have "takeWhile isDigit (pad3 n @ [90]) = pad3 n @ takeWhile isDigit [90]"
    using pad_digits(2) [of n] by (intro takeWhile_append2) (simp add: list_all_iff)
  then show ?thesis by (simp add: isDigit_def)
qed

lemma fraction_pad3: "fraction (46 # pad3 n @ [90]) = Some (pad3 n, [90])"
  unfolding fraction_def literal_Cons option.case takeWhile_pad3 Let_def
  by (simp add: pad3_def)

lemma ZONED_spelled:
  assumes "y < 10000" "mo < 100" "d < 100" "h < 100" "mi < 100" "s < 100"
  shows "ZONED (pad4 y @ 45 # pad2 mo @ 45 # pad2 d @ 84 # pad2 h @ 58 # pad2 mi @ 58 # pad2 s @ 46 # pad3 n @ [90])
    = Some \<lparr>z_year = int y, z_month = int mo, z_day = int d, z_hour = int h, z_minute = int mi, z_second = int s,
            z_fraction = pad3 n, z_zone = None\<rparr>"
  using assms by (simp add: ZONED_def digits_pad fraction_pad3 zone_def)

lemma monthDays_le: "monthDays y m \<le> 31"
  by (simp add: monthDays_def)

lemma scaled_parts: "a div b * (b * c) + a mod b * c = (a :: nat) * c"
  by (simp only: mult.assoc [symmetric] add_mult_distrib [symmetric] div_mult_mod_eq)

lemma day_parts:
  fixes n :: nat
  shows "n div 3600000 * 3600000 + n div 60000 mod 60 * 60000 + n div 1000 mod 60 * 1000 + n mod 1000 = n"
proof -
  have "n div 3600000 * 3600000 + n div 60000 mod 60 * 60000 = n div 60000 * 60000"
    using scaled_parts [of "n div 60000" 60 60000] by (simp add: div_mult2_eq [symmetric])
  moreover have "n div 60000 * 60000 + n div 1000 mod 60 * 1000 = n div 1000 * 1000"
    using scaled_parts [of "n div 1000" 60 1000] by (simp add: div_mult2_eq [symmetric])
  ultimately show ?thesis using div_mult_mod_eq [of n 1000] by presburger
qed

lemma ZONED_toISOString:
  assumes y: "0 \<le> utcYear t" "utcYear t \<le> 9999"
  obtains p where "ZONED (toISOString t) = Some p" "timeValue p = t" "zoned (toISOString t)"
proof -
  obtain y m d where c: "civil (t div 86400000) = (y, m, d)" by (metis prod_cases3)
  define n where "n = nat (t mod 86400000)"
  have n: "n < 86400000" and t: "t = t div 86400000 * 86400000 + int n" by (simp_all add: n_def)
  have y': "0 \<le> y" "y \<le> 9999" using y c by (simp_all add: utcYear_def)
  note cc = civil_correct [OF c]
  let ?p = "\<lparr>z_year = y, z_month = int m, z_day = int d, z_hour = int (n div 3600000), z_minute = int (n div 60000 mod 60),
    z_second = int (n div 1000 mod 60), z_fraction = pad3 (n mod 1000), z_zone = None\<rparr>"
  have h: "n div 3600000 < 24" using n by (simp add: less_mult_imp_div_less)
  have m60: "k mod 60 < (100 :: nat)" for k using mod_less_divisor [of 60 k] by linarith
  have d31: "d < 100" using cc(5) monthDays_le [of y m] by linarith
  have ti: "t mod 86400000 = int n" by (simp add: n_def)
  have nats: "nat (int n div k) = n div nat k" "nat (int n div k mod l) = n div nat k mod nat l" "nat (int n mod k) = n mod nat k"
    if "0 < k" "0 < l" for k l :: int
    using that by (simp_all add: nat_div_distrib nat_mod_distrib pos_imp_zdiv_nonneg_iff)
  have z: "ZONED (toISOString t) = Some ?p"
    unfolding toISOString_def Let_def c prod.case ti
    using y' cc(3) d31 h m60 by (simp add: isoYear_def ZONED_spelled nats nat_div_distrib nat_mod_distrib)
  have ms: "millisOf (pad3 (n mod 1000)) = int (n mod 1000)" by (simp add: millisOf_def numOf_pad3)
  have "int (n div 3600000) * 3600000 + int (n div 60000 mod 60) * 60000 + int (n div 1000 mod 60) * 1000 + int (n mod 1000) = int n"
    by (metis (mono_tags, lifting) day_parts of_nat_add of_nat_mult of_nat_numeral)
  then have "timeValue ?p = t"
    using t cc(1) y' ms by (simp add: timeValue_def)
  moreover have "zoned (toISOString t)"
    unfolding zoned_def z using cc h y' by simp
  ultimately show ?thesis using that z by blast
qed

lemma instant_stable:
  assumes "instant s = Some r" "ZONED s = Some p" "0 \<le> utcYear (timeValue p)" "utcYear (timeValue p) \<le> 9999"
  shows "instant r = Some r" "zoned r"
proof -
  have r: "r = toISOString (timeValue p)" using assms(1,2) by (simp add: instant_def)
  obtain q where "ZONED r = Some q" "timeValue q = timeValue p" "zoned r"
    using ZONED_toISOString [OF assms(3,4)] r by metis
  then show "instant r = Some r" "zoned r" by (simp_all add: instant_def r)
qed

end
