(* ===== verification/Effects.thy ===== *)
theory Effects
  imports Calendar
begin

text \<open>
  \<^verbatim>\<open>packages/backend/server/bindings/effects.mts\<close> and
  \<^verbatim>\<open>packages/backend/server/api/stream.mts\<close>: the declarations a callback makes (tracks and
  invalidations of records on Streams), validated against the configured Models and
  captured by a collector that belongs to one callback.

  A collector is the record of functions \<open>StreamCollector\<close> names, over the state its
  closures share; a call answers its result and the state after it. Values a caller passes
  are plain data: no getter of theirs runs code.
\<close>

section \<open>Identities\<close>

datatype eerr =
    ModelNeedsName | AccessorClash jsstr jsstr | NoIdentityFields jsstr | NotAField jsstr jsstr
  | UnknownEnum jsstr jsstr | UnsupportedType jsstr jsstr
  | IdentityNotObject jsstr jsstr | FieldMissing jsstr jsstr jsstr | FieldInvalid jsstr jsstr jsstr
  | DeviceOnly jsstr jsstr | RawIdentity jsstr | UnknownModel jsstr jsstr | NotAnArray jsstr
  | BlankStream | LoneSurrogateName | LoneSurrogateIdentity jsstr | NamesNotArray
  | Closed jsstr | OnlyTracks | TooManyPairs jsstr | TooManyBytes jsstr | TypeErr

text \<open>How one identity component is encoded and spelled; the source keeps the two closures.\<close>

datatype ctype = CEnum "jsstr list" | CString | CUuid | CBoolean | CInt | CFloat | CDateTime

text \<open>\<open>/^[0-9a-f]{8}-[0-9a-f]{4}-[1-8][0-9a-f]{3}-[89ab][0-9a-f]{3}-[0-9a-f]{12}$/i\<close>\<close>

definition hexDigit :: "nat \<Rightarrow> bool" where
  "hexDigit c = (48 \<le> c \<and> c \<le> 57 \<or> 65 \<le> c \<and> c \<le> 70 \<or> 97 \<le> c \<and> c \<le> 102)"

definition UUID :: "jsstr \<Rightarrow> bool" where
  "UUID s =
     (length s = 36
      \<and> list_all (\<lambda>i. if i \<in> {8, 13, 18, 23} then s ! i = 45 else hexDigit (s ! i)) [0..<36]
      \<and> 49 \<le> s ! 14 \<and> s ! 14 \<le> 56 \<and> s ! 19 \<in> {56, 57, 65, 66, 97, 98})"

definition lowerAscii :: "nat \<Rightarrow> nat" where
  "lowerAscii c = (if 65 \<le> c \<and> c \<le> 90 then c + 32 else c)"

text \<open>\<open>component\<close>\<close>

definition componentOf ::
  "jsstr \<Rightarrow> jsstr \<Rightarrow> jsv \<Rightarrow> (jsstr, jsstr list) jsmap \<Rightarrow> (eerr, ctype) res" where
  "componentOf model fname type enums =
     (if field type (js ''kind'') = Str (js ''enum'') then
        (case field type (js ''name'') of
           Str n \<Rightarrow> (case map_of enums n of Some values \<Rightarrow> Inr (CEnum values) | None \<Rightarrow> Inl (UnknownEnum model fname))
         | _ \<Rightarrow> Inl (UnknownEnum model fname))
      else if field type (js ''kind'') = Str (js ''scalar'') then
        (case map_of [(Str (js ''string''), CString), (Str (js ''uuid''), CUuid), (Str (js ''boolean''), CBoolean),
                      (Str (js ''int''), CInt), (Str (js ''float''), CFloat), (Str (js ''dateTime''), CDateTime)]
                (field type (js ''name'')) of
           Some c \<Rightarrow> Inr c | None \<Rightarrow> Inl (UnsupportedType model fname))
      else Inl (UnsupportedType model fname))"

text \<open>\<open>None\<close> is \<open>INVALID\<close>.\<close>

fun encode :: "ctype \<Rightarrow> jsv \<Rightarrow> jsv option" where
  "encode (CEnum values) (Str s) = (if s \<in> set values then Some (Str s) else None)"
| "encode CString (Str s) = Some (Str s)"
| "encode CUuid (Str s) = (if UUID s then Some (Str s) else None)"
| "encode CBoolean (Bool b) = Some (Bool b)"
| "encode CInt v = (if isSafeInteger v then Some v else None)"
| "encode CFloat v = (if isFiniteNum v then Some v else None)"
| "encode CDateTime (Date (Some t)) = (if zoned (toISOString t) then Some (Str (toISOString t)) else None)"
| "encode CDateTime (Str s) = (if zoned s then Some (Str s) else None)"
| "encode _ _ = None"

text \<open>The third component, on a value the second answered; \<open>TypeErr\<close> is the throw of \<open>instant\<close>.\<close>

fun spell :: "ctype \<Rightarrow> jsv \<Rightarrow> (eerr, jsv) res" where
  "spell CUuid (Str s) = Inr (Str (map lowerAscii s))"
| "spell CUuid v = Inl TypeErr"
| "spell CDateTime (Str s) = (case instant s of Some r \<Rightarrow> Inr (Str r) | None \<Rightarrow> Inl TypeErr)"
| "spell CDateTime v = Inl TypeErr"
| "spell _ v = Inr v"

type_synonym identity = "(jsstr, jsv) jsmap"

record model_entry =
  e_name :: jsstr
  e_key :: jsstr
  e_scalar :: "jsstr option"
  e_components :: "(jsstr \<times> ctype) list"

definition member :: "identity \<Rightarrow> jsstr \<Rightarrow> jsv" where
  "member i k = (case map_of i k of None \<Rightarrow> Undefined | Some v \<Rightarrow> v)"

definition canonical :: "model_entry \<Rightarrow> identity \<Rightarrow> (eerr, identity) res" where
  "canonical e i =
     foldM (\<lambda>copy (f, c). bind_res (spell c (member i f)) (\<lambda>v. Inr (mput f v copy))) [] (e_components e)"

fun isObject :: "jsv \<Rightarrow> bool" where
  "isObject (Obj _) = True"
| "isObject (Arr _) = True"
| "isObject (Date _) = True"
| "isObject _ = False"

definition encodeField :: "model_entry \<Rightarrow> jsv \<Rightarrow> jsstr \<Rightarrow> identity \<Rightarrow> jsstr \<times> ctype \<Rightarrow> (eerr, identity) res" where
  "encodeField e value caller copy = (\<lambda>(f, c).
     if nullish (field value f) then Inl (FieldMissing caller (e_name e) f)
     else case encode c (field value f) of
            None \<Rightarrow> Inl (FieldInvalid caller (e_name e) f)
          | Some v \<Rightarrow> Inr (mput f v copy))"

definition snapshotOf :: "model_entry \<Rightarrow> jsv \<Rightarrow> jsstr \<Rightarrow> (eerr, identity) res" where
  "snapshotOf e value caller =
     (if \<not> isObject value then Inl (IdentityNotObject caller (e_name e))
      else bind_res (foldM (encodeField e value caller) [] (e_components e)) (canonical e))"

record effect_model =
  m_name :: jsv
  m_identity :: "jsstr list option"
  m_fields :: "(jsstr \<times> jsv) list"

definition entryOf ::
  "(jsstr, jsstr list) jsmap \<Rightarrow> (jsstr, jsstr) jsmap \<times> model_entry list \<Rightarrow> effect_model \<Rightarrow>
   (eerr, (jsstr, jsstr) jsmap \<times> model_entry list) res" where
  "entryOf values = (\<lambda>(owners, entries) model.
     case m_name model of
       Str name \<Rightarrow>
         if name = [] then Inl ModelNeedsName
         else (case map_of owners (lowerFirst name) of
             Some other \<Rightarrow> Inl (AccessorClash other name)
           | None \<Rightarrow>
               (case m_identity model of
                  Some (f # fs) \<Rightarrow>
                    bind_res (traverse (\<lambda>g. case map_of (m_fields model) g of
                                              None \<Rightarrow> Inl (NotAField name g)
                                            | Some type \<Rightarrow> bind_res (componentOf name g type values) (\<lambda>c. Inr (g, c)))
                                (f # fs)) (\<lambda>components.
                      Inr (mput (lowerFirst name) name owners,
                           entries @ [\<lparr>e_name = name, e_key = lowerFirst name,
                                       e_scalar = (if fs = [] then Some f else None), e_components = components\<rparr>]))
                | _ \<Rightarrow> Inl (NoIdentityFields name)))
     | _ \<Rightarrow> Inl ModelNeedsName)"

definition entriesOf :: "effect_model list \<Rightarrow> (jsstr \<times> jsstr list) list \<Rightarrow> (eerr, model_entry list) res" where
  "entriesOf models enums =
     bind_res (foldM (entryOf (fold (\<lambda>(n, vs). mput n vs) enums [])) ([], []) models) (\<lambda>(_, entries). Inr entries)"

section \<open>Declarations\<close>

definition publishable :: "jsstr list option \<Rightarrow> jsstr \<Rightarrow> jsstr \<Rightarrow> (eerr, unit) res" where
  "publishable loaded model caller =
     (case loaded of
        Some names \<Rightarrow> guard_res (model \<in> set names) (DeviceOnly caller model)
      | None \<Rightarrow> Inr ())"

definition entryNamed :: "model_entry list \<Rightarrow> jsstr \<Rightarrow> model_entry option" where
  "entryNamed entries name = find (\<lambda>e. e_name e = name) entries"

definition reference ::
  "model_entry list \<Rightarrow> jsstr list option \<Rightarrow> jsstr \<Rightarrow> jsv \<Rightarrow> (eerr, model_entry \<times> identity) res" where
  "reference entries loaded caller value =
     (case field value (js ''model'') of
        Str model \<Rightarrow>
          (case entryNamed entries model of
             None \<Rightarrow> Inl (UnknownModel caller model)
           | Some e \<Rightarrow>
               bind_res (publishable loaded model caller) (\<lambda>_.
               bind_res (snapshotOf e (field value (js ''identity'')) caller) (\<lambda>i. Inr (e, i))))
      | _ \<Rightarrow> Inl (RawIdentity caller))"

definition listOf ::
  "model_entry list \<Rightarrow> jsstr list option \<Rightarrow> jsv \<Rightarrow> jsstr \<Rightarrow> (eerr, (model_entry \<times> identity) list) res" where
  "listOf entries loaded records caller =
     (case records of Arr vs \<Rightarrow> traverse (reference entries loaded caller) vs | _ \<Rightarrow> Inl (NotAnArray caller))"

definition streamNameCheck :: "jsv \<Rightarrow> (eerr, unit) res" where
  "streamNameCheck name = (case name of Str s \<Rightarrow> guard_res (trim s \<noteq> []) BlankStream | _ \<Rightarrow> Inl BlankStream)"

text \<open>\<open>/\p{Surrogate}/u\<close>\<close>

definition loneSurrogate :: "jsstr \<Rightarrow> bool" where
  "loneSurrogate s = list_ex (\<lambda>c. 55296 \<le> c \<and> c \<le> 57343) (codePoints s)"

record record_ref =
  r_model :: jsstr
  r_identity :: identity

datatype intent = Track jsstr record_ref | Invalidate "jsstr list option" record_ref

section \<open>Stream handles\<close>

text \<open>
  \<open>StreamCollector\<close> over a state. \<open>guard\<close> answers what its body answers, whatever the
  type; what it does besides is what it does with an error, so that is the field.
\<close>

record 's collector =
  c_entries :: "model_entry list"
  c_guard :: "eerr \<Rightarrow> 's \<Rightarrow> 's"
  c_check :: "jsstr \<Rightarrow> 's \<Rightarrow> (eerr, unit) res \<times> 's"
  c_name :: "jsv \<Rightarrow> (eerr, unit) res"
  c_publishable :: "jsstr \<Rightarrow> jsstr \<Rightarrow> (eerr, unit) res"
  c_list :: "jsv \<Rightarrow> jsstr \<Rightarrow> (eerr, (model_entry \<times> identity) list) res"
  c_record :: "intent list \<Rightarrow> jsstr \<Rightarrow> 's \<Rightarrow> (eerr, unit) res \<times> 's"

definition guarded :: "'s collector \<Rightarrow> ('s \<Rightarrow> (eerr, 'a) res \<times> 's) \<Rightarrow> 's \<Rightarrow> (eerr, 'a) res \<times> 's" where
  "guarded c body s = (case body s of (Inl e, s') \<Rightarrow> (Inl e, c_guard c e s') | (Inr a, s') \<Rightarrow> (Inr a, s'))"

definition elements :: "jsv \<Rightarrow> jsv list" where
  "elements v = (case v of Arr vs \<Rightarrow> vs | _ \<Rightarrow> [v])"

definition wrapScalar :: "model_entry \<Rightarrow> jsv \<Rightarrow> jsv" where
  "wrapScalar e v =
     (case e_scalar e of
        Some f \<Rightarrow> if f \<noteq> [] \<and> (\<not> isObject v \<or> (case v of Date _ \<Rightarrow> True | _ \<Rightarrow> False)) then Obj [(f, v)] else v
      | None \<Rightarrow> v)"

definition operands ::
  "'s collector \<Rightarrow> jsv \<Rightarrow> jsstr \<Rightarrow> model_entry option \<Rightarrow> 's \<Rightarrow> (eerr, record_ref list) res \<times> 's" where
  "operands c value caller entry s =
     (case c_check c caller s of
        (Inl e, s') \<Rightarrow> (Inl e, s')
      | (Inr _, s') \<Rightarrow>
          ((case entry of
              None \<Rightarrow> bind_res (c_list c (Arr (elements value)) caller) (\<lambda>ds.
                Inr (map (\<lambda>(e, i). \<lparr>r_model = e_name e, r_identity = i\<rparr>) ds))
            | Some e \<Rightarrow> bind_res (c_publishable c (e_name e) caller) (\<lambda>_.
                traverse (\<lambda>v. bind_res (snapshotOf e (wrapScalar e v) caller) (\<lambda>i.
                            Inr \<lparr>r_model = e_name e, r_identity = i\<rparr>)) (elements value))), s'))"

text \<open>
  A call through a namespace: on the namespace itself (\<open>None\<close>), or through the accessor
  of a Model, which names itself in the caller.
\<close>

definition callerOf :: "jsstr \<Rightarrow> model_entry option \<Rightarrow> jsstr" where
  "callerOf caller entry = (case entry of None \<Rightarrow> caller | Some e \<Rightarrow> caller @ js ''.'' @ e_key e)"

definition namespace ::
  "'s collector \<Rightarrow> jsstr \<Rightarrow> (record_ref list \<Rightarrow> 's \<Rightarrow> (eerr, unit) res \<times> 's) \<Rightarrow>
   model_entry option \<Rightarrow> jsv \<Rightarrow> 's \<Rightarrow> (eerr, unit) res \<times> 's" where
  "namespace c caller body entry value =
     guarded c (\<lambda>s. case operands c value (callerOf caller entry) entry s of
                      (Inl e, s') \<Rightarrow> (Inl e, s') | (Inr records, s') \<Rightarrow> body records s')"

definition streamInvalidate ::
  "'s collector \<Rightarrow> jsstr list option \<Rightarrow> model_entry option \<Rightarrow> jsv \<Rightarrow> 's \<Rightarrow> (eerr, unit) res \<times> 's" where
  "streamInvalidate c streams =
     namespace c (js ''invalidate'') (\<lambda>records.
       c_record c (if streams = Some [] then [] else map (Invalidate streams) records) (js ''invalidate''))"

text \<open>\<open>streamHandle\<close> captures the names; its \<open>track\<close> and \<open>invalidate\<close> are calls with them.\<close>

definition streamHandle :: "'s collector \<Rightarrow> jsv \<Rightarrow> 's \<Rightarrow> (eerr, jsstr list) res \<times> 's" where
  "streamHandle c value =
     guarded c (\<lambda>s. case c_check c (js ''stream'') s of
        (Inl e, s') \<Rightarrow> (Inl e, s')
      | (Inr _, s') \<Rightarrow>
          (case (case value of Str n \<Rightarrow> Arr [Str n] | v \<Rightarrow> v) of
             Arr vs \<Rightarrow>
               (bind_res (traverse (\<lambda>v. bind_res (c_name c v) (\<lambda>_. case v of Str n \<Rightarrow> Inr n | _ \<Rightarrow> Inl TypeErr)) vs)
                  (\<lambda>captured. Inr (js_set captured)), s')
           | _ \<Rightarrow> (Inl NamesNotArray, s')))"

definition streamTrack ::
  "'s collector \<Rightarrow> jsstr list \<Rightarrow> model_entry option \<Rightarrow> jsv \<Rightarrow> 's \<Rightarrow> (eerr, unit) res \<times> 's" where
  "streamTrack c names =
     namespace c (js ''stream.track'') (\<lambda>records.
       c_record c (concat (map (\<lambda>stream. map (Track stream) records) names)) (js ''stream.track''))"

section \<open>The collector of a Mutation\<close>

record effects =
  opened :: bool
  declarations :: "intent list"

definition effectsCollector :: "model_entry list \<Rightarrow> jsstr list option \<Rightarrow> effects collector" where
  "effectsCollector entries loaded =
     \<lparr>c_entries = entries, c_guard = (\<lambda>_ s. s),
      c_check = (\<lambda>caller s. (guard_res (opened s) (Closed caller), s)),
      c_name = streamNameCheck,
      c_publishable = publishable loaded,
      c_list = listOf entries loaded,
      c_record = (\<lambda>intents _ s. (Inr (), s\<lparr>declarations := declarations s @ intents\<rparr>))\<rparr>"

definition new_effects :: effects where
  "new_effects = \<lparr>opened = True, declarations = []\<rparr>"

definition closeEffects :: "effects \<Rightarrow> effects" where
  "closeEffects s = s\<lparr>opened := False\<rparr>"

section \<open>The collector of a Load\<close>

definition LOAD_ENROLLMENT_PAIRS :: nat where "LOAD_ENROLLMENT_PAIRS = 1000"
definition LOAD_ENROLLMENT_BYTES :: nat where "LOAD_ENROLLMENT_BYTES = 1024 * 1024"

text \<open>\<open>JSON.stringify\<close> of a string: quotes, backslashes, control characters and lone surrogates are escaped.\<close>

definition hexChar :: "nat \<Rightarrow> nat" where
  "hexChar n = (if n < 10 then 48 + n else 87 + n)"

definition unicodeEscape :: "nat \<Rightarrow> jsstr" where
  "unicodeEscape u = [92, 117, hexChar (u div 4096 mod 16), hexChar (u div 256 mod 16), hexChar (u div 16 mod 16), hexChar (u mod 16)]"

definition jsonUnit :: "nat \<Rightarrow> jsstr" where
  "jsonUnit u =
     (if u = 34 then [92, 34] else if u = 92 then [92, 92] else if u = 8 then [92, 98] else if u = 9 then [92, 116]
      else if u = 10 then [92, 110] else if u = 12 then [92, 102] else if u = 13 then [92, 114]
      else if u < 32 then unicodeEscape u else [u])"

fun jsonChars :: "jsstr \<Rightarrow> jsstr" where
  "jsonChars [] = []"
| "jsonChars [u] = (if highSurrogate u \<or> lowSurrogate u then unicodeEscape u else jsonUnit u)"
| "jsonChars (u # v # us) =
     (if highSurrogate u \<and> lowSurrogate v then u # v # jsonChars us
      else (if highSurrogate u \<or> lowSurrogate u then unicodeEscape u else jsonUnit u) @ jsonChars (v # us))"

definition jsonString :: "jsstr \<Rightarrow> jsstr" where
  "jsonString s = 34 # jsonChars s @ [34]"

fun joinComma :: "jsstr list \<Rightarrow> jsstr" where
  "joinComma [] = []"
| "joinComma [x] = x"
| "joinComma (x # xs) = x @ 44 # joinComma xs"

text \<open>
  \<open>canonicalJson\<close>. \<open>num\<close> is \<open>Number.prototype.toString\<close> of a finite number. The values it
  meets are those of a TrackIntent, whose identity holds strings, booleans and finite
  numbers; \<open>undefined\<close> and a function are spelled as a template spells them.
\<close>

fun canonicalJson :: "(jsnum \<Rightarrow> jsstr) \<Rightarrow> jsv \<Rightarrow> jsstr" where
  "canonicalJson num Null = js ''null''"
| "canonicalJson num (Bool b) = (if b then js ''true'' else js ''false'')"
| "canonicalJson num (Num n) = (case n of JsNaN \<Rightarrow> js ''null'' | JsInf _ \<Rightarrow> js ''null'' | _ \<Rightarrow> num n)"
| "canonicalJson num (Str s) = jsonString s"
| "canonicalJson num (Arr vs) = js ''['' @ joinComma (map (canonicalJson num) vs) @ js '']''"
| "canonicalJson num (Obj fs) =
     js ''{'' @ joinComma (map snd (sort_key fst (map (\<lambda>(k, v). (k, jsonString k @ 58 # canonicalJson num v)) fs))) @ js ''}''"
| "canonicalJson num (Date d) = js ''{}''"
| "canonicalJson num _ = js ''undefined''"

definition recordValue :: "record_ref \<Rightarrow> jsv" where
  "recordValue r = Obj [(js ''model'', Str (r_model r)), (js ''identity'', Obj (r_identity r))]"

definition trackValue :: "jsstr \<Rightarrow> record_ref \<Rightarrow> jsv" where
  "trackValue stream r = Obj [(js ''kind'', Str (js ''track'')), (js ''stream'', Str stream), (js ''record'', recordValue r)]"

text \<open>\<open>Buffer.byteLength(text, "utf8")\<close>; a lone surrogate is replaced by three bytes.\<close>

definition enrollmentBytes :: "(jsnum \<Rightarrow> jsstr) \<Rightarrow> jsstr \<times> record_ref \<Rightarrow> nat" where
  "enrollmentBytes num = (\<lambda>(stream, r). length (utf8_bytes (canonicalJson num (trackValue stream r))))"

datatype failure_kind = Overflow | InvalidDeclaration

record tracking =
  t_open :: bool
  t_failed :: "(failure_kind \<times> eerr) option"
  t_pairs :: "(jsstr, jsstr \<times> record_ref) jsmap"
  t_bytes :: nat

definition new_tracking :: tracking where
  "new_tracking = \<lparr>t_open = True, t_failed = None, t_pairs = [], t_bytes = 0\<rparr>"

definition failureKind :: "eerr \<Rightarrow> failure_kind" where
  "failureKind e = (case e of TooManyPairs _ \<Rightarrow> Overflow | TooManyBytes _ \<Rightarrow> Overflow | _ \<Rightarrow> InvalidDeclaration)"

text \<open>The \<open>catch\<close> of \<open>declare\<close>.\<close>

definition keepFailure :: "eerr \<Rightarrow> tracking \<Rightarrow> tracking" where
  "keepFailure e s =
     (case t_failed s of
        None \<Rightarrow> s\<lparr>t_failed := Some (failureKind e, e)\<rparr>
      | Some (kind, _) \<Rightarrow>
          if failureKind e = Overflow \<and> kind \<noteq> Overflow then s\<lparr>t_failed := Some (failureKind e, e)\<rparr> else s)"

definition declareBody :: "(tracking \<Rightarrow> (eerr, 'a) res \<times> tracking) \<Rightarrow> tracking \<Rightarrow> (eerr, 'a) res \<times> tracking" where
  "declareBody body s = (case body s of (Inl e, s') \<Rightarrow> (Inl e, keepFailure e s') | (Inr a, s') \<Rightarrow> (Inr a, s'))"

definition pairKey :: "(jsnum \<Rightarrow> jsstr) \<Rightarrow> jsstr \<Rightarrow> record_ref \<Rightarrow> jsstr" where
  "pairKey num stream r = canonicalJson num (Arr [Str stream, Str (r_model r), Obj (r_identity r)])"

text \<open>
  One turn of the loop of \<open>record\<close>: \<open>fresh\<close> and \<open>more\<close> (here \<open>extra\<close>) are its local variables.
  The accessor \<open>!\<close> after \<open>entries.find\<close> makes an unknown Model a \<open>TypeError\<close>.
\<close>

definition enroll ::
  "(jsnum \<Rightarrow> jsstr) \<Rightarrow> bool \<Rightarrow> model_entry list \<Rightarrow> jsstr \<Rightarrow> tracking \<Rightarrow>
   (jsstr, jsstr \<times> record_ref) jsmap \<times> nat \<Rightarrow> intent \<Rightarrow> (eerr, (jsstr, jsstr \<times> record_ref) jsmap \<times> nat) res" where
  "enroll num page entries caller s = (\<lambda>(fresh, extra) intent.
     case intent of
       Invalidate _ _ \<Rightarrow> Inl OnlyTracks
     | Track stream r \<Rightarrow>
         (case entryNamed entries (r_model r) of
            None \<Rightarrow> Inl TypeErr
          | Some e \<Rightarrow>
              bind_res (canonical e (r_identity r)) (\<lambda>i.
              bind_res (guard_res (\<not> list_ex (\<lambda>v. case v of Str t \<Rightarrow> loneSurrogate t | _ \<Rightarrow> False) (map snd i))
                          (LoneSurrogateIdentity caller)) (\<lambda>_.
              let r' = \<lparr>r_model = e_name e, r_identity = i\<rparr>; key = pairKey num stream r' in
              if mhas (t_pairs s) key \<or> mhas fresh key then Inr (fresh, extra)
              else
                let fresh' = mput key (stream, r') fresh;
                    extra' = (if page then extra + enrollmentBytes num (stream, r') else extra) in
                bind_res (guard_res (\<not> (page \<and> LOAD_ENROLLMENT_PAIRS < length (t_pairs s) + length fresh'))
                            (TooManyPairs caller)) (\<lambda>_.
                bind_res (guard_res (\<not> (page \<and> LOAD_ENROLLMENT_BYTES < t_bytes s + extra'))
                            (TooManyBytes caller)) (\<lambda>_.
                Inr (fresh', extra')))))))"

definition recordTracks ::
  "(jsnum \<Rightarrow> jsstr) \<Rightarrow> bool \<Rightarrow> model_entry list \<Rightarrow> intent list \<Rightarrow> jsstr \<Rightarrow> tracking \<Rightarrow> (eerr, unit) res \<times> tracking" where
  "recordTracks num page entries intents caller =
     declareBody (\<lambda>s. case foldM (enroll num page entries caller s) ([], 0) intents of
        Inl e \<Rightarrow> (Inl e, s)
      | Inr (fresh, extra) \<Rightarrow>
          (Inr (), s\<lparr>t_pairs := fold (\<lambda>(k, v). mput k v) fresh (t_pairs s), t_bytes := t_bytes s + extra\<rparr>))"

definition trackingName :: "jsv \<Rightarrow> (eerr, unit) res" where
  "trackingName v =
     bind_res (streamNameCheck v) (\<lambda>_.
       guard_res (\<not> (case v of Str s \<Rightarrow> loneSurrogate s | _ \<Rightarrow> False)) LoneSurrogateName)"

definition trackingCollector ::
  "(jsnum \<Rightarrow> jsstr) \<Rightarrow> bool \<Rightarrow> model_entry list \<Rightarrow> jsstr list option \<Rightarrow> tracking collector" where
  "trackingCollector num page entries loaded =
     \<lparr>c_entries = entries, c_guard = keepFailure,
      c_check = (\<lambda>caller. declareBody (\<lambda>s. (guard_res (t_open s) (Closed caller), s))),
      c_name = trackingName,
      c_publishable = publishable loaded,
      c_list = listOf entries loaded,
      c_record = recordTracks num page entries\<rparr>"

definition closeTracking :: "tracking \<Rightarrow> tracking" where
  "closeTracking s = s\<lparr>t_open := False\<rparr>"

text \<open>The tracks, in first-declaration order.\<close>

definition trackingOf :: "tracking \<Rightarrow> (jsstr \<times> record_ref) list" where
  "trackingOf s = map snd (t_pairs s)"

end
