(* ===== verification/EffectsSpec.thy ===== *)
theory EffectsSpec
  imports Effects
begin

text \<open>
  What a callback's declarations promise. A call on a collector has one shape, whatever
  the handle: check, resolve the operands, record (\<open>perform_shape\<close>). The interface
  \<open>StreamCollector\<close> is the locale \<open>stream_collector\<close>: over its laws a refused call leaves
  what was declared as it was and a closed collector refuses every call. Both collectors
  interpret it. For a Load page the further results are the enrollment bounds, that the
  failure it reports is the first overflow or else the first refusal, and that a page
  without a failure enrolls exactly what its handler declared.
\<close>

section \<open>Calls\<close>

datatype call =
    HandleCall jsv
  | TrackCall "jsstr list" "model_entry option" jsv
  | InvalidateCall "jsstr list option" "model_entry option" jsv

fun perform :: "'s collector \<Rightarrow> call \<Rightarrow> 's \<Rightarrow> (eerr, unit) res \<times> 's" where
  "perform c (HandleCall v) s =
     (case streamHandle c v s of (Inl e, s') \<Rightarrow> (Inl e, s') | (Inr _, s') \<Rightarrow> (Inr (), s'))"
| "perform c (TrackCall names entry v) s = streamTrack c names entry v s"
| "perform c (InvalidateCall streams entry v) s = streamInvalidate c streams entry v s"

text \<open>The answers of a sequence of calls, a handler catching what they throw, and the state after it.\<close>

fun performAll :: "'s collector \<Rightarrow> call list \<Rightarrow> 's \<Rightarrow> (eerr, unit) res list \<times> 's" where
  "performAll c [] s = ([], s)"
| "performAll c (k # ks) s =
     (case perform c k s of (r, s') \<Rightarrow> (case performAll c ks s' of (rs, t) \<Rightarrow> (r # rs, t)))"

text \<open>What a call declares, apart from the state: \<open>None\<close> when it only opens a handle.\<close>

definition resolve :: "'s collector \<Rightarrow> jsstr \<Rightarrow> model_entry option \<Rightarrow> jsv \<Rightarrow> (eerr, record_ref list) res" where
  "resolve c caller entry value =
     (case entry of
        None \<Rightarrow> bind_res (c_list c (Arr (elements value)) caller) (\<lambda>ds.
          Inr (map (\<lambda>(e, i). \<lparr>r_model = e_name e, r_identity = i\<rparr>) ds))
      | Some e \<Rightarrow> bind_res (c_publishable c (e_name e) caller) (\<lambda>_.
          traverse (\<lambda>v. bind_res (snapshotOf e (wrapScalar e v) caller) (\<lambda>i.
                      Inr \<lparr>r_model = e_name e, r_identity = i\<rparr>)) (elements value)))"

fun checkCaller :: "call \<Rightarrow> jsstr" where
  "checkCaller (HandleCall v) = js ''stream''"
| "checkCaller (TrackCall names entry v) = callerOf (js ''stream.track'') entry"
| "checkCaller (InvalidateCall streams entry v) = callerOf (js ''invalidate'') entry"

fun recordCaller :: "call \<Rightarrow> jsstr" where
  "recordCaller (InvalidateCall streams entry v) = js ''invalidate''"
| "recordCaller _ = js ''stream.track''"

fun intentsOf :: "'s collector \<Rightarrow> call \<Rightarrow> (eerr, intent list option) res" where
  "intentsOf c (HandleCall v) =
     (case (case v of Str n \<Rightarrow> Arr [Str n] | v \<Rightarrow> v) of
        Arr vs \<Rightarrow> bind_res (traverse (\<lambda>v. bind_res (c_name c v) (\<lambda>_. case v of Str n \<Rightarrow> Inr n | _ \<Rightarrow> Inl TypeErr)) vs) (\<lambda>_. Inr None)
      | _ \<Rightarrow> Inl NamesNotArray)"
| "intentsOf c (TrackCall names entry v) =
     bind_res (resolve c (callerOf (js ''stream.track'') entry) entry v) (\<lambda>records.
       Inr (Some (concat (map (\<lambda>stream. map (Track stream) records) names))))"
| "intentsOf c (InvalidateCall streams entry v) =
     bind_res (resolve c (callerOf (js ''invalidate'') entry) entry v) (\<lambda>records.
       Inr (Some (if streams = Some [] then [] else map (Invalidate streams) records)))"

definition settle :: "'s collector \<Rightarrow> call \<Rightarrow> 's \<Rightarrow> (eerr, unit) res \<times> 's" where
  "settle c k s =
     (case c_check c (checkCaller k) s of
        (Inl e, s') \<Rightarrow> (Inl e, s')
      | (Inr _, s') \<Rightarrow>
          (case intentsOf c k of
             Inl e \<Rightarrow> (Inl e, s')
           | Inr None \<Rightarrow> (Inr (), s')
           | Inr (Some intents) \<Rightarrow> c_record c intents (recordCaller k) s'))"

lemma operands_resolve:
  "operands c value caller entry s =
     (case c_check c caller s of (Inl e, s') \<Rightarrow> (Inl e, s') | (Inr _, s') \<Rightarrow> (resolve c caller entry value, s'))"
  by (simp add: operands_def resolve_def split: prod.splits sum.splits option.splits)

lemma perform_shape: "perform c k s = guarded c (settle c k) s"
proof (cases k)
  case (HandleCall v)
  show ?thesis
    by (cases v; cases "c_check c (js ''stream'') s"; cases "fst (c_check c (js ''stream'') s)")
       (auto simp: HandleCall streamHandle_def guarded_def settle_def bind_res_def split: sum.splits)
next
  case (TrackCall names entry v)
  then show ?thesis
    by (auto simp: streamTrack_def namespace_def guarded_def settle_def operands_resolve bind_res_def
             split: sum.splits prod.splits)
next
  case (InvalidateCall streams entry v)
  then show ?thesis
    by (auto simp: streamInvalidate_def namespace_def guarded_def settle_def operands_resolve bind_res_def
             split: sum.splits prod.splits)
qed

lemma performAll_Cons:
  "performAll c (k # ks) s =
     (fst (perform c k s) # fst (performAll c ks (snd (perform c k s))), snd (performAll c ks (snd (perform c k s))))"
  by (simp split: prod.splits)

section \<open>The collector's interface\<close>

text \<open>
  \<open>kept\<close> is what a collector has captured, \<open>running\<close> whether it is open, \<open>inv\<close> what its
  state keeps.
\<close>

locale stream_collector =
  fixes c :: "'s collector" and kept :: "'s \<Rightarrow> 'd" and running :: "'s \<Rightarrow> bool" and inv :: "'s \<Rightarrow> bool"
  assumes check_kept: "kept (snd (c_check c caller s)) = kept s"
    and check_running: "running (snd (c_check c caller s)) = running s"
    and check_inv: "inv s \<Longrightarrow> inv (snd (c_check c caller s))"
    and check_answer: "fst (c_check c caller s) = guard_res (running s) (Closed caller)"
    and guard_kept: "kept (c_guard c e s) = kept s"
    and guard_running: "running (c_guard c e s) = running s"
    and guard_inv: "inv s \<Longrightarrow> inv (c_guard c e s)"
    and record_refused: "fst (c_record c intents caller s) = Inl e \<Longrightarrow> kept (snd (c_record c intents caller s)) = kept s"
    and record_running: "running (snd (c_record c intents caller s)) = running s"
    and record_inv: "inv s \<Longrightarrow> inv (snd (c_record c intents caller s))"
begin

lemma settle_cases:
  obtains (closed) s' where "\<not> running s" "settle c k s = (Inl (Closed (checkCaller k)), s')" "s' = snd (c_check c (checkCaller k) s)"
  | (refused) e s' where "running s" "intentsOf c k = Inl e" "settle c k s = (Inl e, s')" "s' = snd (c_check c (checkCaller k) s)"
  | (handle) s' where "running s" "intentsOf c k = Inr None" "settle c k s = (Inr (), s')" "s' = snd (c_check c (checkCaller k) s)"
  | (recorded) intents s' where "running s" "intentsOf c k = Inr (Some intents)" "s' = snd (c_check c (checkCaller k) s)"
      "settle c k s = c_record c intents (recordCaller k) s'"
proof -
  note a = check_answer [of "checkCaller k" s]
  obtain r s' where cs: "c_check c (checkCaller k) s = (r, s')" by fastforce
  show ?thesis
  proof (cases "running s")
    case False
    then show ?thesis using closed a cs by (simp add: settle_def)
  next
    case True
    then have r: "r = Inr ()" using a cs by simp
    show ?thesis
    proof (cases "intentsOf c k")
      case (Inl e)
      then show ?thesis using refused True cs r by (simp add: settle_def)
    next
      case (Inr o')
      then show ?thesis using handle recorded True cs r by (cases o') (simp_all add: settle_def)
    qed
  qed
qed

lemma perform_inv: "inv s \<Longrightarrow> inv (snd (perform c k s))"
  by (cases rule: settle_cases [of s k])
     (auto simp: perform_shape guarded_def check_inv guard_inv record_inv split: prod.splits sum.splits,
      (metis check_inv guard_inv record_inv snd_conv)+)

lemma perform_running: "running (snd (perform c k s)) = running s"
  by (cases rule: settle_cases [of s k])
     (auto simp: perform_shape guarded_def check_running guard_running split: prod.splits sum.splits,
      (metis check_running guard_running record_running snd_conv)+)

lemma perform_refused:
  assumes "fst (perform c k s) = Inl e"
  shows "kept (snd (perform c k s)) = kept s"
  using assms
  by (cases rule: settle_cases [of s k])
     (auto simp: perform_shape guarded_def check_kept guard_kept split: prod.splits sum.splits,
      (metis check_kept guard_kept record_refused fst_conv snd_conv)+)

lemma perform_closed:
  assumes "\<not> running s"
  shows "fst (perform c k s) = Inl (Closed (checkCaller k))"
  using assms by (cases rule: settle_cases [of s k]) (auto simp: perform_shape guarded_def)

lemma performAll_inv: "inv s \<Longrightarrow> inv (snd (performAll c ks s))"
  by (induction ks arbitrary: s) (simp_all add: performAll_Cons perform_inv del: performAll.simps(2))

lemma performAll_closed:
  assumes "\<not> running s"
  shows "kept (snd (performAll c ks s)) = kept s \<and> fst (performAll c ks s) = map (\<lambda>k. Inl (Closed (checkCaller k))) ks"
  using assms
proof (induction ks arbitrary: s)
  case (Cons k ks)
  have r: "fst (perform c k s) = Inl (Closed (checkCaller k))" using Cons.prems by (rule perform_closed)
  have "\<not> running (snd (perform c k s))" using Cons.prems by (simp add: perform_running)
  from Cons.IH [OF this] r perform_refused [OF r] show ?case by (auto split: prod.splits)
qed simp

end

section \<open>A Mutation's declarations\<close>

interpretation mutation: stream_collector "effectsCollector entries loaded" declarations opened "\<lambda>_. True"
  for entries loaded
  by unfold_locales (simp_all add: effectsCollector_def)

lemma closeEffects_simps [simp]: "declarations (closeEffects s) = declarations s" "\<not> opened (closeEffects s)"
  by (simp_all add: closeEffects_def)

definition declared :: "'s collector \<Rightarrow> call \<Rightarrow> intent list" where
  "declared c k = (case intentsOf c k of Inr (Some intents) \<Rightarrow> intents | _ \<Rightarrow> [])"

lemma effectsCollector_sel [simp]:
  "c_guard (effectsCollector entries loaded) e s = s"
  "c_check (effectsCollector entries loaded) caller s = (guard_res (opened s) (Closed caller), s)"
  "c_record (effectsCollector entries loaded) intents caller s = (Inr (), s\<lparr>declarations := declarations s @ intents\<rparr>)"
  by (simp_all add: effectsCollector_def)

lemma effects_perform:
  "opened s \<Longrightarrow> fst (perform (effectsCollector entries loaded) k s) =
      (case intentsOf (effectsCollector entries loaded) k of Inl e \<Rightarrow> Inl e | Inr _ \<Rightarrow> Inr ())"
  "opened s \<Longrightarrow> declarations (snd (perform (effectsCollector entries loaded) k s)) =
      declarations s @ declared (effectsCollector entries loaded) k"
  by (auto simp: perform_shape guarded_def settle_def declared_def split: sum.splits option.splits)

lemma effects_performAll:
  assumes "opened s"
  shows "declarations (snd (performAll (effectsCollector entries loaded) ks s)) =
    declarations s @ concat (map (declared (effectsCollector entries loaded)) ks)"
  using assms
proof (induction ks arbitrary: s)
  case (Cons k ks)
  have "opened (snd (perform (effectsCollector entries loaded) k s))" using Cons.prems by (simp add: mutation.perform_running)
  from Cons.IH [OF this] show ?case
    using Cons.prems by (simp only: performAll_Cons snd_conv) (simp add: effects_perform(2))
qed simp

text \<open>
  What a Mutation settles with is the declarations of its calls in call order, a refused
  call contributing nothing; after \<open>close\<close> every call is refused by name and the settlement stays.
\<close>

lemma settlement_is_declared:
  "let c = effectsCollector entries loaded; s = snd (performAll c ks new_effects) in
   declarations s = concat (map (declared c) ks)
   \<and> performAll c later (closeEffects s) = (map (\<lambda>k. Inl (Closed (checkCaller k))) later, snd (performAll c later (closeEffects s)))
   \<and> declarations (snd (performAll c later (closeEffects s))) = declarations s"
proof -
  let ?c = "effectsCollector entries loaded" and ?s = "snd (performAll (effectsCollector entries loaded) ks new_effects)"
  have d: "declarations ?s = concat (map (declared ?c) ks)"
    using effects_performAll [of new_effects entries loaded ks] by (simp add: new_effects_def)
  have cl: "fst (performAll ?c later (closeEffects ?s)) = map (\<lambda>k. Inl (Closed (checkCaller k))) later"
    "declarations (snd (performAll ?c later (closeEffects ?s))) = declarations ?s"
    using mutation.performAll_closed [of "closeEffects ?s" entries loaded later] by simp_all
  show ?thesis unfolding Let_def using d cl by (simp add: prod_eq_iff)
qed

section \<open>A Load's enrollment\<close>

lemma keepFailure_simps [simp]:
  "t_pairs (keepFailure e s) = t_pairs s" "t_bytes (keepFailure e s) = t_bytes s" "t_open (keepFailure e s) = t_open s"
  by (auto simp: keepFailure_def split: option.splits)

lemma keepFailure_twice [simp]: "keepFailure e (keepFailure e s) = keepFailure e s"
  by (auto simp: keepFailure_def split: option.splits)

lemma fold_mput_fresh: "mok (m @ kvs) \<Longrightarrow> fold (\<lambda>(k, v). mput k v) kvs m = m @ kvs"
proof (induction kvs arbitrary: m)
  case (Cons kv kvs)
  have "map_of m (fst kv) = None" using Cons.prems by (auto simp: map_of_eq_None_iff)
  then have "mput (fst kv) (snd kv) m = m @ [kv]" by (simp add: mput_new)
  then show ?case using Cons.IH [of "m @ [kv]"] Cons.prems by (simp add: case_prod_beta)
qed simp

text \<open>What one intent captures: its canonical pair under its key.\<close>

definition capture :: "(jsnum \<Rightarrow> jsstr) \<Rightarrow> model_entry list \<Rightarrow> jsstr \<Rightarrow> intent \<Rightarrow> (eerr, jsstr \<times> jsstr \<times> record_ref) res" where
  "capture num entries caller intent =
     (case intent of
        Invalidate _ _ \<Rightarrow> Inl OnlyTracks
      | Track stream r \<Rightarrow>
          (case entryNamed entries (r_model r) of
             None \<Rightarrow> Inl TypeErr
           | Some e \<Rightarrow>
               bind_res (canonical e (r_identity r)) (\<lambda>i.
               bind_res (guard_res (\<not> list_ex (\<lambda>v. case v of Str t \<Rightarrow> loneSurrogate t | _ \<Rightarrow> False) (map snd i))
                           (LoneSurrogateIdentity caller)) (\<lambda>_.
               let r' = \<lparr>r_model = e_name e, r_identity = i\<rparr> in Inr (pairKey num stream r', stream, r')))))"

definition addFirst :: "'k \<times> 'v \<Rightarrow> ('k, 'v) jsmap \<Rightarrow> ('k, 'v) jsmap" where
  "addFirst kv m = (if mhas m (fst kv) then m else m @ [kv])"

definition within :: "(jsnum \<Rightarrow> jsstr) \<Rightarrow> (jsstr, jsstr \<times> record_ref) jsmap \<Rightarrow> bool" where
  "within num m = (length m \<le> LOAD_ENROLLMENT_PAIRS \<and> sum_list (map (enrollmentBytes num \<circ> snd) m) \<le> LOAD_ENROLLMENT_BYTES)"

text \<open>The state a tracking collector keeps: one entry per key, and on a page the bounds with the exact byte count.\<close>

definition enrolled :: "(jsnum \<Rightarrow> jsstr) \<Rightarrow> bool \<Rightarrow> tracking \<Rightarrow> bool" where
  "enrolled num page s =
     (mok (t_pairs s) \<and> list_all (\<lambda>(k, stream, r). k = pairKey num stream r) (t_pairs s)
      \<and> (page \<longrightarrow> within num (t_pairs s) \<and> t_bytes s = sum_list (map (enrollmentBytes num \<circ> snd) (t_pairs s))))"

lemma enroll_eq:
  "enroll num page entries caller s (fresh, extra) intent =
     bind_res (capture num entries caller intent) (\<lambda>(key, p).
       if mhas (t_pairs s) key \<or> mhas fresh key then Inr (fresh, extra)
       else
         let extra' = (if page then extra + enrollmentBytes num p else extra) in
         bind_res (guard_res (\<not> (page \<and> LOAD_ENROLLMENT_PAIRS < length (t_pairs s) + length (mput key p fresh)))
                     (TooManyPairs caller)) (\<lambda>_.
         bind_res (guard_res (\<not> (page \<and> LOAD_ENROLLMENT_BYTES < t_bytes s + extra')) (TooManyBytes caller)) (\<lambda>_.
         Inr (mput key p fresh, extra'))))"
  by (auto simp: enroll_def capture_def bind_res_assoc Let_def intro!: bind_res_cong split: intent.splits option.splits)

lemma enroll_cases:
  assumes "enroll num page entries caller s (fresh, extra) intent = Inr (fresh', extra')"
  obtains key p where "capture num entries caller intent = Inr (key, p)" "mhas (t_pairs s @ fresh) key" "fresh' = fresh" "extra' = extra"
  | key p where "capture num entries caller intent = Inr (key, p)" "\<not> mhas (t_pairs s @ fresh) key" "fresh' = fresh @ [(key, p)]"
      "extra' = (if page then extra + enrollmentBytes num p else extra)"
      "page \<Longrightarrow> length (t_pairs s @ fresh') \<le> LOAD_ENROLLMENT_PAIRS \<and> t_bytes s + extra' \<le> LOAD_ENROLLMENT_BYTES"
proof -
  obtain key p where c: "capture num entries caller intent = Inr (key, p)"
    using assms by (auto simp: enroll_eq bind_res_Inr_iff)
  show ?thesis
  proof (cases "mhas (t_pairs s) key \<or> mhas fresh key")
    case True
    then show ?thesis using that(1) [OF c] assms c by (auto simp: enroll_eq mhas_def map_add_def split: option.splits)
  next
    case False
    then have "mput key p fresh = fresh @ [(key, p)]" by (intro mput_new) (simp add: mhas_def del: not_None_eq)
    then show ?thesis using that(2) [OF c] assms c False
      by (auto simp: enroll_eq mhas_def map_add_def Let_def bind_res_Inr_iff guard_res_Inr_iff split: if_splits option.splits)
  qed
qed

lemma capture_key: "capture num entries caller intent = Inr (key, stream, r) \<Longrightarrow> key = pairKey num stream r"
  by (auto simp: capture_def Let_def res_simps split: intent.splits option.splits)

lemma enroll_capture:
  assumes "enroll num page entries caller s (fresh, extra) intent = Inr (fresh', extra')"
  shows "\<exists>kv. capture num entries caller intent = Inr kv \<and> t_pairs s @ fresh' = addFirst kv (t_pairs s @ fresh)"
  using assms by (cases rule: enroll_cases) (auto simp: addFirst_def)

lemma enroll_kept:
  assumes "enroll num page entries caller s (fresh, extra) intent = Inr (fresh', extra')"
    and "enrolled num page (s\<lparr>t_pairs := t_pairs s @ fresh, t_bytes := t_bytes s + extra\<rparr>)"
  shows "enrolled num page (s\<lparr>t_pairs := t_pairs s @ fresh', t_bytes := t_bytes s + extra'\<rparr>)"
  using assms(1)
proof (cases rule: enroll_cases)
  case 1
  then show ?thesis using assms(2) by simp
next
  case (2 key p)
  then have "key \<notin> fst ` set (t_pairs s @ fresh)" by (auto simp: mhas_def map_of_eq_None_iff)
  then show ?thesis
    using assms(2) 2 capture_key [of num entries caller intent key "fst p" "snd p"]
    by (auto simp: enrolled_def within_def)
qed

lemma enroll_all:
  assumes "foldM (enroll num page entries caller s) (fresh, extra) intents = Inr (fresh', extra')"
  shows "\<exists>kvs. traverse (capture num entries caller) intents = Inr kvs \<and> t_pairs s @ fresh' = fold addFirst kvs (t_pairs s @ fresh)"
    and "enrolled num page (s\<lparr>t_pairs := t_pairs s @ fresh, t_bytes := t_bytes s + extra\<rparr>) \<Longrightarrow>
         enrolled num page (s\<lparr>t_pairs := t_pairs s @ fresh', t_bytes := t_bytes s + extra'\<rparr>)"
  using assms
proof (induction intents arbitrary: fresh extra)
  case (Cons i us)
  {
    case 1
    then obtain f x where e: "enroll num page entries caller s (fresh, extra) i = Inr (f, x)"
      and r: "foldM (enroll num page entries caller s) (f, x) us = Inr (fresh', extra')"
      by (auto simp: res_simps)
    from enroll_capture [OF e] Cons.IH(1) [OF r] show ?case by force
  next
    case 2
    then obtain f x where e: "enroll num page entries caller s (fresh, extra) i = Inr (f, x)"
      and r: "foldM (enroll num page entries caller s) (f, x) us = Inr (fresh', extra')"
      by (auto simp: res_simps)
    from Cons.IH(2) [OF enroll_kept [OF e 2(1)] r] show ?case .
  }
qed simp_all

lemma enroll_mok:
  assumes "foldM (enroll num page entries caller s) (fresh, extra) intents = Inr (fresh', extra')" "mok (t_pairs s @ fresh)"
  shows "mok (t_pairs s @ fresh')"
  using assms
proof (induction intents arbitrary: fresh extra)
  case (Cons i us)
  then obtain f x where e: "enroll num page entries caller s (fresh, extra) i = Inr (f, x)"
    and r: "foldM (enroll num page entries caller s) (f, x) us = Inr (fresh', extra')"
    by (auto simp: res_simps)
  from enroll_capture [OF e] Cons.prems(2) have "mok (t_pairs s @ f)"
    by (force simp: addFirst_def mhas_def map_of_eq_None_iff split: if_splits)
  from Cons.IH [OF r this] show ?case .
qed simp

lemma record_answer:
  assumes "mok (t_pairs s)"
  shows "recordTracks num page entries intents caller s =
    (case foldM (enroll num page entries caller s) ([], 0) intents of
       Inl e \<Rightarrow> (Inl e, keepFailure e s)
     | Inr (fresh, extra) \<Rightarrow> (Inr (), s\<lparr>t_pairs := t_pairs s @ fresh, t_bytes := t_bytes s + extra\<rparr>))"
  using assms enroll_mok [of num page entries caller s "[]" 0 intents]
  by (auto simp: recordTracks_def declareBody_def fold_mput_fresh split: sum.splits prod.splits)

lemma trackingCollector_sel [simp]:
  "c_guard (trackingCollector num page entries loaded) = keepFailure"
  "c_record (trackingCollector num page entries loaded) = recordTracks num page entries"
  "c_check (trackingCollector num page entries loaded) caller s =
     (if t_open s then (Inr (), s) else (Inl (Closed caller), keepFailure (Closed caller) s))"
  by (simp_all add: trackingCollector_def declareBody_def)

lemma record_refused:
  "recordTracks num page entries intents caller s = (Inl e, s') \<Longrightarrow> s' = keepFailure e s"
  by (auto simp: recordTracks_def declareBody_def split: sum.splits prod.splits)

lemma record_open: "t_open (snd (recordTracks num page entries intents caller s)) = t_open s"
  by (auto simp: recordTracks_def declareBody_def split: sum.splits prod.splits)

lemma enrolled_keepFailure [simp]: "enrolled num page (keepFailure e s) = enrolled num page s"
  by (simp add: enrolled_def)

lemma record_enrolled:
  assumes "enrolled num page s"
  shows "enrolled num page (snd (recordTracks num page entries intents caller s))"
proof (cases "foldM (enroll num page entries caller s) ([], 0) intents")
  case (Inl e)
  then show ?thesis using assms by (simp add: recordTracks_def declareBody_def)
next
  case (Inr fe)
  obtain f x where fe: "fe = (f, x)" by fastforce
  have "s\<lparr>t_pairs := t_pairs s @ [], t_bytes := t_bytes s + 0\<rparr> = s" by simp
  then show ?thesis
    using enroll_all(2) [OF Inr [unfolded fe]] assms Inr fe
    by (simp add: record_answer enrolled_def)
qed

interpretation load: stream_collector "trackingCollector num page entries loaded" "\<lambda>s. (t_pairs s, t_bytes s)" t_open
    "enrolled num page"
  for num page entries loaded
proof unfold_locales
  fix caller s e intents
  let ?c = "trackingCollector num page entries loaded"
  show "(t_pairs (snd (c_record ?c intents caller s)), t_bytes (snd (c_record ?c intents caller s))) = (t_pairs s, t_bytes s)"
    if "fst (c_record ?c intents caller s) = Inl e"
    using that record_refused [of num page entries intents caller s e] by (cases "recordTracks num page entries intents caller s") auto
qed (simp_all add: record_open record_enrolled)

lemma new_enrolled: "enrolled num page new_tracking"
  by (simp add: enrolled_def new_tracking_def within_def LOAD_ENROLLMENT_PAIRS_def LOAD_ENROLLMENT_BYTES_def)

text \<open>
  C14: Whatever a Load handler declares, its page never enrolls more than 1000 distinct
  pairs or one mebibyte of their encodings; the byte count is exact and each pair is
  enrolled once, under the key of its canonical form.
\<close>

theorem load_enrollment_bounded:
  "let s = snd (performAll (trackingCollector num True entries loaded) ks new_tracking) in
   length (trackingOf s) \<le> 1000
   \<and> t_bytes s = sum_list (map (enrollmentBytes num) (trackingOf s)) \<and> t_bytes s \<le> 1048576
   \<and> map fst (t_pairs s) = map (\<lambda>(stream, r). pairKey num stream r) (trackingOf s)
   \<and> distinct (map (\<lambda>(stream, r). pairKey num stream r) (trackingOf s))"
proof -
  let ?s = "snd (performAll (trackingCollector num True entries loaded) ks new_tracking)"
  have e: "enrolled num True ?s" by (rule load.performAll_inv [OF new_enrolled])
  then have k: "map fst (t_pairs ?s) = map (\<lambda>(stream, r). pairKey num stream r) (trackingOf ?s)"
    by (auto simp: enrolled_def trackingOf_def list_all_iff)
  have b: "sum_list (map (enrollmentBytes num \<circ> snd) (t_pairs ?s)) = sum_list (map (enrollmentBytes num) (trackingOf ?s))"
    by (simp add: trackingOf_def)
  have "length (t_pairs ?s) \<le> 1000" "t_bytes ?s = sum_list (map (enrollmentBytes num) (trackingOf ?s))" "t_bytes ?s \<le> 1048576"
    "distinct (map fst (t_pairs ?s))"
    using e b by (simp_all add: enrolled_def within_def LOAD_ENROLLMENT_PAIRS_def LOAD_ENROLLMENT_BYTES_def)
  then show ?thesis unfolding Let_def using k by (simp add: trackingOf_def)
qed

section \<open>The failure a Load reports\<close>

definition keepKind :: "eerr \<Rightarrow> (failure_kind \<times> eerr) option \<Rightarrow> (failure_kind \<times> eerr) option" where
  "keepKind e f = t_failed (keepFailure e (new_tracking\<lparr>t_failed := f\<rparr>))"

lemma t_failed_keepFailure: "t_failed (keepFailure e s) = keepKind e (t_failed s)"
  by (auto simp: keepKind_def keepFailure_def split: option.splits)

lemma keepKind_twice [simp]: "keepKind e (keepKind e f) = keepKind e f"
  by (auto simp: keepKind_def keepFailure_def split: option.splits)

lemma record_failed:
  "t_failed (snd (recordTracks num page entries intents caller s)) =
     (case fst (recordTracks num page entries intents caller s) of Inl e \<Rightarrow> keepKind e (t_failed s) | Inr _ \<Rightarrow> t_failed s)"
  by (auto simp: recordTracks_def declareBody_def t_failed_keepFailure split: sum.splits prod.splits)

lemma perform_failed:
  "t_failed (snd (perform (trackingCollector num page entries loaded) k s)) =
     (case fst (perform (trackingCollector num page entries loaded) k s) of Inl e \<Rightarrow> keepKind e (t_failed s) | Inr _ \<Rightarrow> t_failed s)"
  using record_failed [of num page entries _ _ s]
  by (auto simp: perform_shape guarded_def settle_def t_failed_keepFailure split: sum.splits prod.splits option.splits)
     (metis (no_types, lifting) fst_conv keepKind_twice old.sum.simps(5,6) snd_conv)+

definition errorsOf :: "(eerr, unit) res list \<Rightarrow> eerr list" where
  "errorsOf rs = List.map_filter (\<lambda>r. case r of Inl e \<Rightarrow> Some e | Inr _ \<Rightarrow> None) rs"

definition firstFailure :: "eerr list \<Rightarrow> (failure_kind \<times> eerr) option" where
  "firstFailure es =
     (case find (\<lambda>e. failureKind e = Overflow) es of
        Some e \<Rightarrow> Some (Overflow, e)
      | None \<Rightarrow> (case es of [] \<Rightarrow> None | e # _ \<Rightarrow> Some (InvalidDeclaration, e)))"

lemma performAll_failed:
  "t_failed (snd (performAll (trackingCollector num page entries loaded) ks s)) =
     fold keepKind (errorsOf (fst (performAll (trackingCollector num page entries loaded) ks s))) (t_failed s)"
proof (induction ks arbitrary: s)
  case (Cons k ks)
  show ?case
    by (simp only: performAll_Cons fst_conv snd_conv Cons.IH perform_failed)
       (simp add: errorsOf_def map_filter_simps split: sum.splits)
qed (simp add: errorsOf_def)

lemma keepKind_simps:
  "keepKind e None = Some (failureKind e, e)"
  "keepKind e (Some (Overflow, x)) = Some (Overflow, x)"
  "keepKind e (Some (InvalidDeclaration, x)) = (if failureKind e = Overflow then Some (Overflow, e) else Some (InvalidDeclaration, x))"
  by (auto simp: keepKind_def keepFailure_def new_tracking_def)

lemma fold_keepKind_Overflow: "fold keepKind es (Some (Overflow, x)) = Some (Overflow, x)"
  by (induction es) (simp_all add: keepKind_simps)

lemma fold_keepKind_Invalid:
  "fold keepKind es (Some (InvalidDeclaration, x)) =
     (case find (\<lambda>e. failureKind e = Overflow) es of Some e \<Rightarrow> Some (Overflow, e) | None \<Rightarrow> Some (InvalidDeclaration, x))"
  by (induction es) (simp_all add: keepKind_simps fold_keepKind_Overflow)

lemma fold_keepKind: "fold keepKind es None = firstFailure es"
proof (cases es)
  case (Cons e es')
  have "failureKind e = InvalidDeclaration" if "failureKind e \<noteq> Overflow" using that by (cases "failureKind e") simp_all
  then show ?thesis
    by (auto simp: Cons firstFailure_def keepKind_simps fold_keepKind_Overflow fold_keepKind_Invalid split: option.splits)
qed (simp add: firstFailure_def)

text \<open>
  The failure a Load reports is the first overflow among the errors its calls threw, or
  else the first of them, also when the handler caught it; without an error there is none.
\<close>

lemma load_failure_is_first:
  "let (answers, s) = performAll (trackingCollector num page entries loaded) ks new_tracking in
   t_failed s = firstFailure (errorsOf answers)"
  using performAll_failed [of num page entries loaded ks new_tracking]
  by (simp add: fold_keepKind new_tracking_def case_prod_beta)

text \<open>
  A refused declaration of a Load is atomic and sticky: none of its pairs is enrolled,
  the earlier ones stay, and the page now has a failure.
\<close>

lemma refused_declaration_is_atomic:
  assumes "fst (perform (trackingCollector num page entries loaded) k s) = Inl e"
  shows "trackingOf (snd (perform (trackingCollector num page entries loaded) k s)) = trackingOf s
    \<and> t_bytes (snd (perform (trackingCollector num page entries loaded) k s)) = t_bytes s
    \<and> t_failed (snd (perform (trackingCollector num page entries loaded) k s)) \<noteq> None"
  using load.perform_refused [OF assms] perform_failed [of num page entries loaded k s] assms
  by (auto simp: trackingOf_def keepKind_def keepFailure_def split: option.splits)

definition noteEntry :: model_entry where
  "noteEntry = \<lparr>e_name = js ''Note'', e_key = js ''note'', e_scalar = Some (js ''id''), e_components = [(js ''id'', CString)]\<rparr>"

lemmas collector_run =
  perform_shape guarded_def settle_def resolve_def elements_def publishable_def new_tracking_def
  callerOf_def wrapScalar_def entryNamed_def snapshotOf_def encodeField_def canonical_def member_def listOf_def reference_def
  streamNameCheck_def trackingName_def recordTracks_def declareBody_def enroll_def mhas_def


section \<open>A page without a failure\<close>

lemma capture_caller: "capture num entries caller i = Inr kv \<Longrightarrow> capture num entries caller' i = Inr kv"
  by (auto simp: capture_def Let_def res_simps split: intent.splits option.splits)

lemma traverse_capture_caller:
  "traverse (capture num entries caller) is' = Inr kvs \<Longrightarrow> traverse (capture num entries caller') is' = Inr kvs"
  by (auto simp: traverse_Inr_iff intro: capture_caller elim: list_all2_mono)

lemma record_captures:
  assumes "recordTracks num page entries intents rc s = (Inr u, s')" "mok (t_pairs s)"
  shows "\<exists>kvs. traverse (capture num entries caller) intents = Inr kvs \<and> t_pairs s' = fold addFirst kvs (t_pairs s)"
proof -
  obtain f x where f: "foldM (enroll num page entries rc s) ([], 0) intents = Inr (f, x)"
    and s': "t_pairs s' = t_pairs s @ f"
    using assms by (auto simp: record_answer split: sum.splits prod.splits)
  from enroll_all(1) [OF f] s' show ?thesis by (force intro: traverse_capture_caller)
qed

lemma perform_captures:
  assumes "perform (trackingCollector num page entries loaded) k s = (Inr u, s')" "mok (t_pairs s)"
  shows "\<exists>kvs. traverse (capture num entries caller) (declared (trackingCollector num page entries loaded) k) = Inr kvs
    \<and> t_pairs s' = fold addFirst kvs (t_pairs s)"
  using assms(1)
  by (cases rule: load.settle_cases [of s num page entries loaded k])
     (auto simp: perform_shape guarded_def declared_def dest!: record_captures [OF _ assms(2)]
           split: sum.splits prod.splits if_splits)

lemma mok_addFirst: "mok m \<Longrightarrow> mok (fold addFirst kvs m)"
  by (induction kvs arbitrary: m) (auto simp: addFirst_def mhas_def map_of_eq_None_iff)

lemma performAll_captures:
  assumes "errorsOf (fst (performAll (trackingCollector num page entries loaded) ks s)) = []" "mok (t_pairs s)"
  shows "\<exists>kvs. traverse (capture num entries caller) (concat (map (declared (trackingCollector num page entries loaded)) ks)) = Inr kvs
    \<and> t_pairs (snd (performAll (trackingCollector num page entries loaded) ks s)) = fold addFirst kvs (t_pairs s)"
  using assms
proof (induction ks arbitrary: s)
  case (Cons k ks)
  let ?c = "trackingCollector num page entries loaded"
  obtain u s1 where p: "perform ?c k s = (Inr u, s1)"
    using Cons.prems(1) by (cases "perform ?c k s"; cases "fst (perform ?c k s)")
      (auto simp: performAll_Cons errorsOf_def map_filter_simps simp del: performAll.simps)
  then have r: "errorsOf (fst (performAll ?c ks s1)) = []"
    using Cons.prems(1) by (simp add: performAll_Cons errorsOf_def map_filter_simps del: performAll.simps)
  obtain kvs where k: "traverse (capture num entries caller) (declared ?c k) = Inr kvs" "t_pairs s1 = fold addFirst kvs (t_pairs s)"
    using perform_captures [OF p Cons.prems(2)] by blast
  have "mok (t_pairs s1)" using k(2) Cons.prems(2) by (simp add: mok_addFirst)
  from Cons.IH [OF r this] k p show ?case
    by (auto simp: performAll_Cons traverse_append simp del: performAll.simps)
qed simp

text \<open>
  C28: A Load page without a failure enrolls exactly what its handler declared: the canonical
  pairs of all its calls, each once, in first-declaration order.
\<close>

theorem load_enrolls_declared:
  assumes "t_failed (snd (performAll (trackingCollector num page entries loaded) ks new_tracking)) = None"
  shows "\<exists>kvs. traverse (capture num entries caller) (concat (map (declared (trackingCollector num page entries loaded)) ks)) = Inr kvs
    \<and> t_pairs (snd (performAll (trackingCollector num page entries loaded) ks new_tracking)) = fold addFirst kvs []"
proof -
  have "firstFailure es = None \<Longrightarrow> es = []" for es by (cases es) (auto simp: firstFailure_def split: option.splits if_splits)
  then have "errorsOf (fst (performAll (trackingCollector num page entries loaded) ks new_tracking)) = []"
    using assms by (simp add: performAll_failed new_tracking_def fold_keepKind)
  from performAll_captures [OF this] show ?thesis by (simp add: new_tracking_def)
qed

theorem load_enrolls_declared_witness:
  "\<exists>kvs. traverse (capture (\<lambda>_. []) [noteEntry] [])
       (concat (map (declared (trackingCollector (\<lambda>_. []) False [noteEntry] None))
          [TrackCall [js ''all''] (Some noteEntry) (Str (js ''n1''))])) = Inr kvs
     \<and> t_pairs (snd (performAll (trackingCollector (\<lambda>_. []) False [noteEntry] None)
          [TrackCall [js ''all''] (Some noteEntry) (Str (js ''n1''))] new_tracking)) = fold addFirst kvs []"
proof -
  let ?c = "trackingCollector (\<lambda>_. []) False [noteEntry] None" and ?k = "TrackCall [js ''all''] (Some noteEntry) (Str (js ''n1''))"
  let ?r = "\<lparr>r_model = js ''Note'', r_identity = [(js ''id'', Str (js ''n1''))]\<rparr>"
  have s: "\<not> loneSurrogate (js ''n1'')"
    by (simp add: loneSurrogate_def js_def highSurrogate_def)
  have i: "intentsOf ?c ?k = Inr (Some [Track (js ''all'') ?r])"
    by (simp add: collector_run noteEntry_def trackingCollector_def)
  have e: "enroll (\<lambda>_. []) False [noteEntry] (js ''stream.track'') new_tracking ([], 0) (Track (js ''all'') ?r)
    = Inr ([(pairKey (\<lambda>_. []) (js ''all'') ?r, js ''all'', ?r)], 0)"
    by (simp add: enroll_def entryNamed_def noteEntry_def canonical_def member_def s mhas_def Let_def new_tracking_def)
  have "t_open new_tracking" by (simp add: new_tracking_def)
  then have "fst (settle ?c ?k new_tracking) = Inr ()" "t_failed (snd (settle ?c ?k new_tracking)) = None"
    by (simp_all add: settle_def i recordTracks_def declareBody_def e del: intentsOf.simps) (simp add: new_tracking_def)
  then have "t_failed (snd (performAll ?c [?k] new_tracking)) = None"
    by (simp add: performAll_Cons perform_shape guarded_def case_prod_beta del: performAll.simps(2) perform.simps)
  from load_enrolls_declared [OF this] show ?thesis .
qed

section \<open>Canonical identities\<close>

lemma lowerAscii_twice [simp]: "lowerAscii (lowerAscii c) = lowerAscii c"
  by (simp add: lowerAscii_def)

lemma digits_hd: "digits (Suc k) s = Some p \<Longrightarrow> isDigit (hd s)"
  by (cases s) (auto simp: digits_def split: if_splits)

lemma ZONED_year:
  assumes "ZONED (toISOString t) \<noteq> None"
  shows "0 \<le> utcYear t" "utcYear t \<le> 9999"
proof -
  obtain y m d where c: "civil (t div 86400000) = (y, m, d)" by (metis prod_cases3)
  have "\<exists>p. digits (Suc 3) (toISOString t) = Some p" using assms by (auto simp: ZONED_def bind_eq_Some_conv)
  then have h: "isDigit (hd (toISOString t))" by (elim exE digits_hd)
  have "isoYear y \<noteq> []" by (simp add: isoYear_def pad4_def)
  then have "hd (toISOString t) = hd (isoYear y)" unfolding toISOString_def Let_def c by simp
  with h show "0 \<le> utcYear t" "utcYear t \<le> 9999"
    by (auto simp: isoYear_def utcYear_def c isDigit_def split: if_splits)
qed

lemma spell_stable:
  assumes "spell c v = Inr w" and "\<And>r. c = CDateTime \<Longrightarrow> w = Str r \<Longrightarrow> ZONED r \<noteq> None"
  shows "spell c w = Inr w"
  using assms(1)
proof (cases c)
  case CDateTime
  then obtain s p where s: "v = Str s" "ZONED s = Some p" "w = Str (toISOString (timeValue p))"
    using assms(1) by (cases v) (auto simp: instant_def split: option.splits)
  then have "instant (toISOString (timeValue p)) = Some (toISOString (timeValue p))"
    using instant_stable(1) [of s _ p] ZONED_year [of "timeValue p"] assms(2) CDateTime by (simp add: instant_def)
  then show ?thesis using s CDateTime by simp
next
  case CUuid
  then show ?thesis using assms(1) by (cases v) (auto simp: comp_def)
qed auto

lemma canonical_traverse:
  assumes "distinct (map fst (e_components e))"
  shows "canonical e i = traverse (\<lambda>(f, c). bind_res (spell c (member i f)) (\<lambda>v. Inr (f, v))) (e_components e)"
proof -
  have "foldM (\<lambda>copy (f, c). bind_res (spell c (member i f)) (\<lambda>v. Inr (mput f v copy))) acc cs =
    bind_res (traverse (\<lambda>(f, c). bind_res (spell c (member i f)) (\<lambda>v. Inr (f, v))) cs) (\<lambda>r. Inr (acc @ r))"
    if "distinct (map fst acc @ map fst cs)" for acc cs
    using that
  proof (induction cs arbitrary: acc)
    case (Cons fc cs)
    obtain f c where fc: "fc = (f, c)" by fastforce
    show ?case
    proof (cases "spell c (member i f)")
      case (Inr v)
      have "map_of acc f = None" using Cons.prems fc by (auto simp: map_of_eq_None_iff)
      moreover have "distinct (map fst (acc @ [(f, v)]) @ map fst cs)" using Cons.prems fc by auto
      ultimately show ?thesis using Cons.IH [of "acc @ [(f, v)]"] fc Inr by (simp add: mput_new bind_res_assoc)
    qed (simp add: fc)
  qed simp
  from this [of "[]" "e_components e"] show ?thesis using assms
    by (cases "traverse (\<lambda>(f, c). bind_res (spell c (member i f)) (\<lambda>v. Inr (f, v))) (e_components e)") (simp_all add: canonical_def)
qed

definition spelledDates :: "model_entry \<Rightarrow> identity \<Rightarrow> bool" where
  "spelledDates e i = list_all (\<lambda>(f, c). c = CDateTime \<longrightarrow> (case member i f of Str r \<Rightarrow> ZONED r \<noteq> None | _ \<Rightarrow> True)) (e_components e)"

lemma canonical_stable:
  assumes "canonical e i = Inr j" "distinct (map fst (e_components e))" "spelledDates e j"
  shows "canonical e j = Inr j"
proof -
  have t: "list_all2 (\<lambda>fc fv. (case fc of (f, c) \<Rightarrow> bind_res (spell c (member i f)) (\<lambda>v. Inr (f, v))) = Inr fv) (e_components e) j"
    using assms(1) unfolding canonical_traverse [OF assms(2)] traverse_Inr_iff .
  then have k: "map fst j = map fst (e_components e)"
    by (induction rule: list_all2_induct) (auto simp: res_simps)
  have "(case fc of (f, c) \<Rightarrow> bind_res (spell c (member j f)) (\<lambda>v. Inr (f, v))) = Inr fv"
    if m1: "fc \<in> set (e_components e)" and m2: "fv \<in> set j" and m3: "(case fc of (f, c) \<Rightarrow> bind_res (spell c (member i f)) (\<lambda>v. Inr (f, v))) = Inr fv" for fc fv
  proof -
    obtain f c v where fc: "fc = (f, c)" "fv = (f, v)" "spell c (member i f) = Inr v"
      using m3 by (cases fc) (auto simp: res_simps)
    have m: "member j f = v" using m2 fc(2) k assms(2) by (simp add: member_def)
    have "spell c v = Inr v"
      using spell_stable [OF fc(3)] assms(3) m1 fc(1) m by (fastforce simp: spelledDates_def list_all_iff)
    then show ?thesis by (simp add: fc m)
  qed
  then have "list_all2 (\<lambda>fc fv. (case fc of (f, c) \<Rightarrow> bind_res (spell c (member j f)) (\<lambda>v. Inr (f, v))) = Inr fv) (e_components e) j"
    using t by (auto simp: list_all2_conv_all_nth)
  then show ?thesis unfolding canonical_traverse [OF assms(2)] traverse_Inr_iff .
qed


definition eventEntry :: model_entry where
  "eventEntry = \<lparr>e_name = js ''Event'', e_key = js ''event'', e_scalar = None,
     e_components = [(js ''id'', CUuid), (js ''at'', CDateTime)]\<rparr>"


text \<open>
  A date-time of the year 9999 whose zone puts it past the year in UTC is accepted, but
  spelled with a sign and six digits, which \<open>instant\<close> no longer reads: tracking the record
  in a Load throws a \<open>TypeError\<close> that names no declaration.
\<close>

lemma expanded_year_breaks_load:
  "let v = Obj [(js ''id'', Str (js ''0a8b1c2d-0000-4000-8000-00000000000f'')), (js ''at'', Str (js ''9999-12-31T23:59:59-01:00''))];
       i = [(js ''id'', Str (js ''0a8b1c2d-0000-4000-8000-00000000000f'')), (js ''at'', Str (js ''+010000-01-01T00:59:59.000Z''))] in
   snapshotOf eventEntry v (js ''stream.track.event'') = Inr i \<and> canonical eventEntry i = Inl TypeErr
   \<and> fst (perform (trackingCollector (\<lambda>_. []) True [eventEntry] None) (TrackCall [js ''all''] (Some eventEntry) v) new_tracking) = Inl TypeErr
   \<and> fst (perform (effectsCollector [eventEntry] None) (TrackCall [js ''all''] (Some eventEntry) v) new_effects) = Inr ()"
proof -
  let ?v = "Obj [(js ''id'', Str (js ''0a8b1c2d-0000-4000-8000-00000000000f'')), (js ''at'', Str (js ''9999-12-31T23:59:59-01:00''))]"
  let ?i = "[(js ''id'', Str (js ''0a8b1c2d-0000-4000-8000-00000000000f'')), (js ''at'', Str (js ''+010000-01-01T00:59:59.000Z''))]"
  let ?d = "js ''9999-12-31T23:59:59-01:00''" and ?r = "js ''+010000-01-01T00:59:59.000Z''"
    and ?u = "js ''0a8b1c2d-0000-4000-8000-00000000000f''"
  have z: "map_option timeValue (ZONED ?d) = Some 253402304399000" by code_simp
  have iso: "toISOString 253402304399000 = ?r" by code_simp
  have d: "zoned ?d" "UUID ?u" "map lowerAscii ?u = ?u" "ZONED ?r = None" by code_simp+
  have i: "instant ?d = Some ?r" "instant ?r = None" using z iso d(4) by (auto simp: instant_def)
  note ids = snapshotOf_def encodeField_def eventEntry_def canonical_def member_def d(1-3) i
  have s: "snapshotOf eventEntry ?v (js ''stream.track.event'') = Inr ?i" by (simp add: ids)
  have c: "canonical eventEntry ?i = Inl TypeErr" by (simp add: ids)
  have caller: "callerOf (js ''stream.track'') (Some eventEntry) = js ''stream.track.event''"
    by (simp add: callerOf_def eventEntry_def js_def)
  have plain: "wrapScalar eventEntry ?v = ?v" "entryNamed [eventEntry] (e_name eventEntry) = Some eventEntry"
    by (simp_all add: wrapScalar_def eventEntry_def entryNamed_def)
  note run = perform_shape guarded_def settle_def caller resolve_def elements_def plain s c
    recordTracks_def declareBody_def enroll_def publishable_def new_tracking_def new_effects_def
  show ?thesis
    unfolding Let_def
    by (intro conjI, rule s, rule c)
       (simp_all add: run, simp_all add: run trackingCollector_def effectsCollector_def)
qed

end
