(* ===== verification/Publication.thy ===== *)
theory Publication
  imports PersistenceSpec BackendSpec EffectsSpec
begin

text \<open>
  How an application publishes from its own code: \<open>settle\<close>, \<open>transaction\<close>, \<open>publish\<close> and
  \<open>initialize\<close> of \<^verbatim>\<open>packages/backend/server/api/backend.mts\<close>.

  A body is the calls it made on its collector and how it ended. The native settlement is an
  argument: for the declarations it is given, the host callbacks it makes in order and how it
  ends. A thrown value is one of the errors of the model; only its identity matters.
\<close>

section \<open>Settlement\<close>

type_synonym settlement = "intent list \<Rightarrow> host_request list \<times> (perr, unit) res"

text \<open>The native call is tracked by the session that its own callbacks use.\<close>

definition settleDeclared ::
  "(jsstr \<Rightarrow> bool) \<Rightarrow> int \<Rightarrow> bool \<Rightarrow> settlement \<Rightarrow> intent list \<Rightarrow> perr session \<Rightarrow> ptx \<Rightarrow>
   (perr, unit) res \<times> perr session \<times> ptx" where
  "settleDeclared key_ok now groups engine ds ses t =
     (case engine ds of (reqs, out) \<Rightarrow> (case executeAll key_ok now groups reqs ses t of (ses', t') \<Rightarrow> (out, ses', t')))"

definition settle ::
  "(jsstr \<Rightarrow> bool) \<Rightarrow> int \<Rightarrow> bool \<Rightarrow> effects collector \<Rightarrow> settlement \<Rightarrow> call list \<times> (perr, 'r) res \<Rightarrow>
   perr session \<Rightarrow> ptx \<Rightarrow> (perr serr, 'r) res \<times> perr session \<times> ptx" where
  "settle key_ok now groups c engine body ses t =
     (let s = closeEffects (snd (performAll c (fst body) new_effects)) in
      case snd body of
        Inl e \<Rightarrow> (Inl (Thrown e), ses, t)
      | Inr r \<Rightarrow>
          (case track (settleDeclared key_ok now groups engine (declarations s)) ses t of
             (Inl e, ses', t') \<Rightarrow> (Inl e, ses', t')
           | (Inr _, ses', t') \<Rightarrow> (Inr r, ses', t')))"

text \<open>What \<open>bound\<close> runs; the tables it leaves go with the answer.\<close>

definition settleIn ::
  "(jsstr \<Rightarrow> bool) \<Rightarrow> int \<Rightarrow> bool \<Rightarrow> effects collector \<Rightarrow> settlement \<Rightarrow> call list \<times> (perr, 'r) res \<Rightarrow> ptx \<Rightarrow>
   perr session \<Rightarrow> (perr serr, 'r \<times> ptx) res \<times> perr session" where
  "settleIn key_ok now groups c engine body t ses =
     (case settle key_ok now groups c engine body ses t of
        (Inl e, ses', _) \<Rightarrow> (Inl e, ses')
      | (Inr r, ses', t') \<Rightarrow> (Inr (r, t'), ses'))"

section \<open>Startup\<close>

text \<open>
  \<open>initialize\<close>: the first caller starts the check and every other one waits for the same
  promise; a check that failed is forgotten, so that the next caller starts another.
\<close>

record initializing =
  iz_pending :: bool
  iz_ready :: bool
  iz_checks :: nat

definition new_initializing :: initializing where
  "new_initializing = \<lparr>iz_pending = False, iz_ready = False, iz_checks = 0\<rparr>"

definition initialize :: "initializing \<Rightarrow> initializing" where
  "initialize i = (if iz_pending i \<or> iz_ready i then i else i\<lparr>iz_pending := True, iz_checks := Suc (iz_checks i)\<rparr>)"

definition initializeSettled :: "bool \<Rightarrow> initializing \<Rightarrow> initializing" where
  "initializeSettled ok i = (if iz_pending i then i\<lparr>iz_pending := False, iz_ready := ok\<rparr> else i)"

section \<open>Transactions of the application\<close>

text \<open>\<open>publish\<close>, given how \<open>initialize\<close> ended: the Streams its answer wakes, and the tables of the caller's transaction.\<close>

definition publish ::
  "(jsstr \<Rightarrow> bool) \<Rightarrow> int \<Rightarrow> bool \<Rightarrow> effects collector \<Rightarrow> settlement \<Rightarrow> (perr, unit) res \<Rightarrow> 't list \<Rightarrow> 't \<Rightarrow>
   call list \<times> (perr, unit) res \<Rightarrow> ptx \<Rightarrow> (perr outcome_error, jsstr list \<times> ptx) res" where
  "publish key_ok now groups c engine ready sessions tx body t =
     (case ready of
        Inl e \<Rightarrow> Inl (Failed (Thrown e))
      | Inr _ \<Rightarrow>
          (case fst (bound sessions tx (settleIn key_ok now groups c engine body t)) of
             Inl e \<Rightarrow> Inl e
           | Inr ((_, t'), published) \<Rightarrow> Inr (published, t')))"

text \<open>\<open>transaction\<close>: every attempt settles its own run of the body in a transaction of its own, on the tables \<open>tables n\<close>.\<close>

definition transaction ::
  "(jsstr \<Rightarrow> bool) \<Rightarrow> int \<Rightarrow> bool \<Rightarrow> effects collector \<Rightarrow> settlement \<Rightarrow> (nat \<Rightarrow> perr outcome_error driver_env) \<Rightarrow>
   (nat \<Rightarrow> call list \<times> (perr, 'r) res) \<Rightarrow> (nat \<Rightarrow> ptx) \<Rightarrow> (perr outcome_error \<Rightarrow> bool) \<Rightarrow> nat \<Rightarrow> (nat \<Rightarrow> int) \<Rightarrow>
   (perr outcome_error, 'r \<times> ptx) res \<times> jsstr list" where
  "transaction key_ok now groups c engine env bodies tables isRetryable retries delay =
     run env (\<lambda>n. fst (bound [] () (settleIn key_ok now groups c engine (bodies n) (tables n)))) isRetryable retries delay"

section \<open>Properties\<close>

lemma settleIn_commits:
  assumes "fst (bound sessions tx (settleIn key_ok now groups c engine body t)) = Inr ((r, t'), published)"
    and "engine (declarations (closeEffects (snd (performAll c (fst body) new_effects)))) = (reqs, out)"
  shows "tx \<notin> set sessions \<and> snd body = Inr r \<and> out = Inr ()
     \<and> (\<exists>ses. executeAll key_ok now groups reqs new_session t = (ses, t') \<and> failed ses = None \<and> published = touched ses
          \<and> fst (assertCommittable ses) = Inr ())"
proof -
  obtain s where b: "tx \<notin> set sessions" "settleIn key_ok now groups c engine body t new_session = (Inr (r, t'), s)"
    and p: "published = touched s" "failed s = None" "pending s = []" "\<not> session.closed s"
    using bound_sessions [where sessions = sessions and tx = tx and operation = "settleIn key_ok now groups c engine body t"] assms(1)
    by (auto split: prod.splits)
  obtain ses u where x: "executeAll key_ok now groups reqs new_session t = (ses, u)" by fastforce
  have "snd body = Inr r \<and> out = Inr () \<and> s = ses \<and> t' = u"
    using b(2) assms(2) x
    by (auto simp: settleIn_def settle_def track_def settleDeclared_def new_session_def Let_def split: sum.splits if_splits prod.splits)
  then show ?thesis using b p x by (simp add: assertCommittable_def Let_def)
qed

lemma publish_covers:
  assumes "wf_db d" and "publish key_ok now groups c engine ready sessions tx body (start_tx d) = Inr (wake, t)"
    and "engine (declarations (closeEffects (snd (performAll c (fst body) new_effects)))) = (reqs, out)"
    and "opensFreshAll key_ok now groups reqs new_session (start_tx d)"
  shows "changed d (cur t) \<subseteq> set wake"
proof -
  have "fst (bound sessions tx (settleIn key_ok now groups c engine body (start_tx d))) = Inr (((), t), wake)"
    using assms(2) by (auto simp: publish_def split: sum.splits)
  from settleIn_commits [OF this assms(3)] obtain ses where
    s: "executeAll key_ok now groups reqs new_session (start_tx d) = (ses, t)" "wake = touched ses" "fst (assertCommittable ses) = Inr ()"
    by blast
  show ?thesis using committed_covers [OF assms(1,4) s(1,3)] s(2) by simp
qed


section \<open>Witnesses\<close>

definition ex_settlement :: settlement where
  "ex_settlement ds = (ex_requests, Inr ())"

lemma ex_publish:
  "publish (\<lambda>_. True) 0 True (effectsCollector [] None) ex_settlement (Inr ()) [] () ([], Inr ()) (start_tx empty_db) =
     Inr ([js ''b''], start_tx ex_tables)"
  by (simp add: publish_def bound_def settleIn_def settle_def track_def settleDeclared_def ex_settlement_def ex_run assertCommittable_def
      closeEffects_def new_effects_def Let_def) (simp add: new_session_def)


end
