(* ===== verification/Json.thy ===== *)
theory Json
  imports Calendar
begin

text \<open>
  \<^verbatim>\<open>JSON.stringify\<close> as the sources use it: plain, where the answer of the application's
  \<open>admit\<close> is encoded (\<^verbatim>\<open>packages/backend/server/connection/admission.mts\<close>), and with the replacer of
  \<open>encodeCallbackJson\<close> (\<^verbatim>\<open>packages/backend/server/bindings/host.mts\<close>), where a callback's answer is.

  The text is represented by the document it spells. \<open>None\<close> is the \<open>undefined\<close> that
  \<open>JSON.stringify\<close> answers for a value JSON has no spelling for; such an item is left out of
  an object and spelled \<open>null\<close> in an array. A \<open>Date\<close> is first replaced by what its \<open>toJSON\<close>
  answers: its ISO text, or \<open>null\<close> when it is invalid.
\<close>

datatype json = JNull | JBool bool | JNum jsnum | JStr jsstr | JArr "json list" | JObj "(jsstr \<times> json) list"

datatype json_error = BigIntTypeError | UnsafeBigint | Nonfinite | UndefinedValue

section \<open>Plain encoding\<close>

fun jsonDoc :: "jsv \<Rightarrow> (json_error, json option) res"
  and jsonItems :: "jsv list \<Rightarrow> (json_error, json list) res"
  and jsonFields :: "(jsstr \<times> jsv) list \<Rightarrow> (json_error, (jsstr \<times> json) list) res" where
  "jsonDoc Undefined = Inr None"
| "jsonDoc Null = Inr (Some JNull)"
| "jsonDoc (Bool b) = Inr (Some (JBool b))"
| "jsonDoc (Num n) = Inr (Some (if isFiniteNum (Num n) then JNum n else JNull))"
| "jsonDoc (Bigint n) = Inl BigIntTypeError"
| "jsonDoc (Str s) = Inr (Some (JStr s))"
| "jsonDoc (Arr vs) = bind_res (jsonItems vs) (\<lambda>ds. Inr (Some (JArr ds)))"
| "jsonDoc (Obj fs) = bind_res (jsonFields fs) (\<lambda>ds. Inr (Some (JObj ds)))"
| "jsonDoc (Date d) = Inr (Some (case d of None \<Rightarrow> JNull | Some t \<Rightarrow> JStr (toISOString t)))"
| "jsonDoc (Fun f) = Inr None"
| "jsonItems [] = Inr []"
| "jsonItems (v # vs) =
     bind_res (jsonDoc v) (\<lambda>d. bind_res (jsonItems vs) (\<lambda>ds. Inr ((case d of None \<Rightarrow> JNull | Some x \<Rightarrow> x) # ds)))"
| "jsonFields [] = Inr []"
| "jsonFields ((k, v) # fs) =
     bind_res (jsonDoc v) (\<lambda>d. bind_res (jsonFields fs) (\<lambda>ds. Inr (case d of None \<Rightarrow> ds | Some x \<Rightarrow> (k, x) # ds)))"

section \<open>A callback's answer\<close>

text \<open>\<open>encodeCallbackJson\<close>: the replacer sees an item after its \<open>toJSON\<close>.\<close>

fun encodeCallbackJson :: "jsv \<Rightarrow> (json_error, json option) res"
  and encodeItems :: "jsv list \<Rightarrow> (json_error, json list) res"
  and encodeFields :: "(jsstr \<times> jsv) list \<Rightarrow> (json_error, (jsstr \<times> json) list) res" where
  "encodeCallbackJson Undefined = Inl UndefinedValue"
| "encodeCallbackJson Null = Inr (Some JNull)"
| "encodeCallbackJson (Bool b) = Inr (Some (JBool b))"
| "encodeCallbackJson (Num n) = (if isFiniteNum (Num n) then Inr (Some (JNum n)) else Inl Nonfinite)"
| "encodeCallbackJson (Bigint n) = (if safe_int n then Inr (Some (JNum (JsInt n))) else Inl UnsafeBigint)"
| "encodeCallbackJson (Str s) = Inr (Some (JStr s))"
| "encodeCallbackJson (Arr vs) = bind_res (encodeItems vs) (\<lambda>ds. Inr (Some (JArr ds)))"
| "encodeCallbackJson (Obj fs) = bind_res (encodeFields fs) (\<lambda>ds. Inr (Some (JObj ds)))"
| "encodeCallbackJson (Date d) = Inr (Some (case d of None \<Rightarrow> JNull | Some t \<Rightarrow> JStr (toISOString t)))"
| "encodeCallbackJson (Fun f) = Inr None"
| "encodeItems [] = Inr []"
| "encodeItems (v # vs) =
     bind_res (encodeCallbackJson v) (\<lambda>d. bind_res (encodeItems vs) (\<lambda>ds. Inr ((case d of None \<Rightarrow> JNull | Some x \<Rightarrow> x) # ds)))"
| "encodeFields [] = Inr []"
| "encodeFields ((k, v) # fs) =
     bind_res (encodeCallbackJson v) (\<lambda>d. bind_res (encodeFields fs) (\<lambda>ds. Inr (case d of None \<Rightarrow> ds | Some x \<Rightarrow> (k, x) # ds)))"

section \<open>What the other side reads\<close>

fun decodeJson :: "json \<Rightarrow> jsv" where
  "decodeJson JNull = Null"
| "decodeJson (JBool b) = Bool b"
| "decodeJson (JNum n) = Num n"
| "decodeJson (JStr s) = Str s"
| "decodeJson (JArr ds) = Arr (map decodeJson ds)"
| "decodeJson (JObj fs) = Obj (map (\<lambda>(k, d). (k, decodeJson d)) fs)"

text \<open>The value a faithful answer carries: a safe bigint as a number, a date as its text.\<close>

fun wireValue :: "jsv \<Rightarrow> jsv" where
  "wireValue (Bigint n) = Num (JsInt n)"
| "wireValue (Date d) = (case d of None \<Rightarrow> Null | Some t \<Rightarrow> Str (toISOString t))"
| "wireValue (Arr vs) = Arr (map wireValue vs)"
| "wireValue (Obj fs) = Obj (map (\<lambda>(k, v). (k, wireValue v)) fs)"
| "wireValue v = v"

text \<open>A value made of data: no function, and no invalid date.\<close>

fun carried :: "jsv \<Rightarrow> bool" where
  "carried (Arr vs) = list_all carried vs"
| "carried (Obj fs) = list_all (\<lambda>(k, v). carried v) fs"
| "carried (Date d) = (d \<noteq> None)"
| "carried (Fun f) = False"
| "carried v = True"

text \<open>What JSON can represent: finite numbers and safe bigints, and no \<open>undefined\<close>.\<close>

fun representable :: "jsv \<Rightarrow> bool" where
  "representable Undefined = False"
| "representable (Num n) = isFiniteNum (Num n)"
| "representable (Bigint n) = safe_int n"
| "representable (Arr vs) = list_all representable vs"
| "representable (Obj fs) = list_all (\<lambda>(k, v). representable v) fs"
| "representable v = True"

lemma encode_iff:
  "(\<exists>r. encodeCallbackJson v = Inr r) = representable v"
  "(\<exists>ds. encodeItems vs = Inr ds) = list_all representable vs"
  "(\<exists>es. encodeFields fs = Inr es) = list_all (\<lambda>(k, v). representable v) fs"
proof (induction v and vs and fs rule: encodeCallbackJson_encodeItems_encodeFields.induct)
qed (auto simp: res_simps)

lemma encode_faithful:
  "carried v \<Longrightarrow> encodeCallbackJson v = Inr r \<Longrightarrow> \<exists>d. r = Some d \<and> decodeJson d = wireValue v"
  "list_all carried vs \<Longrightarrow> encodeItems vs = Inr ds \<Longrightarrow> map decodeJson ds = map wireValue vs"
  "list_all (\<lambda>(k, v). carried v) fs \<Longrightarrow> encodeFields fs = Inr es \<Longrightarrow>
     map (\<lambda>(k, d). (k, decodeJson d)) es = map (\<lambda>(k, v). (k, wireValue v)) fs"
proof (induction v and vs and fs arbitrary: r and ds and es rule: encodeCallbackJson_encodeItems_encodeFields.induct)
qed (auto simp: res_simps split: if_splits option.splits)



text \<open>
  An invalid date in an answer is not refused like the other values JSON cannot carry:
  it is read back as null.
\<close>

lemma invalid_date_becomes_null:
  "map_sum id (map_option decodeJson) (encodeCallbackJson (Arr [Obj [(k, Date None)]])) = Inr (Some (Arr [Obj [(k, Null)]]))"
  by simp

end
