(* ===== verification/Http.thy ===== *)
theory Http
  imports Json
begin

text \<open>
  The HTTP side of a backend's listener: who may use it
  (\<^verbatim>\<open>packages/backend/server/connection/admission.mts\<close>) and what a request is answered
  (\<^verbatim>\<open>packages/backend/server/connection/http.mts\<close>).

  The application's \<open>authenticate\<close> and \<open>admit\<close>, the backend's operations and \<open>JSON.parse\<close> are
  arguments. What a request does outside itself is recorded in its \<open>exchange\<close>: the answer
  written, the backend operations called and the errors reported.
\<close>

section \<open>Admission\<close>

text \<open>\<open>devAuth\<close>, given the authorization header.\<close>

definition devAuth :: "jsv \<Rightarrow> jsstr option" where
  "devAuth header =
     (case header of
        Str s \<Rightarrow>
          if take 7 s \<noteq> js ''Bearer '' then None
          else let i = trim (drop 7 s) in if i = [] then None else Some i
      | _ \<Rightarrow> None)"

record refusal =
  rf_status :: int
  rf_body :: json

datatype 'e admit_error = AdmitThrew 'e | AdmitBody json_error | AdmitMalformed

definition checkedRefusal :: "jsv \<Rightarrow> ('e admit_error, refusal option) res" where
  "checkedRefusal answer =
     (if nullish answer then Inr None
      else case (if field answer (js ''body'') = Undefined then Inr None else jsonDoc (field answer (js ''body''))) of
             Inl e \<Rightarrow> Inl (AdmitBody e)
           | Inr text \<Rightarrow>
               (case (field answer (js ''status''), text) of
                  (Num (JsInt n), Some d) \<Rightarrow>
                    if 400 \<le> n \<and> n \<le> 599 then Inr (Some \<lparr>rf_status = n, rf_body = d\<rparr>) else Inl AdmitMalformed
                | _ \<Rightarrow> Inl AdmitMalformed))"

text \<open>What \<open>createAdmission\<close> answers, given what \<open>authenticate\<close> answered or threw.\<close>

definition ownerOf :: "jsv \<Rightarrow> jsstr option" where
  "ownerOf i = (case i of Str s \<Rightarrow> (let t = trim s in if t = [] then None else Some t) | _ \<Rightarrow> None)"

definition admission ::
  "('e, jsv) res \<Rightarrow> (jsstr option \<Rightarrow> ('e, jsv) res) option \<Rightarrow> ('e admit_error, jsstr option \<times> refusal option) res" where
  "admission authenticated admit =
     (case authenticated of
        Inl e \<Rightarrow> Inl (AdmitThrew e)
      | Inr i \<Rightarrow>
          (case admit of
             None \<Rightarrow> Inr (ownerOf i, None)
           | Some f \<Rightarrow>
               (case f (ownerOf i) of
                  Inl e \<Rightarrow> Inl (AdmitThrew e)
                | Inr answer \<Rightarrow> bind_res (checkedRefusal answer) (\<lambda>r. Inr (ownerOf i, r)))))"

section \<open>Requests\<close>

datatype endpoint = Push | Pull | Action | Fetch | Materialize | Handshake

definition endpoints :: "(jsstr, endpoint) jsmap" where
  "endpoints = map (map_prod js id)
     [(''/sync/mutations'', Push), (''/sync/pull'', Pull), (''/sync/actions'', Action), (''/sync/fetch'', Fetch),
      (''/sync/materialize'', Materialize), (''/sync/handshake'', Handshake)]"

text \<open>\<open>HTTP_STATUS_BY_CODE\<close>; the codes are the engine's, none of which names a property of every object.\<close>

definition HTTP_STATUS_BY_CODE :: "(jsstr, nat) jsmap" where
  "HTTP_STATUS_BY_CODE = map (map_prod js id)
     [(''delivery.capacity'', 413), (''request.invalid'', 400), (''context_mismatch'', 409), (''stream.forbidden'', 403),
      (''store.binding'', 403), (''principal.invalid'', 400), (''batch.conflict'', 409), (''batch.sequence'', 409),
      (''batch.progress'', 409), (''page.capacity'', 413), (''constraint_group_capacity'', 413),
      (''protocol.unsupported'', 426), (''model_version_unsupported'', 409)]"

text \<open>What is thrown while a request is served; \<open>Missing\<close> is the \<open>TypeError\<close> of an operation the backend lacks.\<close>

datatype 'e raised = EngineRaised jsstr "(jsstr \<times> jsv) list" | Admitting "'e admit_error" | Reading 'e | Backend 'e | Missing

datatype answer_body = Text jsstr | Code jsstr "(jsstr \<times> jsv) list" | Refused json

record http_answer =
  ha_status :: nat
  ha_body :: answer_body
  ha_allow :: bool

record 'e exchange =
  x_answer :: "http_answer option"
  x_calls :: "(endpoint \<times> jsstr \<times> nat list) list"
  x_reported :: "'e raised list"

record 'e http_request =
  rq_url :: "jsstr option"
  rq_method :: jsstr
  rq_chunks :: "nat list list"
  rq_broken :: "'e option"

definition pathOf :: "jsstr option \<Rightarrow> jsstr option" where
  "pathOf url = map_option (takeWhile (\<lambda>c. c \<noteq> 63)) url"

text \<open>The body as the loop over the request reads it: \<open>None\<close> past the limit, an error when the request breaks off.\<close>

fun readBody :: "nat \<Rightarrow> nat list list \<Rightarrow> 'e option \<Rightarrow> nat list \<Rightarrow> ('e, nat list option) res" where
  "readBody limit [] broken acc = (case broken of None \<Rightarrow> Inr (Some acc) | Some e \<Rightarrow> Inl e)"
| "readBody limit (c # cs) broken acc =
     (if limit < length acc + length c then Inr None else readBody limit cs broken (acc @ c))"

text \<open>\<open>gone\<close>: the response is destroyed or ended when an answer would be written.\<close>

definition send :: "bool \<Rightarrow> nat \<Rightarrow> answer_body \<Rightarrow> http_answer option" where
  "send gone status body = (if gone then None else Some \<lparr>ha_status = status, ha_body = body, ha_allow = False\<rparr>)"

definition only :: "http_answer option \<Rightarrow> 'e exchange" where
  "only a = \<lparr>x_answer = a, x_calls = [], x_reported = []\<rparr>"

definition code :: "string \<Rightarrow> answer_body" where
  "code c = Code (js c) []"

text \<open>The \<open>catch\<close>.\<close>

definition answerError :: "bool \<Rightarrow> 'e raised \<Rightarrow> (endpoint \<times> jsstr \<times> nat list) list \<Rightarrow> 'e exchange" where
  "answerError gone e calls =
     (case (case e of EngineRaised c details \<Rightarrow> map_option (\<lambda>s. (s, c, details)) (map_of HTTP_STATUS_BY_CODE c) | _ \<Rightarrow> None) of
        Some (status, c, details) \<Rightarrow> \<lparr>x_answer = send gone status (Code c details), x_calls = calls, x_reported = []\<rparr>
      | None \<Rightarrow> \<lparr>x_answer = send gone 500 (code ''server''), x_calls = calls, x_reported = [e]\<rparr>)"

definition serve ::
  "nat \<Rightarrow> (nat list \<Rightarrow> jsv option) \<Rightarrow> (endpoint \<Rightarrow> (jsstr \<Rightarrow> nat list \<Rightarrow> ('e raised, jsstr) res) option) \<Rightarrow> bool \<Rightarrow>
   'e http_request \<Rightarrow> endpoint \<Rightarrow> jsstr option \<times> refusal option \<Rightarrow> 'e exchange" where
  "serve limit parse backend gone rq e = (\<lambda>(owner, refused).
     case refused of
       Some r \<Rightarrow> only (if gone then None else Some \<lparr>ha_status = nat (rf_status r), ha_body = Refused (rf_body r), ha_allow = False\<rparr>)
     | None \<Rightarrow>
         (case owner of
            None \<Rightarrow> only (send gone 401 (code ''unauthenticated''))
          | Some o' \<Rightarrow>
              if trim o' = [] then only (send gone 401 (code ''unauthenticated''))
              else
                (case readBody limit (rq_chunks rq) (rq_broken rq) [] of
                   Inl x \<Rightarrow> answerError gone (Reading x) []
                 | Inr None \<Rightarrow> only (send gone 413 (code ''request_too_large''))
                 | Inr (Some bytes) \<Rightarrow>
                     (case parse bytes of
                        Some (Obj fs) \<Rightarrow>
                          (case backend e of
                             None \<Rightarrow> answerError gone Missing []
                           | Some f \<Rightarrow>
                               (case f o' bytes of
                                  Inl x \<Rightarrow> answerError gone x [(e, o', bytes)]
                                | Inr text \<Rightarrow>
                                    \<lparr>x_answer = send gone 200 (Text text), x_calls = [(e, o', bytes)], x_reported = []\<rparr>))
                      | _ \<Rightarrow> only (send gone 400 (code ''request.invalid''))))))"

definition handleRequest ::
  "nat \<Rightarrow> (nat list \<Rightarrow> jsv option) \<Rightarrow> (endpoint \<Rightarrow> (jsstr \<Rightarrow> nat list \<Rightarrow> ('e raised, jsstr) res) option) \<Rightarrow>
   ('e admit_error, jsstr option \<times> refusal option) res \<Rightarrow> bool \<Rightarrow> 'e http_request \<Rightarrow> 'e exchange" where
  "handleRequest limit parse backend admitted gone rq =
     (case Option.bind (pathOf (rq_url rq)) (map_of endpoints) of
        None \<Rightarrow> only (send gone 404 (code ''not_found''))
      | Some e \<Rightarrow>
          if rq_method rq \<noteq> js ''POST''
          then only (map_option (\<lambda>a. a\<lparr>ha_allow := True\<rparr>) (send gone 405 (code ''method_not_allowed'')))
          else (case admitted of
                  Inl x \<Rightarrow> answerError gone (Admitting x) []
                | Inr a \<Rightarrow> serve limit parse backend gone rq e a))"

definition MAX_BODY :: nat where "MAX_BODY = 1048576"

section \<open>Properties\<close>

lemma readBody_iff:
  "readBody limit cs broken acc = Inr (Some bytes) \<longleftrightarrow>
     bytes = acc @ concat cs \<and> broken = None \<and> (cs \<noteq> [] \<longrightarrow> length acc + length (concat cs) \<le> limit)"
  by (induction limit cs broken acc rule: readBody.induct) (auto split: option.splits)

lemma admission_owner:
  assumes "admission authenticated admit = Inr (Some o', r)"
  shows "trim o' = o' \<and> o' \<noteq> []"
proof -
  obtain i where "ownerOf i = Some o'" using assms
    by (auto simp: admission_def res_simps split: sum.splits option.splits)
  then show ?thesis by (auto simp: ownerOf_def Let_def trim_idem split: jsv.splits if_splits)
qed

lemma checkedRefusal_status: "checkedRefusal answer = Inr (Some r) \<Longrightarrow> 400 \<le> rf_status r \<and> rf_status r \<le> 599"
  by (auto simp: checkedRefusal_def split: if_splits sum.splits prod.splits jsv.splits jsnum.splits option.splits)

lemma answerError_simps [simp]:
  "x_calls (answerError gone e calls) = calls"
  "x_reported (answerError gone e calls) \<in> {[], [e]}"
  "x_answer (answerError True e calls) = None"
  by (auto simp: answerError_def send_def split: raised.splits option.splits)

lemma status_codes: "map_of HTTP_STATUS_BY_CODE c = Some s \<Longrightarrow> s \<in> {400, 403, 409, 413, 426}"
  by (auto simp: HTTP_STATUS_BY_CODE_def split: if_splits)

lemma answerError_status:
  "\<exists>a. x_answer (answerError False e calls) = Some a \<and> ha_status a \<noteq> 200
     \<and> (x_reported (answerError False e calls) \<noteq> [] \<longrightarrow> ha_status a = 500)"
  by (auto simp: answerError_def send_def split: raised.splits option.splits dest!: status_codes)

text \<open>
  C34: The backend is called at most once, and only for a POST to one of the six routes, by an
  admitted user with a non-blank trimmed id, with the whole body, which is within the limit
  and a JSON object.
\<close>

theorem backend_called_for_admitted:
  assumes "x_calls (handleRequest limit parse backend (admission authenticated admit) gone rq) = c # cs"
  shows "cs = [] \<and> (\<exists>e o' fs. c = (e, o', concat (rq_chunks rq))
     \<and> Option.bind (pathOf (rq_url rq)) (map_of endpoints) = Some e \<and> rq_method rq = js ''POST''
     \<and> admission authenticated admit = Inr (Some o', None) \<and> o' \<noteq> [] \<and> trim o' = o'
     \<and> length (concat (rq_chunks rq)) \<le> limit \<and> rq_broken rq = None \<and> parse (concat (rq_chunks rq)) = Some (Obj fs))"
proof -
  obtain e where e: "Option.bind (pathOf (rq_url rq)) (map_of endpoints) = Some e" "rq_method rq = js ''POST''"
    using assms by (auto simp: handleRequest_def only_def split: option.splits if_splits)
  obtain owner refused where a: "admission authenticated admit = Inr (owner, refused)"
    using assms e by (cases "admission authenticated admit") (auto simp: handleRequest_def)
  then have s: "x_calls (serve limit parse backend gone rq e (owner, refused)) = c # cs" using assms e by (simp add: handleRequest_def)
  then obtain o' where o': "owner = Some o'" "refused = None"
    by (auto simp: serve_def only_def split: option.splits)
  have t: "trim o' = o'" "o' \<noteq> []" using admission_owner a o' by blast+
  obtain bytes where b: "readBody limit (rq_chunks rq) (rq_broken rq) [] = Inr (Some bytes)"
    using s o' t by (cases "readBody limit (rq_chunks rq) (rq_broken rq) []") (auto simp: serve_def only_def split: option.splits)
  have bytes: "bytes = concat (rq_chunks rq)" "rq_broken rq = None" "length (concat (rq_chunks rq)) \<le> limit"
    using b by (auto simp: readBody_iff)
  obtain fs where p: "parse bytes = Some (Obj fs)"
    using s o' t b by (auto simp: serve_def only_def split: option.splits jsv.splits)
  have "c # cs = [(e, o', bytes)]" using s o' t b p by (auto simp: serve_def split: option.splits sum.splits)
  then show ?thesis using e a o' t bytes p by auto
qed

definition wellAnswered :: "(endpoint \<Rightarrow> (jsstr \<Rightarrow> nat list \<Rightarrow> ('e raised, jsstr) res) option) \<Rightarrow> 'e exchange \<Rightarrow> bool" where
  "wellAnswered backend x =
     (\<exists>a. x_answer x = Some a
       \<and> (ha_status a = 200 \<longrightarrow> (\<exists>e o' b f t. x_calls x = [(e, o', b)] \<and> backend e = Some f \<and> f o' b = Inr t \<and> ha_body a = Text t))
       \<and> (x_reported x \<noteq> [] \<longrightarrow> ha_status a = 500))"

lemma answered_only: "ha_status a \<noteq> 200 \<Longrightarrow> wellAnswered backend (only (Some a))"
  by (simp add: wellAnswered_def only_def)

lemma answered_send: "n \<noteq> 200 \<Longrightarrow> wellAnswered backend (only (send False n b))"
  by (simp add: answered_only send_def)

lemma answered_error: "wellAnswered backend (answerError False e calls)"
  using answerError_status [of e calls] unfolding wellAnswered_def by blast

lemma answered_serve:
  assumes "\<And>r. refused = Some r \<Longrightarrow> 400 \<le> rf_status r"
  shows "wellAnswered backend (serve limit parse backend False rq e (owner, refused))"
proof (cases refused)
  case (Some r)
  have "nat (rf_status r) \<noteq> 200" using assms [OF Some] by linarith
  then show ?thesis using Some by (simp add: serve_def answered_only)
next
  case None
  have "wellAnswered backend \<lparr>x_answer = send False 200 (Text t), x_calls = [(e, o', b)], x_reported = []\<rparr>"
    if "backend e = Some f" "f o' b = Inr t" for o' b f t
    using that by (auto simp: wellAnswered_def send_def)
  then show ?thesis using None by (auto simp: serve_def answered_send answered_error split: option.splits sum.splits jsv.splits)
qed

lemma admission_refusal: "admission authenticated admit = Inr (x, Some r) \<Longrightarrow> 400 \<le> rf_status r"
  by (auto simp: admission_def res_simps split: sum.splits option.splits dest: checkedRefusal_status)

lemma answered_handle: "wellAnswered backend (handleRequest limit parse backend (admission authenticated admit) False rq)"
proof -
  have "wellAnswered backend (serve limit parse backend False rq e (owner, refused))"
    if "admission authenticated admit = Inr (owner, refused)" for e owner refused
    using that admission_refusal by (intro answered_serve) auto
  then show ?thesis
    by (auto simp: handleRequest_def answered_send answered_error answered_only send_def split: option.splits sum.splits)
qed

text \<open>
  C35: A request whose response is still open is answered, with 200 only when the backend's
  operation answered, and then with its text, and with 500 whenever an error was reported.
\<close>

theorem request_answered:
  "\<exists>a. x_answer (handleRequest limit parse backend (admission authenticated admit) False rq) = Some a
     \<and> (ha_status a = 200 \<longrightarrow>
          (\<exists>e o' b f t. x_calls (handleRequest limit parse backend (admission authenticated admit) False rq) = [(e, o', b)]
             \<and> backend e = Some f \<and> f o' b = Inr t \<and> ha_body a = Text t))
     \<and> (x_reported (handleRequest limit parse backend (admission authenticated admit) False rq) \<noteq> [] \<longrightarrow> ha_status a = 500)"
  using answered_handle unfolding wellAnswered_def .

section \<open>Witnesses\<close>

definition ex_request :: "unit http_request" where
  "ex_request = \<lparr>rq_url = Some (js ''/sync/pull?x''), rq_method = js ''POST'', rq_chunks = [[1], [2]], rq_broken = None\<rparr>"

definition ex_exchange :: "unit exchange" where
  "ex_exchange = handleRequest 2 (\<lambda>_. Some (Obj [])) (\<lambda>_. Some (\<lambda>_ _. Inr (js ''page'')))
     (admission (Inr (Str (js '' u ''))) None) False ex_request"

lemmas http_run = ex_exchange_def ex_request_def handleRequest_def serve_def admission_def ownerOf_def pathOf_def endpoints_def
  trim_def jsSpace_def send_def js_def Let_def

lemma ex_exchange_eq:
  "ex_exchange = \<lparr>x_answer = Some \<lparr>ha_status = 200, ha_body = Text (js ''page''), ha_allow = False\<rparr>,
     x_calls = [(Pull, js ''u'', [1, 2])], x_reported = []\<rparr>"
  by (simp add: http_run)

theorem backend_called_for_admitted_witness: "admission (Inr (Str (js '' u ''))) None = (Inr (Some (js ''u''), None) :: (unit admit_error, _) res)"
  using backend_called_for_admitted [of 2 "\<lambda>_. Some (Obj [])" "\<lambda>_. Some (\<lambda>_ _. Inr (js ''page''))" "Inr (Str (js '' u ''))" None False
      ex_request "(Pull, js ''u'', [1, 2])" "[]"] ex_exchange_eq
  by (auto simp: ex_exchange_def)

theorem request_answered_witness: "\<exists>a. x_answer ex_exchange = Some a \<and> ha_body a = Text (js ''page'')"
  using request_answered [of 2 "\<lambda>_. Some (Obj [])" "\<lambda>_. Some (\<lambda>_ _. Inr (js ''page''))" "Inr (Str (js '' u ''))" None ex_request]
    ex_exchange_eq by (simp add: ex_exchange_def)

end
