(* ===== verification/RequestText.thy ===== *)
theory RequestText
  imports JsValue
begin

text \<open>
  The text of a request: \<open>text\<close> of \<^verbatim>\<open>packages/backend/server/api/backend.mts\<close>, which decodes the bytes of a body with
  \<open>new TextDecoder("utf-8", { fatal: true })\<close>. The decoder is the one of the Encoding Standard: it
  refuses what is not the shortest encoding of a scalar value, and drops a leading byte order mark.
\<close>

section \<open>The decoder\<close>

definition continuation :: "nat \<Rightarrow> bool" where
  "continuation b = (128 \<le> b \<and> b \<le> 191)"

fun decodeScalars :: "nat list \<Rightarrow> nat list option" where
  "decodeScalars [] = Some []"
| "decodeScalars (a # bs) =
     (if a < 128 then map_option ((#) a) (decodeScalars bs)
      else if 194 \<le> a \<and> a \<le> 223 then
        (case bs of
           b # r \<Rightarrow> if continuation b then map_option ((#) ((a - 192) * 64 + (b - 128))) (decodeScalars r) else None
         | _ \<Rightarrow> None)
      else if 224 \<le> a \<and> a \<le> 239 then
        (case bs of
           b # c # r \<Rightarrow>
             if continuation b \<and> continuation c \<and> (a = 224 \<longrightarrow> 160 \<le> b) \<and> (a = 237 \<longrightarrow> b \<le> 159)
             then map_option ((#) ((a - 224) * 4096 + (b - 128) * 64 + (c - 128))) (decodeScalars r) else None
         | _ \<Rightarrow> None)
      else if 240 \<le> a \<and> a \<le> 244 then
        (case bs of
           b # c # d # r \<Rightarrow>
             if continuation b \<and> continuation c \<and> continuation d \<and> (a = 240 \<longrightarrow> 144 \<le> b) \<and> (a = 244 \<longrightarrow> b \<le> 143)
             then map_option ((#) ((a - 240) * 262144 + (b - 128) * 4096 + (c - 128) * 64 + (d - 128))) (decodeScalars r) else None
         | _ \<Rightarrow> None)
      else None)"

definition BOM :: "nat list" where
  "BOM = [239, 187, 191]"

datatype request = Bytes "nat list" | Already jsstr

definition text_of :: "request \<Rightarrow> jsstr option" where
  "text_of request =
     (case request of
        Already s \<Rightarrow> Some s
      | Bytes bs \<Rightarrow>
          map_option (\<lambda>cs. concat (map units cs))
            (decodeScalars (if take 3 bs = BOM then drop 3 bs else bs)))"

section \<open>Round trips\<close>

definition scalar :: "nat \<Rightarrow> bool" where
  "scalar c = (c < 55296 \<or> 57343 < c \<and> c < 1114112)"

text \<open>Numbers in base 64.\<close>

lemma base64: "n = n div 64 * 64 + n mod 64" "n mod (64 :: nat) < 64"
  by simp_all

lemma div_4096: "n div 4096 = n div 64 div (64 :: nat)" "n div 262144 = n div 64 div 64 div (64 :: nat)"
  by (simp_all flip: div_mult2_eq)

lemma split64: "z < 64 \<Longrightarrow> (q * 64 + z) div 64 = q" "z < 64 \<Longrightarrow> (q * 64 + z) mod 64 = (z :: nat)"
  by simp_all

lemma decode_utf8:
  assumes "scalar c"
  shows "decodeScalars (utf8 c @ bs) = map_option ((#) c) (decodeScalars bs)"
proof -
  have c: "c < 1114112" "c < 55296 \<or> 57343 < c" using assms by (auto simp: scalar_def)
  consider "c < 128" | "128 \<le> c" "c < 2048" | "2048 \<le> c" "c < 65536" | "65536 \<le> c" by linarith
  then show ?thesis
  proof cases
    case 2
    define x y where "x = c div 64" and "y = c mod 64"
    have u: "utf8 c = [192 + x, 128 + y]" using 2 by (simp add: utf8_def x_def y_def)
    have "2 \<le> x" "x \<le> 31" "y \<le> 63" and e: "x * 64 + y = c" using 2 unfolding x_def y_def by auto
    then show ?thesis unfolding u by (simp add: continuation_def)
  next
    case 3
    define q where "q = c div 64"
    define x y z where "x = q div 64" and "y = q mod 64" and "z = c mod 64"
    have u: "utf8 c = [224 + x, 128 + y, 128 + z]" using 3 by (simp add: utf8_def div_4096 q_def x_def y_def z_def)
    have q: "c = q * 64 + z" "z < 64" "q = x * 64 + y" "y < 64"
      using base64 [of c] base64 [of q] by (simp_all add: q_def x_def y_def z_def)
    then have e: "x * 4096 + y * 64 + z = c" "x \<le> 15" "y \<le> 63" "z \<le> 63" using 3 by linarith+
    moreover have "x = 0 \<longrightarrow> 32 \<le> y" "x = 13 \<longrightarrow> y \<le> 31" using 3 c(2) q by auto
    ultimately show ?thesis unfolding u by (auto simp: continuation_def)
  next
    case 4
    define p q where "p = c div 64" and "q = c div 64 div 64"
    define x y z w where "x = q div 64" and "y = q mod 64" and "z = p mod 64" and "w = c mod 64"
    have u: "utf8 c = [240 + x, 128 + y, 128 + z, 128 + w]" using 4 by (simp add: utf8_def div_4096 p_def q_def x_def y_def z_def w_def)
    have q: "c = p * 64 + w" "w < 64" "p = q * 64 + z" "z < 64" "q = x * 64 + y" "y < 64"
      using base64 [of c] base64 [of p] base64 [of q] by (simp_all add: p_def q_def x_def y_def z_def w_def)
    then have e: "x * 262144 + y * 4096 + z * 64 + w = c" "x \<le> 4" "y \<le> 63" "z \<le> 63" "w \<le> 63" using c(1) by linarith+
    moreover have "x = 0 \<longrightarrow> 16 \<le> y" "x = 4 \<longrightarrow> y \<le> 15" using 4 c(1) q by auto
    ultimately show ?thesis unfolding u by (auto simp: continuation_def)
  qed (simp add: utf8_def)
qed

lemma decode_step:
  assumes "decodeScalars (a # bs) = Some cs"
  shows "\<exists>c r cs'. scalar c \<and> a # bs = utf8 c @ r \<and> length r < length (a # bs) \<and> decodeScalars r = Some cs' \<and> cs = c # cs'"
proof -
  consider "a < 128" | "194 \<le> a" "a \<le> 223" | "224 \<le> a" "a \<le> 239" | "240 \<le> a" "a \<le> 244"
    using assms by (auto split: if_splits)
  then show ?thesis
  proof cases
    case 1
    then obtain cs' where "decodeScalars bs = Some cs'" "cs = a # cs'" using assms by auto
    then show ?thesis using 1 by (intro exI [of _ a] exI [of _ bs] exI [of _ cs']) (simp add: scalar_def utf8_def)
  next
    case 2
    then obtain b r cs' where r: "bs = b # r" "continuation b" "decodeScalars r = Some cs'" "cs = ((a - 192) * 64 + (b - 128)) # cs'"
      using assms by (auto split: list.splits if_splits)
    define x y where "x = a - 192" and "y = b - 128"
    have a: "a = 192 + x" "b = 128 + y" "2 \<le> x" "x \<le> 31" "y \<le> 63" using 2 r(2) by (auto simp: x_def y_def continuation_def)
    have "utf8 (x * 64 + y) = [a, b]" using a by (simp add: utf8_def)
    moreover have "cs = (x * 64 + y) # cs'" unfolding r(4) x_def y_def ..
    moreover have "scalar (x * 64 + y)" using a(4,5) by (simp add: scalar_def)
    ultimately show ?thesis using r(1,3) by (intro exI [of _ "x * 64 + y"] exI [of _ r] exI [of _ cs']) simp
  next
    case 3
    then obtain b c r cs' where r: "bs = b # c # r" "continuation b" "continuation c" "a = 224 \<longrightarrow> 160 \<le> b" "a = 237 \<longrightarrow> b \<le> 159"
      "decodeScalars r = Some cs'" "cs = ((a - 224) * 4096 + (b - 128) * 64 + (c - 128)) # cs'"
      using assms by (auto split: list.splits if_splits)
    define x y z where "x = a - 224" and "y = b - 128" and "z = c - 128"
    have a: "a = 224 + x" "b = 128 + y" "c = 128 + z" "x \<le> 15" "y \<le> 63" "z \<le> 63" "x = 0 \<longrightarrow> 32 \<le> y" "x = 13 \<longrightarrow> y \<le> 31"
      using 3 r(2-5) by (auto simp: x_def y_def z_def continuation_def)
    define n where "n = (x * 64 + y) * 64 + z"
    consider "x = 0" "32 \<le> y" | "1 \<le> x" "x \<le> 12" | "x = 13" "y \<le> 31" | "14 \<le> x" using a(7,8) by linarith
    then have n: "2048 \<le> n" "n < 65536" "n < 55296 \<or> 57344 \<le> n"
      by (cases; use a(4-6) n_def in auto)+
    have "n div 4096 = x" "n div 64 mod 64 = y" "n mod 64 = z" using a(4-6) unfolding n_def div_4096 by (simp_all only: split64)
    then have "utf8 n = [a, b, c]" using n a(1-3) by (simp add: utf8_def)
    moreover have "cs = n # cs'" unfolding r(7) n_def x_def y_def z_def by simp
    moreover have "scalar n" using n by (auto simp: scalar_def)
    ultimately show ?thesis using r(1,6) by (intro exI [of _ n] exI [of _ r] exI [of _ cs']) simp
  next
    case 4
    then obtain b c d r cs' where r: "bs = b # c # d # r" "continuation b" "continuation c" "continuation d" "a = 240 \<longrightarrow> 144 \<le> b"
      "a = 244 \<longrightarrow> b \<le> 143" "decodeScalars r = Some cs'"
      "cs = ((a - 240) * 262144 + (b - 128) * 4096 + (c - 128) * 64 + (d - 128)) # cs'"
      using assms by (auto split: list.splits if_splits)
    define x y z w where "x = a - 240" and "y = b - 128" and "z = c - 128" and "w = d - 128"
    have a: "a = 240 + x" "b = 128 + y" "c = 128 + z" "d = 128 + w" "x \<le> 4" "y \<le> 63" "z \<le> 63" "w \<le> 63"
      "x = 0 \<longrightarrow> 16 \<le> y" "x = 4 \<longrightarrow> y \<le> 15"
      using 4 r(2-6) by (auto simp: x_def y_def z_def w_def continuation_def)
    define n where "n = ((x * 64 + y) * 64 + z) * 64 + w"
    consider "x = 0" "16 \<le> y" | "1 \<le> x" "x \<le> 3" | "x = 4" "y \<le> 15" using a(5,9,10) by linarith
    then have n: "65536 \<le> n" "n < 1114112"
      by (cases; use a(5-8) n_def in auto)+
    have "n div 262144 = x" "n div 4096 mod 64 = y" "n div 64 mod 64 = z" "n mod 64 = w"
      using a(5-8) unfolding n_def div_4096 by (simp_all only: split64)
    then have "utf8 n = [a, b, c, d]" using n a(1-4) by (simp add: utf8_def)
    moreover have "cs = n # cs'" unfolding r(8) n_def x_def y_def z_def w_def by simp
    moreover have "scalar n" using n by (auto simp: scalar_def)
    ultimately show ?thesis using r(1,7) by (intro exI [of _ n] exI [of _ r] exI [of _ cs']) simp
  qed
qed

lemma decode_spells: "decodeScalars bs = Some cs \<Longrightarrow> bs = concat (map utf8 cs) \<and> list_all scalar cs"
proof (induction bs arbitrary: cs rule: measure_induct_rule [where f = length])
  case (less bs)
  show ?case
  proof (cases bs)
    case Nil
    then show ?thesis using less.prems by simp
  next
    case (Cons a t)
    from decode_step [OF less.prems [unfolded Cons]] obtain c r cs' where
      "scalar c" "bs = utf8 c @ r" "length r < length bs" "decodeScalars r = Some cs'" "cs = c # cs'"
      unfolding Cons by blast
    then show ?thesis using less.IH [of r cs'] by simp
  qed
qed

lemma decode_all: "list_all scalar cs \<Longrightarrow> decodeScalars (concat (map utf8 cs)) = Some cs"
  by (induction cs) (simp_all add: decode_utf8)

section \<open>Property\<close>

definition wellFormed16 :: "jsstr \<Rightarrow> bool" where
  "wellFormed16 s = (valid16 s \<and> list_all scalar (codePoints s))"

lemma units_scalar:
  assumes "scalar c" and "codePoints (concat (map units cs)) = cs" and "list_all scalar cs"
  shows "codePoints (units c @ concat (map units cs)) = c # cs"
proof (cases "c < 65536")
  case True
  then have "\<not> highSurrogate c" using assms(1) by (auto simp: scalar_def highSurrogate_def)
  then show ?thesis using True assms(2) by (cases "concat (map units cs)") (simp_all add: units_def)
next
  case False
  define n where "n = c - 65536"
  have n: "n < 1048576" "c = n + 65536" using False assms(1) by (auto simp: scalar_def n_def)
  have "n div 1024 \<le> 1023" using n(1) by simp
  moreover have "n mod 1024 \<le> 1023" using mod_less_divisor [of 1024 n] by linarith
  moreover have "n div 1024 * 1024 + n mod 1024 = n" by simp
  ultimately show ?thesis using assms(2) False unfolding units_def n_def [symmetric]
    by (simp add: highSurrogate_def lowSurrogate_def n(2))
qed

lemma codePoints_units: "list_all scalar cs \<Longrightarrow> codePoints (concat (map units cs)) = cs"
  by (induction cs) (simp_all add: units_scalar)

lemma valid16_units: "list_all scalar cs \<Longrightarrow> valid16 (concat (map units cs))"
proof (induction cs)
  case (Cons c cs)
  have "valid16 (units c)"
  proof (cases "c < 65536")
    case False
    then have "(c - 65536) div 1024 < 1024" using Cons.prems by (auto simp: scalar_def)
    moreover have "(c - 65536) mod 1024 < 1024" by simp
    ultimately show ?thesis using False by (simp add: valid16_def units_def)
  qed (simp add: valid16_def units_def)
  then show ?case using Cons by (simp add: valid16_def)
qed (simp add: valid16_def)

lemma text_of_Bytes_iff:
  "text_of (Bytes bs) = Some s \<longleftrightarrow> wellFormed16 s \<and> (if take 3 bs = BOM then drop 3 bs else bs) = utf8_bytes s"
proof -
  let ?bs = "if take 3 bs = BOM then drop 3 bs else bs"
  have "text_of (Bytes bs) = Some s \<longleftrightarrow> (\<exists>cs. decodeScalars ?bs = Some cs \<and> s = concat (map units cs))"
    unfolding text_of_def by (simp del: decodeScalars.simps) blast
  also have "\<dots> \<longleftrightarrow> (\<exists>cs. list_all scalar cs \<and> ?bs = concat (map utf8 cs) \<and> s = concat (map units cs))"
    using decode_spells [of ?bs] decode_all by (intro ex_cong1) auto
  also have "\<dots> \<longleftrightarrow> wellFormed16 s \<and> ?bs = utf8_bytes s"
    unfolding wellFormed16_def utf8_bytes_def
    by (auto simp: codePoints_units valid16_units units_codePoints intro!: exI [of _ "codePoints s"])
  finally show ?thesis .
qed



end
