(* ===== verification/Endpoints.thy ===== *)
theory Endpoints
  imports PersistenceSpec BackendSpec Http RequestText
begin

text \<open>
  The protocol entry points of \<^verbatim>\<open>packages/backend/server/api/backend.mts\<close>: \<open>push\<close>, \<open>action\<close>, \<open>fetch\<close>, \<open>pull\<close>,
  \<open>pull05Live\<close>, \<open>handshake\<close>, \<open>materialize\<close> and \<open>negotiateLive\<close>, each one or more transactions run by
  \<open>run\<close> over the host's persistence.

  The engine is an argument: for an owner, a text, a transaction and an attempt of it, the
  host callbacks it makes, in order, and how it ends; its configuration is fixed. So are the driver's answers and the
  tables each attempt sees. A transaction that committed is recorded with the tables it saw, those it left and the
  Streams whose subscribers it woke.
\<close>

section \<open>One transaction\<close>

type_synonym 'r native_call = "host_request list \<times> (perr, 'r) res"

record surroundings =
  v_key_ok :: "jsstr \<Rightarrow> bool"
  v_now :: int
  v_ready :: "nat \<Rightarrow> (perr, unit) res"
  v_groups :: bool
  v_driver :: "nat \<Rightarrow> nat \<Rightarrow> perr outcome_error driver_env"
  v_tables :: "nat \<Rightarrow> nat \<Rightarrow> db"
  v_retryable :: "perr outcome_error \<Rightarrow> bool"
  v_retries :: nat
  v_delay :: "nat \<Rightarrow> int"

record commit =
  k_before :: db
  k_after :: db
  k_woken :: "jsstr list"

definition operate :: "surroundings \<Rightarrow> 'r native_call \<Rightarrow> ptx \<Rightarrow> perr session \<Rightarrow> (perr serr, 'r \<times> ptx) res \<times> perr session" where
  "operate v native t ses =
     (case executeAll (v_key_ok v) (v_now v) (v_groups v) (fst native) ses t of
        (ses', t') \<Rightarrow> (case snd native of Inl e \<Rightarrow> (Inl (Thrown e), ses') | Inr r \<Rightarrow> (Inr (r, t'), ses')))"

text \<open>Transaction \<open>k\<close>, given how \<open>ready\<close> ended; the answer of an attempt carries the tables it saw and left.\<close>

definition transact ::
  "surroundings \<Rightarrow> nat \<Rightarrow> (nat \<Rightarrow> ptx \<Rightarrow> perr session \<Rightarrow> (perr serr, 'r \<times> ptx) res \<times> perr session) \<Rightarrow>
   (perr outcome_error, 'r) res \<times> commit list" where
  "transact v k operation =
     (case v_ready v k of
        Inl e \<Rightarrow> (Inl (Failed (Thrown e)), [])
      | Inr _ \<Rightarrow>
          (case run (v_driver v k)
                  (\<lambda>n. map_sum id (\<lambda>((r, t), published). ((r, v_tables v k n, t), published))
                         (fst (bound [] () (operation n (start_tx (v_tables v k n))))))
                  (v_retryable v) (v_retries v) (v_delay v) of
             (Inl e, _) \<Rightarrow> (Inl e, [])
           | (Inr (r, d, t), woken) \<Rightarrow> (Inr r, [\<lparr>k_before = d, k_after = commit_db (cur t), k_woken = woken\<rparr>])))"

section \<open>The entry points\<close>

record engine =
  n_read :: "jsstr \<Rightarrow> jsstr \<Rightarrow> nat \<Rightarrow> nat \<Rightarrow> jsstr native_call"
  n_delivery :: "jsstr \<Rightarrow> jsstr \<Rightarrow> nat \<Rightarrow> nat \<Rightarrow> jsstr native_call"
  n_live :: "jsstr \<Rightarrow> jsstr \<Rightarrow> nat \<Rightarrow> nat \<Rightarrow> jsstr native_call"
  n_handshake :: "jsstr \<Rightarrow> jsstr \<Rightarrow> nat \<Rightarrow> nat \<Rightarrow> jsstr native_call"
  n_materialize :: "jsstr \<Rightarrow> jsstr \<Rightarrow> nat \<Rightarrow> nat \<Rightarrow> jsstr native_call"
  n_negotiate :: "jsstr \<Rightarrow> jsstr \<Rightarrow> nat \<Rightarrow> nat \<Rightarrow> jsstr native_call"
  n_batches :: bool
  n_validate :: "jsstr \<Rightarrow> (perr, jsstr \<times> nat) res"
  n_group :: "jsstr \<Rightarrow> jsstr \<Rightarrow> nat \<Rightarrow> nat \<Rightarrow> nat \<Rightarrow> nat \<Rightarrow> jsv native_call"
  n_member :: "jsstr \<Rightarrow> jsstr \<Rightarrow> nat \<Rightarrow> nat \<Rightarrow> nat \<Rightarrow> jsstr native_call"
  n_encode :: "jsstr \<Rightarrow> jsstr list \<Rightarrow> (perr, jsstr) res"

datatype api_error = TransactionFailed "perr outcome_error" | InvalidText | BatchUnavailable | EngineThrew perr | PushRefused berr

text \<open>
  The text is decoded inside the transaction, once per attempt; \<open>undecodable\<close> is the error of the decoder.
\<close>

definition entry ::
  "surroundings \<Rightarrow> perr \<Rightarrow> (jsstr \<Rightarrow> jsstr \<Rightarrow> nat \<Rightarrow> nat \<Rightarrow> 'r native_call) \<Rightarrow> jsstr \<Rightarrow> request \<Rightarrow> (api_error, 'r \<times> commit list) res" where
  "entry v undecodable native owner request =
     (case transact v 0 (\<lambda>n t ses.
              case text_of request of
                None \<Rightarrow> (Inl (Thrown undecodable), ses)
              | Some text \<Rightarrow> operate v (native owner text 0 n) t ses) of
        (Inl e, _) \<Rightarrow> Inl (TransactionFailed e)
      | (Inr r, commits) \<Rightarrow> Inr (r, commits))"

text \<open>The transactions of \<open>push\<close> are numbered by those that committed before.\<close>

definition pushGroup ::
  "surroundings \<Rightarrow> engine \<Rightarrow> jsstr \<Rightarrow> jsstr \<Rightarrow> commit list \<Rightarrow> nat \<Rightarrow> nat \<Rightarrow> (berr + perr outcome_error, jsv \<times> commit list) res" where
  "pushGroup v eng owner frozen commits ordinal len =
     (case transact v (length commits) (\<lambda>n. operate v (n_group eng owner frozen ordinal len (length commits) n)) of
        (Inl e, _) \<Rightarrow> Inl (Inr e)
      | (Inr r, cs) \<Rightarrow> Inr (r, commits @ cs))"

definition pushMember ::
  "surroundings \<Rightarrow> engine \<Rightarrow> jsstr \<Rightarrow> jsstr \<Rightarrow> commit list \<Rightarrow> nat \<Rightarrow> (berr + perr outcome_error, jsstr \<times> commit list) res" where
  "pushMember v eng owner frozen commits ordinal =
     (case transact v (length commits) (\<lambda>n. operate v (n_member eng owner frozen ordinal (length commits) n)) of
        (Inl e, _) \<Rightarrow> Inl (Inr e)
      | (Inr r, cs) \<Rightarrow> Inr (r, commits @ cs))"

definition push :: "surroundings \<Rightarrow> engine \<Rightarrow> nat \<Rightarrow> jsstr \<Rightarrow> request \<Rightarrow> (api_error, jsstr \<times> commit list) res" where
  "push v eng gsize owner request =
     (case text_of request of
        None \<Rightarrow> Inl InvalidText
      | Some wire \<Rightarrow>
          if \<not> n_batches eng then Inl BatchUnavailable
          else
            (case n_validate eng wire of
               Inl e \<Rightarrow> Inl (EngineThrew e)
             | Inr (frozen, count) \<Rightarrow>
                 (case pushLoop gsize count (pushGroup v eng owner frozen) (pushMember v eng owner frozen) 0 [] [] of
                    Inl (Inl b) \<Rightarrow> Inl (PushRefused b)
                  | Inl (Inr e) \<Rightarrow> Inl (TransactionFailed e)
                  | Inr (results, commits) \<Rightarrow>
                      (case n_encode eng frozen results of
                         Inl e \<Rightarrow> Inl (EngineThrew e)
                       | Inr acknowledgement \<Rightarrow> Inr (acknowledgement, commits)))))"

text \<open>The operation \<^verbatim>\<open>http.mts\<close> calls for a route.\<close>

definition api ::
  "surroundings \<Rightarrow> engine \<Rightarrow> perr \<Rightarrow> nat \<Rightarrow> endpoint \<Rightarrow> jsstr \<Rightarrow> request \<Rightarrow> (api_error, jsstr \<times> commit list) res" where
  "api v eng undecodable gsize e =
     (case e of
        Push \<Rightarrow> push v eng gsize
      | Pull \<Rightarrow> entry v undecodable (n_delivery eng)
      | Action \<Rightarrow> entry v undecodable (n_read eng)
      | Fetch \<Rightarrow> entry v undecodable (n_read eng)
      | Materialize \<Rightarrow> entry v undecodable (n_materialize eng)
      | Handshake \<Rightarrow> entry v undecodable (n_handshake eng))"

definition pull05Live :: "surroundings \<Rightarrow> engine \<Rightarrow> perr \<Rightarrow> jsstr \<Rightarrow> jsstr \<Rightarrow> (api_error, jsstr \<times> commit list) res" where
  "pull05Live v eng undecodable owner request = entry v undecodable (n_live eng) owner (Already request)"

text \<open>\<open>parse\<close> is \<open>JSON.parse\<close> of the engine's own answer.\<close>

definition negotiateLive ::
  "surroundings \<Rightarrow> engine \<Rightarrow> perr \<Rightarrow> (jsstr \<Rightarrow> 'c) \<Rightarrow> jsstr \<Rightarrow> request \<Rightarrow> (api_error, 'c \<times> commit list) res" where
  "negotiateLive v eng undecodable parse owner request =
     map_sum id (map_prod parse id) (entry v undecodable (n_negotiate eng) owner request)"

section \<open>What the transactions wake\<close>

text \<open>The engine's part: it opens a savepoint only under an ordinal that is not open.\<close>

definition orderly :: "surroundings \<Rightarrow> nat \<Rightarrow> nat \<Rightarrow> 'r native_call \<Rightarrow> bool" where
  "orderly v k n native =
     opensFreshAll (v_key_ok v) (v_now v) (v_groups v) (fst native) new_session (start_tx (v_tables v k n))"

definition orderly_engine :: "surroundings \<Rightarrow> engine \<Rightarrow> bool" where
  "orderly_engine v eng =
     (\<forall>k n o' x. wf_db (v_tables v k n) \<and> orderly v k n (n_read eng o' x k n) \<and> orderly v k n (n_delivery eng o' x k n)
        \<and> orderly v k n (n_live eng o' x k n) \<and> orderly v k n (n_handshake eng o' x k n)
        \<and> orderly v k n (n_materialize eng o' x k n) \<and> orderly v k n (n_negotiate eng o' x k n)
        \<and> (\<forall>i l. orderly v k n (n_group eng o' x i l k n) \<and> orderly v k n (n_member eng o' x i k n)))"

definition announced :: "commit \<Rightarrow> bool" where
  "announced c = (changed (k_before c) (k_after c) \<subseteq> set (k_woken c))"

lemma operate_covers:
  assumes "wf_db d" and "opensFreshAll (v_key_ok v) (v_now v) (v_groups v) (fst native) new_session (start_tx d)"
    and "fst (bound [] () (operate v native (start_tx d))) = Inr ((r, t), published)"
  shows "changed d (cur t) \<subseteq> set published"
proof -
  obtain s where o: "operate v native (start_tx d) new_session = (Inr (r, t), s)"
    and p: "published = touched s" "failed s = None" "pending s = []" "\<not> session.closed s"
    using bound_sessions [where sessions = "[]" and tx = "()" and operation = "operate v native (start_tx d)"] assms(3) by (auto split: prod.splits)
  then have "executeAll (v_key_ok v) (v_now v) (v_groups v) (fst native) new_session (start_tx d) = (s, t)"
    by (auto simp: operate_def split: prod.splits sum.splits)
  moreover have "fst (assertCommittable s) = Inr ()" using p by (simp add: assertCommittable_def Let_def)
  ultimately show ?thesis using committed_covers [OF assms(1,2)] p(1) by blast
qed

lemma changed_commit: "changed d (commit_db e) = changed d e"
  by (simp add: changed_def same_stream_def commit_db_def)

lemma transact_announced:
  assumes "transact v k operation = (Inr r, commits)"
    and "\<And>n r t published. fst (bound [] () (operation n (start_tx (v_tables v k n)))) = Inr ((r, t), published) \<Longrightarrow>
           changed (v_tables v k n) (cur t) \<subseteq> set published"
  shows "length commits = 1 \<and> list_all announced commits"
proof -
  let ?body = "\<lambda>n. map_sum id (\<lambda>((r, t), published). ((r, v_tables v k n, t), published))
                    (fst (bound [] () (operation n (start_tx (v_tables v k n)))))"
  obtain d t woken where w: "run (v_driver v k) ?body (v_retryable v) (v_retries v) (v_delay v) = (Inr (r, d, t), woken)"
    and c: "commits = [\<lparr>k_before = d, k_after = commit_db (cur t), k_woken = woken\<rparr>]"
    using assms(1) by (auto simp: transact_def split: prod.splits sum.splits)
  obtain n where "?body n = Inr ((r, d, t), woken)"
    using run_committed [where env = "v_driver v k" and body = ?body and isRetryable = "v_retryable v" and retries = "v_retries v" and delay = "v_delay v"]
    unfolding w by auto
  then have "d = v_tables v k n" "fst (bound [] () (operation n (start_tx (v_tables v k n)))) = Inr ((r, t), woken)"
    by (auto simp: map_sum_Inr_iff)
  then show ?thesis using assms(2) [of n r t woken] by (simp add: c announced_def changed_commit)
qed

lemma operate_announced:
  assumes "transact v k (\<lambda>n. operate v (native n)) = (Inr r, commits)"
    and "\<And>n. wf_db (v_tables v k n)" and "\<And>n. orderly v k n (native n)"
  shows "length commits = 1 \<and> list_all announced commits"
  using assms(1)
proof (rule transact_announced)
  fix n r' t published
  assume "fst (bound [] () (operate v (native n) (start_tx (v_tables v k n)))) = Inr ((r', t), published)"
  then show "changed (v_tables v k n) (cur t) \<subseteq> set published"
    by (rule operate_covers [OF assms(2) assms(3) [unfolded orderly_def]])
qed

lemma entry_announced:
  assumes "entry v undecodable native owner request = Inr (r, commits)"
    and "\<And>n. wf_db (v_tables v 0 n)" and "\<And>text n. orderly v 0 n (native owner text 0 n)"
  shows "length commits = 1 \<and> list_all announced commits"
proof (cases "text_of request")
  case None
  let ?op = "\<lambda>n t ses. (Inl (Thrown undecodable), ses)"
  have "transact v 0 ?op = (Inr r, commits)"
    using assms(1) None by (auto simp: entry_def split: prod.splits sum.splits)
  then show ?thesis by (rule transact_announced) (simp add: bound_def Let_def)
next
  case (Some wire)
  have "transact v 0 (\<lambda>n. operate v (native owner wire 0 n)) = (Inr r, commits)"
    using assms(1) Some by (auto simp: entry_def split: prod.splits sum.splits)
  then show ?thesis using assms(2,3) by (rule operate_announced)
qed

lemma push_steps:
  assumes "orderly_engine v eng"
  shows "pushGroup v eng owner frozen commits ordinal len = Inr (x, commits') \<Longrightarrow> \<exists>c. announced c \<and> commits' = commits @ [c]"
    and "pushMember v eng owner frozen commits ordinal = Inr (y, commits') \<Longrightarrow> \<exists>c. announced c \<and> commits' = commits @ [c]"
proof -
  have one: "length cs = 1 \<and> list_all announced cs \<Longrightarrow> \<exists>c. announced c \<and> cs = [c]" for cs by (cases cs) auto
  show "\<exists>c. announced c \<and> commits' = commits @ [c]" if p: "pushGroup v eng owner frozen commits ordinal len = Inr (x, commits')"
  proof -
    obtain cs where t: "transact v (length commits) (\<lambda>n. operate v (n_group eng owner frozen ordinal len (length commits) n)) = (Inr x, cs)"
      and c: "commits' = commits @ cs"
      using p by (auto simp: pushGroup_def split: prod.splits sum.splits)
    have "length cs = 1 \<and> list_all announced cs"
      using t by (rule operate_announced) (use assms in \<open>simp_all add: orderly_engine_def\<close>)
    then show ?thesis using one c by blast
  qed
  show "\<exists>c. announced c \<and> commits' = commits @ [c]" if p: "pushMember v eng owner frozen commits ordinal = Inr (y, commits')"
  proof -
    obtain cs where t: "transact v (length commits) (\<lambda>n. operate v (n_member eng owner frozen ordinal (length commits) n)) = (Inr y, cs)"
      and c: "commits' = commits @ cs"
      using p by (auto simp: pushMember_def split: prod.splits sum.splits)
    have "length cs = 1 \<and> list_all announced cs"
      using t by (rule operate_announced) (use assms in \<open>simp_all add: orderly_engine_def\<close>)
    then show ?thesis using one c by blast
  qed
qed

lemma pushLoop_keeps:
  assumes "pushLoop gsize count runGroup runMember ordinal results s = Inr (out, s')" and "P s"
    and "\<And>s o' n x s'. runGroup s o' n = Inr (x, s') \<Longrightarrow> P s \<Longrightarrow> P s'"
    and "\<And>s o' x s'. runMember s o' = Inr (x, s') \<Longrightarrow> P s \<Longrightarrow> P s'"
  shows "P s'"
  using assms(1,2)
proof (induction "count - ordinal" arbitrary: ordinal results s rule: less_induct)
  case less
  note unfolded = less.prems(1) [unfolded pushLoop.simps [of gsize count runGroup runMember ordinal results s]]
  show ?case
  proof (cases "count \<le> ordinal \<or> gsize = 0")
    case True
    then show ?thesis using unfolded less.prems(2) by simp
  next
    case False
    then have dec: "count - (ordinal + gsize) < count - ordinal" by auto
    show ?thesis
    proof (cases "1 < gsize")
      case True
      then obtain x s1 where g: "runGroup s ordinal (min gsize (count - ordinal)) = Inr (x, s1)"
        using unfolded False by (auto simp: res_simps)
      then have "\<exists>rs. pushLoop gsize count runGroup runMember (ordinal + gsize) rs s1 = Inr (out, s')"
        using unfolded False True by (cases x) (auto simp: res_simps split: if_splits)
      then show ?thesis using g using less.hyps [OF dec] less.prems(2) assms(3) by blast
    next
      case small: False
      then obtain x s1 where "runMember s ordinal = Inr (x, s1)"
        "\<exists>rs. pushLoop gsize count runGroup runMember (ordinal + gsize) rs s1 = Inr (out, s')"
        using unfolded False by (auto simp: res_simps split: if_splits)
      then show ?thesis using less.hyps [OF dec] less.prems(2) assms(4) by blast
    qed
  qed
qed

lemma push_announced:
  assumes "push v eng gsize owner request = Inr (r, commits)" and "orderly_engine v eng"
  shows "list_all announced commits"
proof -
  obtain frozen count results where
    "pushLoop gsize count (pushGroup v eng owner frozen) (pushMember v eng owner frozen) 0 [] [] = Inr (results, commits)"
    using assms(1) by (auto simp: push_def split: option.splits if_splits sum.splits)
  then show ?thesis
  proof (rule pushLoop_keeps)
    show "list_all announced s'" if "pushGroup v eng owner frozen s o' n = Inr (x, s')" "list_all announced s" for s o' n x s'
      using push_steps(1) [OF assms(2) that(1)] that(2) by auto
    show "list_all announced s'" if "pushMember v eng owner frozen s o' = Inr (x, s')" "list_all announced s" for s o' x s'
      using push_steps(2) [OF assms(2) that(1)] that(2) by auto
  qed simp
qed

lemma api_announced:
  assumes "api v eng undecodable gsize e owner request = Inr (r, commits)" and "orderly_engine v eng"
  shows "list_all announced commits"
proof (cases "e = Push")
  case True
  then show ?thesis using assms push_announced by (simp add: api_def)
next
  case False
  then obtain native where n: "entry v undecodable native owner request = Inr (r, commits)"
    "native \<in> {n_delivery eng, n_read eng, n_materialize eng, n_handshake eng}"
    using assms(1) by (cases e) (auto simp: api_def)
  have "length commits = 1 \<and> list_all announced commits"
    using n(1) by (rule entry_announced) (use n(2) assms(2) in \<open>auto simp: orderly_engine_def\<close>)
  then show ?thesis ..
qed

end
