(* ===== verification/Drivers.thy ===== *)
theory Drivers
  imports Backend
begin

text \<open>
  The drivers over Prisma and Drizzle: \<^verbatim>\<open>packages/backend/postgres/src/prisma.mts\<close> and \<^verbatim>\<open>drizzle.mts\<close>. Both hand a
  transaction to their tool under the retries of \<open>Retry\<close>. Prisma binds the placeholders of a
  statement itself; for Drizzle the driver cuts the statement at them into a template.
  \<open>client\<close> and \<open>db\<close> are the tools: what an attempt's transaction settles with.
\<close>

section \<open>Transactions\<close>

record driver_options =
  o_retries :: "nat option"
  o_timeout :: "nat option"

definition orElse :: "'a option \<Rightarrow> 'a \<Rightarrow> 'a" where
  "orElse v d = (case v of None \<Rightarrow> d | Some x \<Rightarrow> x)"

definition prismaTransaction ::
  "(string \<Rightarrow> nat \<Rightarrow> nat \<Rightarrow> ('e, 'r) res) \<Rightarrow> driver_options \<Rightarrow> ('e \<Rightarrow> bool) \<Rightarrow> (nat \<Rightarrow> int) \<Rightarrow> ('e, 'r) res \<times> int list" where
  "prismaTransaction client options isRetryable delay =
     withRetries (client ''Serializable'' (orElse (o_timeout options) 20000)) isRetryable (orElse (o_retries options) 3) delay"

definition drizzleTransaction ::
  "(string \<Rightarrow> nat \<Rightarrow> ('e, 'r) res) \<Rightarrow> driver_options \<Rightarrow> ('e \<Rightarrow> bool) \<Rightarrow> (nat \<Rightarrow> int) \<Rightarrow> ('e, 'r) res \<times> int list" where
  "drizzleTransaction db options isRetryable delay =
     withRetries (db ''serializable'') isRetryable (orElse (o_retries options) 3) delay"

section \<open>Statements\<close>

text \<open>The chunks of a Drizzle template: text as it is, or a parameter the tool binds.\<close>

datatype chunk = Raw jsstr | Param jsv

text \<open>\<open>params[Number(match[1]) - 1]\<close>, \<open>undefined\<close> out of range.\<close>

definition paramAt :: "jsv list \<Rightarrow> nat \<Rightarrow> jsv" where
  "paramAt params n = (if 0 < n \<and> n \<le> length params then params ! (n - 1) else Undefined)"

text \<open>\<open>text.slice(last, match.index)\<close> is \<open>raw\<close>, the text since the last match.\<close>

fun bindLoop :: "jsv list \<Rightarrow> jsstr \<Rightarrow> jsstr \<Rightarrow> chunk list" where
  "bindLoop params raw [] = [Raw raw]"
| "bindLoop params raw (c # cs) =
     (let ds = takeWhile digit cs
      in if c = 36 \<and> ds \<noteq> []
         then Raw raw # Param (bindValue (paramAt params (digitsVal ds))) # bindLoop params [] (drop (length ds) cs)
         else bindLoop params (raw @ [c]) cs)"

definition bindDrizzle :: "jsstr \<Rightarrow> jsv list \<Rightarrow> chunk list" where
  "bindDrizzle text params = bindLoop params [] text"

definition prismaQuery :: "(jsstr \<Rightarrow> jsv list \<Rightarrow> 'r) \<Rightarrow> jsstr \<Rightarrow> jsv list \<Rightarrow> 'r" where
  "prismaQuery tx sql params = tx sql params"

definition drizzleQuery :: "(chunk list \<Rightarrow> ('e, 'r) res) \<Rightarrow> jsstr \<Rightarrow> jsv list \<Rightarrow> ('e, 'r) res" where
  "drizzleQuery execute_tx text params = execute_tx (bindDrizzle text params)"

section \<open>What a template binds\<close>

text \<open>A statement as it is written: texts, each before a placeholder, and the text after the last one.\<close>

fun statement :: "(jsstr \<times> jsstr) list \<Rightarrow> jsstr \<Rightarrow> jsstr" where
  "statement [] rest = rest"
| "statement ((raw, ds) # ps) rest = raw @ 36 # ds @ statement ps rest"

fun noPlaceholder :: "jsstr \<Rightarrow> bool" where
  "noPlaceholder [] = True"
| "noPlaceholder [c] = True"
| "noPlaceholder (c # d # s) = (\<not> (c = 36 \<and> digit d) \<and> noPlaceholder (d # s))"

definition noDigit :: "jsstr \<Rightarrow> bool" where
  "noDigit s = (case s of [] \<Rightarrow> True | c # _ \<Rightarrow> \<not> digit c)"

fun placed :: "(jsstr \<times> jsstr) list \<Rightarrow> jsstr \<Rightarrow> bool" where
  "placed [] rest = noPlaceholder rest"
| "placed ((raw, ds) # ps) rest =
     (noPlaceholder raw \<and> ds \<noteq> [] \<and> list_all digit ds \<and> noDigit (statement ps rest) \<and> placed ps rest)"

lemma bindLoop_plain: "\<not> (c = 36 \<and> takeWhile digit s \<noteq> []) \<Longrightarrow> bindLoop params raw (c # s) = bindLoop params (raw @ [c]) s"
  by (auto simp: Let_def)

lemma bindLoop_raw:
  "noPlaceholder s \<Longrightarrow> t = [] \<or> hd t = 36 \<Longrightarrow> bindLoop params raw (s @ t) = bindLoop params (raw @ s) t"
proof (induction s arbitrary: raw rule: noPlaceholder.induct)
  case (3 c d s)
  then show ?case by (subst append_Cons, subst bindLoop_plain) (auto simp del: bindLoop.simps)
next
  case (2 c)
  then show ?case by (subst append_Cons, subst bindLoop_plain) (cases t; auto simp: digit_def)+
qed simp

lemma bindLoop_placeholder:
  assumes "ds \<noteq> []" and "list_all digit ds" and "noDigit s"
  shows "bindLoop params raw (36 # ds @ s) = Raw raw # Param (bindValue (paramAt params (digitsVal ds))) # bindLoop params [] s"
proof -
  have "takeWhile digit (ds @ s) = ds"
    using assms(2,3) by (cases s) (auto simp: noDigit_def list_all_iff takeWhile_append2)
  then show ?thesis using assms(1) by simp
qed

lemma bindLoop_statement:
  "placed ps rest \<Longrightarrow> bindLoop params [] (statement ps rest) =
     concat (map (\<lambda>(raw, ds). [Raw raw, Param (bindValue (paramAt params (digitsVal ds)))]) ps) @ [Raw rest]"
proof (induction ps rest rule: placed.induct)
  case (1 rest)
  then show ?case using bindLoop_raw [of rest "[]" params "[]"] by simp
next
  case (2 raw ds ps rest)
  then show ?case
    using bindLoop_raw [of raw "36 # ds @ statement ps rest" params "[]"] by (simp add: bindLoop_placeholder del: bindLoop.simps)
qed

text \<open>What node-postgres binds to the placeholder \<open>$n\<close>: the parameter it sends at position \<open>n\<close>.\<close>

lemma bindValue_at: "0 < n \<Longrightarrow> n \<le> length params \<Longrightarrow> bindValue (paramAt params n) = bind params ! (n - 1)"
  by (simp add: paramAt_def bind_def)

text \<open>
  The Drizzle driver binds what the node-postgres driver binds. A statement written with
  placeholders becomes the template of its texts, in order, with the placeholder \<open>$n\<close> replaced by
  the value node-postgres sends as the parameter \<open>n\<close>, a bigint as text included; \<open>$1\<close> is not mistaken for the
  beginning of \<open>$12\<close>, and no parameter becomes part of the text.
\<close>

lemma drizzle_binds_like_pg:
  assumes "placed ps rest" and "\<forall>(raw, ds) \<in> set ps. 0 < digitsVal ds \<and> digitsVal ds \<le> length params"
  shows "bindDrizzle (statement ps rest) params =
     concat (map (\<lambda>(raw, ds). [Raw raw, Param (bind params ! (digitsVal ds - 1))]) ps) @ [Raw rest]"
proof -
  have eq: "map (\<lambda>(raw, ds). [Raw raw, Param (bindValue (paramAt params (digitsVal ds)))]) ps
      = map (\<lambda>(raw, ds). [Raw raw, Param (bind params ! (digitsVal ds - 1))]) ps"
    using assms(2) by (auto simp: bindValue_at)
  show ?thesis unfolding bindDrizzle_def bindLoop_statement [OF assms(1)] eq ..
qed

end
