(* ===== verification/Statements.thy ===== *)
theory Statements
  imports JsValue "HOL-Library.Sublist"
begin

text \<open>
  \<^verbatim>\<open>packages/backend/postgres/src/statements.mts\<close>: the splitting of a SQL file into its statements. The
  position \<open>at\<close> is represented by the text from it on. The result is that a text
  written as a sequence of SQL lexemes is split exactly at its semicolon lexemes, whatever
  semicolons, quotes and comment marks its quoted regions and comments contain.
\<close>

section \<open>The scanner\<close>

definition startsWith :: "jsstr \<Rightarrow> jsstr \<Rightarrow> bool" where
  "startsWith p s = (take (length p) s = p)"

text \<open>\<open>indexOf\<close> of a text that is not empty.\<close>

fun indexOf :: "jsstr \<Rightarrow> jsstr \<Rightarrow> nat option" where
  "indexOf p [] = None"
| "indexOf p (c # cs) = (if startsWith p (c # cs) then Some 0 else map_option Suc (indexOf p cs))"

text \<open>\<open>end\<close>, from an offset into the text that is left; the offset it answers is from there, too.\<close>

definition endOf :: "jsstr \<Rightarrow> nat \<Rightarrow> jsstr \<Rightarrow> nat" where
  "endOf close from s =
     (case indexOf close (drop from s) of None \<Rightarrow> length s | Some i \<Rightarrow> from + i + length close)"

definition nameStart :: "nat \<Rightarrow> bool" where
  "nameStart c = (65 \<le> c \<and> c \<le> 90 \<or> 97 \<le> c \<and> c \<le> 122 \<or> c = 95)"

definition nameChar :: "nat \<Rightarrow> bool" where
  "nameChar c = (nameStart c \<or> 48 \<le> c \<and> c \<le> 57)"

text \<open>\<open>/^\$([A-Za-z_][A-Za-z0-9_]*)?\$/\<close>: what it matches.\<close>

definition dollarTag :: "jsstr \<Rightarrow> jsstr option" where
  "dollarTag s =
     (case s of
        [] \<Rightarrow> None
      | c # t \<Rightarrow>
          let name = takeWhile nameChar t
          in if c = 36 \<and> (name = [] \<or> nameStart (hd name)) \<and> startsWith [36] (drop (length name) t)
             then Some (36 # name @ [36]) else None)"

definition pushed :: "jsstr \<Rightarrow> jsstr list" where
  "pushed current = (if trim current \<noteq> [] then [trim current] else [])"

lemma endOf_pos: "s \<noteq> [] \<Longrightarrow> close \<noteq> [] \<Longrightarrow> 0 < endOf close from s"
  by (auto simp: endOf_def split: option.splits)

lemma startsWith_append [simp]: "startsWith p (p @ s)"
  by (simp add: startsWith_def)

lemma startsWith_Cons [simp]: "startsWith (c # p) (d # s) \<longleftrightarrow> c = d \<and> startsWith p s"
  by (auto simp: startsWith_def)

lemma startsWith_Nil [simp]: "startsWith [] s" "startsWith (c # p) [] = False"
  by (simp_all add: startsWith_def)

lemma dollarTag_cases:
  assumes "dollarTag s = Some tag"
  shows "tag \<noteq> []" and "hd tag = 36" and "\<exists>r. s = tag @ r"
proof -
  obtain t where s: "s = 36 # t" and tag: "tag = 36 # takeWhile nameChar t @ [36]"
    and d: "startsWith [36] (drop (length (takeWhile nameChar t)) t)"
    using assms by (auto simp: dollarTag_def Let_def split: list.splits if_splits)
  obtain r where "drop (length (takeWhile nameChar t)) t = 36 # r"
    using d by (cases "drop (length (takeWhile nameChar t)) t") auto
  then have "t = takeWhile nameChar t @ 36 # r"
    by (metis dropWhile_eq_drop takeWhile_dropWhile_id)
  then show "tag \<noteq> []" and "hd tag = 36" and "\<exists>r. s = tag @ r"
    unfolding s tag by (auto intro!: exI [of _ r])
qed

function sqlLoop :: "jsstr \<Rightarrow> jsstr \<Rightarrow> jsstr list" where
  "sqlLoop current s =
     (if s = [] then pushed current
      else if startsWith (js ''--'') s then sqlLoop (current @ [10]) (drop (endOf [10] 0 s) s)
      else if startsWith (js ''/*'') s then sqlLoop (current @ [32]) (drop (endOf (js ''*/'') 2 s) s)
      else case dollarTag s of
             Some tag \<Rightarrow>
               let k = endOf tag (length tag) s in sqlLoop (current @ take k s) (drop k s)
           | None \<Rightarrow>
               if hd s = 39 \<or> hd s = 34
               then let k = endOf [hd s] 1 s in sqlLoop (current @ take k s) (drop k s)
               else if hd s = 59 then pushed current @ sqlLoop [] (tl s)
               else sqlLoop (current @ [hd s]) (tl s))"
  by pat_completeness auto

termination
  by (relation "measure (\<lambda>(_, s). length s)") (auto simp: endOf_pos dollarTag_cases js_def)

declare sqlLoop.simps [simp del]

definition sqlStatements :: "jsstr \<Rightarrow> jsstr list" where
  "sqlStatements text = sqlLoop [] text"

section \<open>Lexemes\<close>

datatype region = LineComment | BlockComment | DollarQuoted jsstr | Quoted nat

fun opens :: "region \<Rightarrow> jsstr" where
  "opens LineComment = js ''--''"
| "opens BlockComment = js ''/*''"
| "opens (DollarQuoted tag) = tag"
| "opens (Quoted q) = [q]"

fun closes :: "region \<Rightarrow> jsstr" where
  "closes LineComment = [10]"
| "closes BlockComment = js ''*/''"
| "closes (DollarQuoted tag) = tag"
| "closes (Quoted q) = [q]"

fun region_ok :: "region \<Rightarrow> bool" where
  "region_ok (DollarQuoted tag) = (dollarTag tag = Some tag)"
| "region_ok (Quoted q) = (q = 39 \<or> q = 34)"
| "region_ok _ = True"

text \<open>A region holds its body and says whether it is closed; one that is not closed reaches the end of the text.\<close>

datatype lexeme = Region region jsstr bool | Semicolon | Plain nat

fun spell :: "lexeme \<Rightarrow> jsstr" where
  "spell (Region k b ended) = opens k @ b @ (if ended then closes k else [])"
| "spell Semicolon = [59]"
| "spell (Plain c) = [c]"

definition spellAll :: "lexeme list \<Rightarrow> jsstr" where
  "spellAll ls = concat (map spell ls)"

text \<open>
  A sequence of lexemes: a closed body meets its closing mark at its end and not before, and a
  plain character begins no region.
\<close>

fun lexed :: "lexeme list \<Rightarrow> bool" where
  "lexed [] = True"
| "lexed (Region k b ended # ls) =
     (region_ok k \<and> lexed ls
      \<and> (if ended then \<not> sublist (closes k) (butlast (b @ closes k)) else \<not> sublist (closes k) b \<and> ls = []))"
| "lexed (Semicolon # ls) = lexed ls"
| "lexed (Plain c # ls) =
     (lexed ls \<and> c \<noteq> 39 \<and> c \<noteq> 34 \<and> c \<noteq> 59 \<and> \<not> startsWith (js ''--'') (c # spellAll ls)
      \<and> \<not> startsWith (js ''/*'') (c # spellAll ls) \<and> dollarTag (c # spellAll ls) = None)"

text \<open>The statements: the lexemes between semicolons, comments replaced by a blank.\<close>

fun kept :: "lexeme \<Rightarrow> jsstr" where
  "kept (Region LineComment _ _) = [10]"
| "kept (Region BlockComment _ _) = [32]"
| "kept l = spell l"

fun segments :: "lexeme list \<Rightarrow> lexeme list list" where
  "segments [] = [[]]"
| "segments (Semicolon # ls) = [] # segments ls"
| "segments (l # ls) = (case segments ls of [] \<Rightarrow> [[l]] | seg # segs \<Rightarrow> (l # seg) # segs)"

definition written :: "lexeme list \<Rightarrow> jsstr" where
  "written seg = concat (map kept seg)"

definition statementsOf :: "lexeme list \<Rightarrow> jsstr list" where
  "statementsOf ls = filter (\<lambda>s. s \<noteq> []) (map (trim \<circ> written) (segments ls))"

section \<open>Searching\<close>

lemma startsWith_prefix: "startsWith p s \<longleftrightarrow> prefix p s"
  unfolding startsWith_def prefix_def by (metis append_eq_conv_conj append_take_drop_id)

lemma indexOf_None_iff: "p \<noteq> [] \<Longrightarrow> indexOf p s = None \<longleftrightarrow> \<not> sublist p s"
  by (induction s) (auto simp: startsWith_prefix sublist_Cons_right)

lemma sublist_butlast_Cons:
  "p \<noteq> [] \<Longrightarrow> sublist p (butlast ((c # b) @ p)) \<longleftrightarrow> prefix p (c # butlast (b @ p)) \<or> sublist p (butlast (b @ p))"
  by (simp add: sublist_Cons_right)

lemma prefix_butlast:
  fixes p :: jsstr
  assumes "p \<noteq> []"
  shows "prefix p (c # butlast (b @ p)) \<longleftrightarrow> prefix p (c # b @ p @ r)"
proof -
  have "c # butlast (b @ p) = take (length b + length p) (c # b @ p @ r)"
    using assms by (cases p rule: rev_cases) (simp_all add: butlast_append)
  moreover have "prefix p (take (length b + length p) t) \<longleftrightarrow> prefix p t" for t
    unfolding startsWith_prefix [symmetric] startsWith_def by (simp add: min_absorb1)
  ultimately show ?thesis by metis
qed

lemma indexOf_found:
  assumes "p \<noteq> []" and "\<not> sublist p (butlast (b @ p))"
  shows "indexOf p (b @ p @ r) = Some (length b)"
  using assms(2)
proof (induction b)
  case Nil
  then show ?case using assms(1) by (cases p) (simp_all add: startsWith_def)
next
  case (Cons c b)
  then show ?case
    using sublist_butlast_Cons [OF assms(1), of c b] prefix_butlast [OF assms(1), of c b r] by (simp add: startsWith_prefix)
qed

lemma indexOf_Some:
  assumes "indexOf p s = Some i" and "p \<noteq> []"
  shows "\<exists>b r. s = b @ p @ r \<and> length b = i \<and> \<not> sublist p (butlast (b @ p))"
  using assms(1)
proof (induction s arbitrary: i)
  case (Cons c s)
  show ?case
  proof (cases "prefix p (c # s)")
    case True
    then obtain r where "c # s = p @ r" by (auto simp: prefix_def)
    moreover have "\<not> sublist p (butlast p)" using assms(2) sublist_length_le [of p "butlast p"] by (cases p rule: rev_cases) auto
    moreover have "i = 0" using Cons.prems True by (simp add: startsWith_prefix)
    ultimately show ?thesis by (intro exI [of _ "[]"] exI [of _ r]) simp
  next
    case False
    then obtain j where "indexOf p s = Some j" "i = Suc j" using Cons.prems by (auto simp: startsWith_prefix)
    with Cons.IH obtain b r where b: "s = b @ p @ r" "length b = j" "\<not> sublist p (butlast (b @ p))" by blast
    then have "\<not> sublist p (butlast ((c # b) @ p))"
      using False sublist_butlast_Cons [OF assms(2), of c b] prefix_butlast [OF assms(2), of c b r] by simp
    then show ?thesis using b \<open>i = Suc j\<close> by (intro exI [of _ "c # b"] exI [of _ r]) simp
  qed
qed simp

section \<open>Scanning a lexeme\<close>

lemma closes_nonempty: "region_ok k \<Longrightarrow> closes k \<noteq> [] \<and> opens k \<noteq> []"
  by (cases k) (auto simp: dollarTag_cases)

lemma endOf_body:
  assumes "c \<noteq> []" and "if ended then \<not> sublist c (butlast (b @ c)) else \<not> sublist c b \<and> r = []"
  shows "endOf c (length t) (t @ b @ (if ended then c else []) @ r) = length t + length b + (if ended then length c else 0)"
proof (cases ended)
  case True
  then show ?thesis using assms indexOf_found [OF assms(1), of b r] by (simp add: endOf_def)
next
  case False
  then have "indexOf c b = None" using assms indexOf_None_iff by simp
  then show ?thesis using False assms(2) by (simp add: endOf_def)
qed

lemma dollarTag_append:
  assumes "dollarTag tag = Some tag"
  shows "dollarTag (tag @ r) = Some tag"
proof -
  obtain t where t: "tag = 36 # t" using assms dollarTag_cases(1,2) [OF assms] by (cases tag) auto
  define n where "n = takeWhile nameChar t"
  have n: "t = n @ [36]" "n = [] \<or> nameStart (hd n)"
    using assms unfolding t n_def dollarTag_def Let_def by (simp_all split: if_splits)
  have "\<forall>c\<in>set n. nameChar c" unfolding n_def by (blast dest: set_takeWhileD)
  then have "takeWhile nameChar (n @ 36 # r) = n" by (simp add: takeWhile_append2 nameChar_def nameStart_def)
  then show ?thesis unfolding t n(1) using n(2) by (simp add: dollarTag_def)
qed

lemma dollarTag_idem:
  assumes "dollarTag s = Some tag"
  shows "dollarTag tag = Some tag"
proof (cases s)
  case (Cons c t)
  define n where "n = takeWhile nameChar t"
  have n: "tag = 36 # n @ [36]" "n = [] \<or> nameStart (hd n)"
    using assms unfolding Cons n_def dollarTag_def Let_def by (simp_all split: if_splits)
  have "\<forall>c\<in>set n. nameChar c" unfolding n_def by (blast dest: set_takeWhileD)
  then have "takeWhile nameChar (n @ [36]) = n" by (simp add: takeWhile_append2 nameChar_def nameStart_def)
  then show ?thesis using n by (simp add: dollarTag_def)
qed (use assms in \<open>simp add: dollarTag_def\<close>)

lemma spellAll_simps [simp]: "spellAll [] = []" "spellAll (l # ls) = spell l @ spellAll ls"
  by (simp_all add: spellAll_def)

text \<open>The text a scanned region leaves behind, and what it adds to the statement.\<close>

lemma sqlLoop_region:
  assumes "lexed (Region k b ended # ls)"
  shows "sqlLoop current (spellAll (Region k b ended # ls)) = sqlLoop (current @ kept (Region k b ended)) (spellAll ls)"
proof -
  let ?c = "if ended then closes k else []" and ?r = "spellAll ls"
  have ok: "region_ok k" and "if ended then \<not> sublist (closes k) (butlast (b @ closes k)) else \<not> sublist (closes k) b \<and> ?r = []"
    using assms by (auto split: if_splits)
  then have e: "endOf (closes k) (length t) (t @ b @ ?c @ ?r) = length (t @ b @ ?c)" for t
    using closes_nonempty [OF ok] by (subst endOf_body) auto
  show ?thesis
  proof (cases k)
    case LineComment
    have "endOf [10] 0 (45 # 45 # b @ ?c @ ?r) = endOf [10] 2 (45 # 45 # b @ ?c @ ?r)"
      by (simp add: endOf_def eval_nat_numeral option.map_comp comp_def split: option.splits)
    then show ?thesis using e [of "js ''--''"] LineComment by (subst sqlLoop.simps) (cases ended; simp add: js_def flip: numeral_2_eq_2)
  next
    case BlockComment
    then show ?thesis using e [of "js ''/*''"] by (subst sqlLoop.simps) (cases ended; simp add: js_def flip: numeral_2_eq_2)
  next
    case (DollarQuoted tag)
    then have "dollarTag tag = Some tag" using ok by simp
    then show ?thesis using e [of tag] DollarQuoted dollarTag_cases(1,2) [of tag tag] dollarTag_append [of tag]
      by (subst sqlLoop.simps) (cases tag; cases ended; simp add: js_def Let_def)
  next
    case (Quoted q)
    then show ?thesis using e [of "[q]"] ok by (subst sqlLoop.simps) (auto simp: js_def Let_def dollarTag_def)
  qed
qed

lemma sqlLoop_plain:
  assumes "lexed (Plain c # ls)"
  shows "sqlLoop current (spellAll (Plain c # ls)) = sqlLoop (current @ [c]) (spellAll ls)"
  using assms by (subst sqlLoop.simps) (simp add: Let_def)

lemma sqlLoop_semicolon: "sqlLoop current (spellAll (Semicolon # ls)) = pushed current @ sqlLoop [] (spellAll ls)"
  by (subst sqlLoop.simps) (simp add: js_def dollarTag_def)

lemma written_simps [simp]: "written [] = []" "written (l # seg) = kept l @ written seg"
  by (simp_all add: written_def)

lemma segments_Cons: "\<exists>seg segs. segments ls = seg # segs"
  by (induction ls rule: segments.induct) (auto split: list.splits)

text \<open>The statement under way is the first segment, after the text already read.\<close>

lemma sqlLoop_lexed:
  "lexed ls \<Longrightarrow> sqlLoop current (spellAll ls) =
     concat (map pushed (case map written (segments ls) of [] \<Rightarrow> [] | w # ws \<Rightarrow> (current @ w) # ws))"
proof (induction ls arbitrary: current rule: lexed.induct)
  case 1
  then show ?case by (subst sqlLoop.simps) simp
next
  case (2 k b ended ls)
  then show ?case using segments_Cons [of ls] by (subst sqlLoop_region) auto
next
  case (3 ls)
  then show ?case using segments_Cons [of ls] by (subst sqlLoop_semicolon) auto
next
  case (4 c ls)
  then show ?case using segments_Cons [of ls] by (subst sqlLoop_plain) auto
qed

lemma concat_pushed: "concat (map pushed ws) = filter (\<lambda>s. s \<noteq> []) (map trim ws)"
  by (induction ws) (simp_all add: pushed_def)

lemma sqlStatements_lexed: "lexed ls \<Longrightarrow> sqlStatements (spellAll ls) = statementsOf ls"
  using segments_Cons [of ls]
  by (auto simp: sqlStatements_def sqlLoop_lexed statementsOf_def concat_pushed simp flip: map_map)

section \<open>Every text is a sequence of lexemes\<close>

lemma region_splits:
  assumes "region_ok k" and "s = opens k @ t"
  shows "\<exists>b ended r. s = spell (Region k b ended) @ r \<and> length r < length s
     \<and> (\<forall>ls. lexed ls \<and> spellAll ls = r \<longrightarrow> (\<exists>ls'. lexed (Region k b ended # ls') \<and> spellAll ls' = r))"
proof (cases "indexOf (closes k) t")
  case None
  then have "\<not> sublist (closes k) t" using closes_nonempty [OF assms(1)] indexOf_None_iff by blast
  then show ?thesis
    using assms closes_nonempty [OF assms(1)] by (intro exI [of _ t] exI [of _ False] exI [of _ "[]"]) (auto intro: exI [of _ "[]"])
next
  case (Some i)
  then obtain b r where b: "t = b @ closes k @ r" "\<not> sublist (closes k) (butlast (b @ closes k))"
    using indexOf_Some closes_nonempty [OF assms(1)] by blast
  then show ?thesis using assms closes_nonempty [OF assms(1)] by (intro exI [of _ b] exI [of _ True] exI [of _ r]) auto
qed

lemma lexing_exists: "\<exists>ls. lexed ls \<and> spellAll ls = s"
proof (induction s rule: measure_induct_rule [where f = length])
  case (less s)
  have region: ?case if "region_ok k" and "s = opens k @ t" for k t
  proof -
    from region_splits [OF that] obtain b ended r where
      r: "s = spell (Region k b ended) @ r" "length r < length s"
      and c: "\<And>ls. lexed ls \<Longrightarrow> spellAll ls = r \<Longrightarrow> \<exists>ls'. lexed (Region k b ended # ls') \<and> spellAll ls' = r"
      by blast
    from less.IH [OF r(2)] c obtain ls' where "lexed (Region k b ended # ls')" "spellAll ls' = r" by blast
    then show ?thesis using r(1) by (intro exI [of _ "Region k b ended # ls'"]) simp
  qed
  show ?case
  proof (cases s)
    case Nil
    then show ?thesis by (intro exI [of _ "[]"]) simp
  next
    case (Cons c t)
    then obtain ls where ls: "lexed ls" "spellAll ls = t" using less.IH [of t] by auto
    consider "startsWith (js ''--'') s" | "startsWith (js ''/*'') s" | tag where "dollarTag s = Some tag" | "c = 39 \<or> c = 34"
      | "c = 59" | "lexed (Plain c # ls)"
      using ls Cons by (cases "dollarTag s") auto
    then show ?thesis
    proof cases
      case 1
      then show ?thesis using region [of LineComment] by (auto simp: startsWith_prefix prefix_def)
    next
      case 2
      then show ?thesis using region [of BlockComment] by (auto simp: startsWith_prefix prefix_def)
    next
      case (3 tag)
      then obtain r where "s = tag @ r" using dollarTag_cases by blast
      moreover have "dollarTag tag = Some tag" using 3 by (rule dollarTag_idem)
      ultimately show ?thesis using region [of "DollarQuoted tag" r] by simp
    next
      case 4
      then show ?thesis using region [of "Quoted c" t] Cons by simp
    next
      case 5
      then show ?thesis using ls Cons by (intro exI [of _ "Semicolon # ls"]) simp
    next
      case 6
      then show ?thesis using ls Cons by (intro exI [of _ "Plain c # ls"]) simp
    qed
  qed
qed

section \<open>Property\<close>

text \<open>
  C18: Splitting a SQL file is splitting its lexemes. However a text is read as a sequence of
  lexemes - line and block comments, dollar-quoted bodies, strings and quoted identifiers,
  semicolons and plain characters - the statements are the trimmed, non-blank texts between
  its semicolon lexemes, with every region kept as it is and every comment a blank: no
  semicolon inside a region ends a statement, and every semicolon outside does. Every text
  has such a reading.
\<close>

theorem statements_split_at_semicolons:
  "(lexed ls \<longrightarrow> sqlStatements (spellAll ls) = statementsOf ls) \<and> (\<exists>ls'. lexed ls' \<and> spellAll ls' = text)"
  using sqlStatements_lexed lexing_exists by blast

text \<open>A body with semicolons and quotes, a comment with both, a string with an escaped quote.\<close>

definition ex_lexemes :: "lexeme list" where
  "ex_lexemes =
     map Plain (js ''do '') @ [Region (DollarQuoted (js ''$b$'')) (js ''x; 'y'') True, Semicolon,
       Region LineComment (js '' it's; '') True] @ map Plain (js ''set s = '') @
     [Region (Quoted 39) (js ''a;'') True, Region (Quoted 39) (js ''b'') True, Semicolon, Plain 10]"

lemma ex_lexed: "lexed ex_lexemes"
  by (simp add: ex_lexemes_def js_def dollarTag_def nameChar_def nameStart_def sublist_Cons_right prefix_Cons)

theorem statements_split_at_semicolons_witness:
  "sqlStatements (spellAll ex_lexemes) = [js ''do $b$x; 'y$b$'', js ''set s = '' @ [39] @ js ''a;'' @ [39, 39] @ js ''b'' @ [39]]"
  using statements_split_at_semicolons [of ex_lexemes] ex_lexed
  by (simp add: ex_lexemes_def js_def statementsOf_def trim_def jsSpace_def)

end
