(* ===== verification/Diagnostics.thy ===== *)
theory Diagnostics
  imports BackendSpec
begin

text \<open>
  \<^verbatim>\<open>packages/backend/server/api/diagnostics.mts\<close>: the trace records of one backend. A span is opened with a
  number of its own, runs its body in an async context that names it, and is recorded when
  the body settles.

  What \<open>getStore\<close> answers is the argument \<open>cx\<close>, times are those \<open>process.hrtime\<close> answered, from the
  origin on. Attributes a caller passes are left out; those the class adds are fields. \<open>d_heard\<close> are the calls of the
  receiver, in order; one that throws is ignored. A span of an asynchronous body is opened by
  \<open>spanStarted\<close> and ends with \<open>spanSettled\<close>, so other spans may open and end in between.
\<close>

section \<open>Records\<close>

record context_store =
  x_span :: jsstr
  x_operation :: jsstr

datatype trace_kind = SpanRecord | LossRecord | ClockRecord | NativeRecord

record trace =
  r_kind :: trace_kind
  r_name :: jsstr
  r_domain :: jsstr
  r_span :: "jsstr option"
  r_parent :: "jsstr option"
  r_start :: int
  r_duration :: "int option"
  r_operation :: "jsstr option"
  r_success :: "bool option"
  r_dropped :: "nat option"

record diagnostics =
  d_receiver :: bool
  d_domain :: jsstr
  d_next :: nat
  d_heard :: "trace list"

definition recordTrace :: "trace \<Rightarrow> diagnostics \<Rightarrow> diagnostics" where
  "recordTrace r d = (if d_receiver d then d\<lparr>d_heard := d_heard d @ [r]\<rparr> else d)"

abbreviation plainTrace :: "trace_kind \<Rightarrow> jsstr \<Rightarrow> jsstr \<Rightarrow> int \<Rightarrow> trace" where
  "plainTrace k name domain start \<equiv>
     \<lparr>r_kind = k, r_name = name, r_domain = domain, r_span = None, r_parent = None, r_start = start, r_duration = None,
      r_operation = None, r_success = None, r_dropped = None\<rparr>"

text \<open>The constructor; \<open>pid\<close> and \<open>instance\<close> are the process and the backend's number in it.\<close>

definition new_diagnostics :: "bool \<Rightarrow> nat \<Rightarrow> nat \<Rightarrow> diagnostics" where
  "new_diagnostics receiver pid instance_no =
     (let domain = js ''backend:'' @ show_nat pid @ js '':'' @ show_nat instance_no
      in recordTrace (plainTrace ClockRecord (js ''clock.origin'') domain 0)
           \<lparr>d_receiver = receiver, d_domain = domain, d_next = 0, d_heard = []\<rparr>)"

text \<open>\<open>bind\<close>: the body runs in the context it was bound in, if there was one.\<close>

definition bindContext :: "context_store option \<Rightarrow> (context_store option \<Rightarrow> 'a) \<Rightarrow> context_store option \<Rightarrow> 'a" where
  "bindContext cx body caller = (case cx of Some c \<Rightarrow> body (Some c) | None \<Rightarrow> body caller)"

definition nativeRecords :: "context_store option \<Rightarrow> trace list \<Rightarrow> nat \<Rightarrow> int \<Rightarrow> diagnostics \<Rightarrow> diagnostics" where
  "nativeRecords cx records dropped now d =
     (let operation = map_option x_operation cx;
          d' = fold (\<lambda>r. recordTrace (case operation of None \<Rightarrow> r | Some i \<Rightarrow> r\<lparr>r_operation := Some i\<rparr>)) records d
      in if 0 < dropped
         then recordTrace ((plainTrace LossRecord (js ''diagnostics.dropped'') (d_domain d) now)\<lparr>r_dropped := Some dropped, r_operation := operation\<rparr>) d'
         else d')"

section \<open>Spans\<close>

record span =
  s_context :: context_store
  s_name :: jsstr
  s_parent :: "context_store option"
  s_start :: int

definition spanStarted :: "context_store option \<Rightarrow> jsstr \<Rightarrow> int \<Rightarrow> diagnostics \<Rightarrow> span \<times> diagnostics" where
  "spanStarted parent name start d =
     (let d' = d\<lparr>d_next := Suc (d_next d)\<rparr>; spanId = show_nat (d_next d');
          operation = (case parent of Some p \<Rightarrow> x_operation p | None \<Rightarrow> d_domain d @ js '':'' @ spanId)
      in (\<lparr>s_context = \<lparr>x_span = spanId, x_operation = operation\<rparr>, s_name = name, s_parent = parent, s_start = start\<rparr>, d'))"

definition spanTrace :: "span \<Rightarrow> bool \<Rightarrow> int \<Rightarrow> jsstr \<Rightarrow> trace" where
  "spanTrace s success now domain =
     \<lparr>r_kind = SpanRecord, r_name = s_name s, r_domain = domain, r_span = Some (x_span (s_context s)),
      r_parent = map_option x_span (s_parent s), r_start = s_start s, r_duration = Some (now - s_start s),
      r_operation = Some (x_operation (s_context s)), r_success = Some success, r_dropped = None\<rparr>"

definition spanSettled :: "span \<Rightarrow> bool \<Rightarrow> int \<Rightarrow> diagnostics \<Rightarrow> diagnostics" where
  "spanSettled s success now d = recordTrace (spanTrace s success now (d_domain d)) d"

text \<open>A synchronous body, given the context it runs in; \<open>start\<close> and \<open>now\<close> are read around it.\<close>

definition syncSpan ::
  "context_store option \<Rightarrow> jsstr \<Rightarrow> int \<Rightarrow> int \<Rightarrow> (context_store option \<Rightarrow> diagnostics \<Rightarrow> ('e, 'r) res \<times> diagnostics) \<Rightarrow>
   diagnostics \<Rightarrow> ('e, 'r) res \<times> diagnostics" where
  "syncSpan cx name start now body d =
     (if \<not> d_receiver d then body cx d
      else case spanStarted cx name start d of
             (s, d1) \<Rightarrow>
               (case body (Some (s_context s)) d1 of
                  (Inl e, d2) \<Rightarrow> (Inl e, spanSettled s False now d2)
                | (Inr r, d2) \<Rightarrow> (Inr r, spanSettled s True now d2)))"

section \<open>Outcomes\<close>

text \<open>
  Code that is observed: it ends, or it runs a part of itself in a span and goes on with what
  that part threw or returned.
\<close>

datatype ('e, 'r) observed = Ends "('e, 'r) res" | InSpan jsstr int int "('e, 'r) observed" "('e, 'r) res \<Rightarrow> ('e, 'r) observed"

primrec outcome :: "('e, 'r) observed \<Rightarrow> ('e, 'r) res" where
  "outcome (Ends r) = r"
| "outcome (InSpan name start now p k) = (outcome \<circ> k) (outcome p)"

primrec traced :: "('e, 'r) observed \<Rightarrow> context_store option \<Rightarrow> diagnostics \<Rightarrow> ('e, 'r) res \<times> diagnostics" where
  "traced (Ends r) = (\<lambda>cx d. (r, d))"
| "traced (InSpan name start now p k) =
     (\<lambda>cx d. case syncSpan cx name start now (traced p) d of (r, d') \<Rightarrow> (traced \<circ> k) r cx d')"

lemma fst_syncSpan: "(\<And>cx d. fst (body cx d) = r) \<Longrightarrow> fst (syncSpan cx name start now body d) = r"
  by (auto simp: syncSpan_def split: prod.splits sum.splits) (metis fst_conv)+

lemma traced_outcome: "fst (traced p cx d) = outcome p"
proof (induction p arbitrary: cx d)
  case (InSpan name start now p k)
  have "fst (syncSpan cx name start now (traced p) d) = outcome p" using InSpan.IH(1) by (rule fst_syncSpan)
  then show ?case using InSpan.IH(2) [OF rangeI] by (simp add: case_prod_beta)
qed simp

section \<open>Traces\<close>

text \<open>
  The histories of a backend's diagnostics: spans open and end in any order, under no context or
  that of a span opened before, ended or not, and the engine reports records of its own. A
  report names no span of this class.
\<close>

inductive traced_reach :: "diagnostics \<Rightarrow> span list \<Rightarrow> span list \<Rightarrow> bool" where
  created: "traced_reach (new_diagnostics receiver pid instance_no) [] []"
| started: "traced_reach d issued running \<Longrightarrow> d_receiver d \<Longrightarrow> cx \<in> {None} \<union> (Some \<circ> s_context) ` set issued \<Longrightarrow>
    spanStarted cx name start d = (s, d') \<Longrightarrow> traced_reach d' (issued @ [s]) (running @ [s])"
| settled: "traced_reach d issued running \<Longrightarrow> s \<in> set running \<Longrightarrow>
    traced_reach (spanSettled s success now d) issued (remove1 s running)"
| native: "traced_reach d issued running \<Longrightarrow> list_all (\<lambda>r. r_kind r = NativeRecord) records \<Longrightarrow>
    traced_reach (nativeRecords cx records dropped now d) issued running"

definition spanRecords :: "diagnostics \<Rightarrow> trace list" where
  "spanRecords d = filter (\<lambda>r. r_kind r = SpanRecord) (d_heard d)"

definition spanIds :: "span list \<Rightarrow> jsstr list" where
  "spanIds ss = map (x_span \<circ> s_context) ss"

text \<open>The spans of an operation: the first one has no parent and names the operation, the others hang under one of them opened before.\<close>

definition rooted :: "jsstr \<Rightarrow> span list \<Rightarrow> bool" where
  "rooted domain issued =
     (\<forall>i < length issued. x_span (s_context (issued ! i)) = show_nat (Suc i)
        \<and> (case s_parent (issued ! i) of
             None \<Rightarrow> x_operation (s_context (issued ! i)) = domain @ js '':'' @ show_nat (Suc i)
           | Some p \<Rightarrow> (\<exists>j < i. p = s_context (issued ! j)) \<and> x_operation (s_context (issued ! i)) = x_operation p))"

definition tracked :: "diagnostics \<Rightarrow> span list \<Rightarrow> span list \<Rightarrow> bool" where
  "tracked d issued running =
     (d_next d = length issued \<and> rooted (d_domain d) issued \<and> (issued \<noteq> [] \<longrightarrow> d_receiver d)
      \<and> (\<exists>ended. set ended \<union> set running = set issued \<and> distinct (ended @ running)
           \<and> list_all2 (\<lambda>r s. \<exists>success now. r = spanTrace s success now (d_domain d)) (spanRecords d) ended))"

lemma recordTrace_simps [simp]:
  "d_next (recordTrace r d) = d_next d" "d_domain (recordTrace r d) = d_domain d" "d_receiver (recordTrace r d) = d_receiver d"
  "spanRecords (recordTrace r d) = spanRecords d @ (if d_receiver d \<and> r_kind r = SpanRecord then [r] else [])"
  by (simp_all add: recordTrace_def spanRecords_def)

lemma tracked_frame:
  assumes "tracked d issued running" and "d_next d' = d_next d" and "d_domain d' = d_domain d" and "d_receiver d' = d_receiver d"
    and "spanRecords d' = spanRecords d"
  shows "tracked d' issued running"
  using assms by (simp add: tracked_def)

lemma native_frame:
  assumes "list_all (\<lambda>r. r_kind r = NativeRecord) records"
  shows "d_next (nativeRecords cx records dropped now d) = d_next d" and "d_domain (nativeRecords cx records dropped now d) = d_domain d"
    and "d_receiver (nativeRecords cx records dropped now d) = d_receiver d"
    and "spanRecords (nativeRecords cx records dropped now d) = spanRecords d"
proof -
  define f where "f = (\<lambda>r. recordTrace (case map_option x_operation cx of None \<Rightarrow> r | Some i \<Rightarrow> r\<lparr>r_operation := Some i\<rparr>))"
  have "d_next (fold f records e) = d_next e \<and> d_domain (fold f records e) = d_domain e
      \<and> d_receiver (fold f records e) = d_receiver e \<and> spanRecords (fold f records e) = spanRecords e" for e
    using assms by (induction records arbitrary: e) (simp_all add: f_def split: option.splits)
  then show "d_next (nativeRecords cx records dropped now d) = d_next d" and "d_domain (nativeRecords cx records dropped now d) = d_domain d"
    and "d_receiver (nativeRecords cx records dropped now d) = d_receiver d"
    and "spanRecords (nativeRecords cx records dropped now d) = spanRecords d"
    unfolding nativeRecords_def Let_def f_def [symmetric] by simp_all
qed

lemma rooted_span: "rooted d issued \<Longrightarrow> i < length issued \<Longrightarrow> x_span (s_context (issued ! i)) = show_nat (Suc i)"
  by (simp add: rooted_def)

lemma rooted_ids: "rooted d issued \<Longrightarrow> distinct (spanIds issued)"
  by (auto simp: distinct_conv_nth spanIds_def rooted_span show_nat_inject)

lemma rooted_snoc:
  assumes "rooted (d_domain d) issued" and "d_next d = length issued" and "cx \<in> {None} \<union> (Some \<circ> s_context) ` set issued"
    and "spanStarted cx name start d = (s, d')"
  shows "rooted (d_domain d') (issued @ [s])"
proof -
  have s: "x_span (s_context s) = show_nat (Suc (length issued))" "s_parent s = cx" "d_domain d' = d_domain d"
    "x_operation (s_context s) = (case cx of Some p \<Rightarrow> x_operation p | None \<Rightarrow> d_domain d @ js '':'' @ show_nat (Suc (length issued)))"
    using assms(2,4) by (auto simp: spanStarted_def Let_def split: option.splits)
  have p: "\<exists>j < length issued. p = s_context (issued ! j)" if "cx = Some p" for p
    using assms(3) that by (auto simp: in_set_conv_nth)
  show ?thesis
    unfolding rooted_def
  proof (intro allI impI)
    fix i
    assume i: "i < length (issued @ [s])"
    show "x_span (s_context ((issued @ [s]) ! i)) = show_nat (Suc i)
        \<and> (case s_parent ((issued @ [s]) ! i) of
             None \<Rightarrow> x_operation (s_context ((issued @ [s]) ! i)) = d_domain d' @ js '':'' @ show_nat (Suc i)
           | Some p \<Rightarrow> (\<exists>j < i. p = s_context ((issued @ [s]) ! j)) \<and> x_operation (s_context ((issued @ [s]) ! i)) = x_operation p)"
    proof (cases "i < length issued")
      case True
      then show ?thesis using assms(1) s(3) by (auto simp: rooted_def nth_append split: option.splits) force
    next
      case False
      then have "i = length issued" using i by simp
      then show ?thesis using s p by (auto simp: nth_append split: option.splits)
    qed
  qed
qed

lemma tracked_started:
  assumes "tracked d issued running" and "d_receiver d" and "cx \<in> {None} \<union> (Some \<circ> s_context) ` set issued"
    and "spanStarted cx name start d = (s, d')"
  shows "tracked d' (issued @ [s]) (running @ [s])"
proof -
  have d': "d' = d\<lparr>d_next := Suc (d_next d)\<rparr>" using assms(4) by (auto simp: spanStarted_def Let_def)
  have n: "d_next d = length issued" and r: "rooted (d_domain d) issued" using assms(1) by (simp_all add: tracked_def)
  have r': "rooted (d_domain d') (issued @ [s])" using r n assms(3,4) by (rule rooted_snoc)
  have "s \<notin> set issued" using rooted_ids [OF r'] by (auto simp: spanIds_def)
  moreover from assms(1) obtain ended where
    "set ended \<union> set running = set issued" "distinct (ended @ running)"
    "list_all2 (\<lambda>r s. \<exists>success now. r = spanTrace s success now (d_domain d)) (spanRecords d) ended"
    by (auto simp: tracked_def)
  ultimately show ?thesis
    using n r' assms(2) unfolding tracked_def by (intro conjI exI [of _ ended]) (auto simp: d' spanRecords_def)
qed

lemma tracked_settled:
  assumes "tracked d issued running" and "s \<in> set running"
  shows "tracked (spanSettled s success now d) issued (remove1 s running)"
proof -
  from assms(1) obtain ended where
    e: "set ended \<union> set running = set issued" "distinct (ended @ running)"
    "list_all2 (\<lambda>r s. \<exists>success now. r = spanTrace s success now (d_domain d)) (spanRecords d) ended"
    by (auto simp: tracked_def)
  have "d_receiver d" using assms e(1) by (auto simp: tracked_def)
  then have "list_all2 (\<lambda>r s. \<exists>success now. r = spanTrace s success now (d_domain d))
      (spanRecords (spanSettled s success now d)) (ended @ [s])"
    using e(3) by (auto simp: spanSettled_def spanTrace_def intro!: list_all2_appendI)
  moreover have "set (ended @ [s]) \<union> set (remove1 s running) = set issued" "distinct ((ended @ [s]) @ remove1 s running)"
    using e(1,2) assms(2) by (auto simp: distinct_remove1)
  ultimately show ?thesis using assms(1) unfolding tracked_def by (auto simp: spanSettled_def)
qed

lemma traced_reach_tracked: "traced_reach d issued running \<Longrightarrow> tracked d issued running"
proof (induction rule: traced_reach.induct)
  case (created receiver pid instance_no)
  then show ?case by (simp add: tracked_def rooted_def new_diagnostics_def Let_def) (simp add: spanRecords_def)
next
  case (native d issued running records cx dropped now)
  then show ?case using native_frame by (intro tracked_frame [OF native.IH]) auto
qed (simp_all add: tracked_started tracked_settled)

lemma recorded_once:
  assumes "tracked d issued running" and "s \<in> set issued"
  shows "length (filter (\<lambda>r. r_span r = Some (x_span (s_context s))) (spanRecords d)) = (if s \<in> set running then 0 else 1)"
proof -
  let ?is = "\<lambda>t. x_span (s_context t) = x_span (s_context s)"
  from assms(1) obtain ended where
    e: "set ended \<union> set running = set issued" "distinct (ended @ running)"
    "list_all2 (\<lambda>r s. \<exists>success now. r = spanTrace s success now (d_domain d)) (spanRecords d) ended"
    by (auto simp: tracked_def)
  have ids: "distinct (spanIds issued)" using assms(1) rooted_ids by (auto simp: tracked_def)
  have "length (filter (\<lambda>r. r_span r = Some (x_span (s_context s))) (spanRecords d)) = length (filter ?is ended)"
    using e(3) by (induction rule: list_all2_induct) (auto simp: spanTrace_def)
  also have "filter ?is ended = filter (\<lambda>t. t = s) ended"
    using ids assms(2) e(1) by (intro filter_cong) (auto simp: spanIds_def distinct_map inj_on_def)
  also have "length \<dots> = (if s \<in> set ended then 1 else 0)"
    using e(2) by (simp add: distinct_length_filter Collect_conv_if Int_commute)
  finally show ?thesis using e(1,2) assms(2) by auto
qed

section \<open>Properties\<close>

text \<open>
  Observations never decide outcomes: whatever code is observed, however its spans nest and
  whether or not a part of it throws, it throws or returns the same with diagnostics, with
  none and in any context.
\<close>

lemma observations_never_decide: "fst (traced p cx d) = outcome p"
  by (rule traced_outcome)


text \<open>A span opened inside another one, which ends first.\<close>

definition ex_outer :: "span \<times> diagnostics" where
  "ex_outer = spanStarted None (js ''run'') 1 (new_diagnostics True 7 1)"

definition ex_inner :: "span \<times> diagnostics" where
  "ex_inner = spanStarted (Some (s_context (fst ex_outer))) (js ''query'') 2 (snd ex_outer)"

lemma ex_spans_reach:
  "traced_reach (spanSettled (fst ex_inner) True 3 (snd ex_inner)) [fst ex_outer, fst ex_inner] [fst ex_outer]"
proof -
  have a: "traced_reach (snd ex_outer) ([] @ [fst ex_outer]) ([] @ [fst ex_outer])"
    by (rule started [OF created [of True 7 1], where cx = None and name = "js ''run''" and start = 1])
      (simp_all add: ex_outer_def new_diagnostics_def Let_def)
  have b: "traced_reach (snd ex_inner) ([fst ex_outer] @ [fst ex_inner]) ([fst ex_outer] @ [fst ex_inner])"
    by (rule started [OF a [simplified], where cx = "Some (s_context (fst ex_outer))" and name = "js ''query''" and start = 2])
      (simp_all add: ex_inner_def ex_outer_def spanStarted_def new_diagnostics_def Let_def)
  have "fst ex_outer \<noteq> fst ex_inner"
    by (simp add: ex_inner_def ex_outer_def spanStarted_def Let_def)
  then show ?thesis using settled [OF b, of "fst ex_inner" True 3] by simp
qed


end
