(* ===== verification/Transactions.thy ===== *)
theory Transactions
  imports JsValue
begin

text \<open>
  The commands of one application transaction on a client:
  \<^verbatim>\<open>packages/frontend/client-js/api/command-accounting.mts\<close>, \<open>transaction.mts\<close> and \<open>local.mts\<close>,
  and \<^verbatim>\<open>packages/frontend/client-react-native/api/transaction.mts\<close>.

  A command is started when it is sent and settled when its promise settles, in two
  operations, so commands may overlap. An asynchronous function is cut at its \<open>await\<close>s:
  one operation per stretch of code between them. The async context a call is made in is
  an argument. Errors are objects; \<open>Runtime e\<close> is one the runtime or the application threw.
\<close>

section \<open>Command accounting\<close>

datatype 'e terr =
    Foreign | TransactionClosed | Capability | OverlappingWork | OverlappingSavepoints | UnawaitedNested
  | UnawaitedOperation | CannotSubmit | ActionInvalid | ThrownUndefined | Runtime 'e

record 'x accounting =
  a_pending :: nat
  a_failure :: "'x option"

definition new_accounting :: "'x accounting" where
  "new_accounting = \<lparr>a_pending = 0, a_failure = None\<rparr>"

text \<open>\<open>track\<close> at the call, and when its work settles; the first failure is kept.\<close>

definition trackStart :: "'x accounting \<Rightarrow> 'x accounting" where
  "trackStart a = a\<lparr>a_pending := Suc (a_pending a)\<rparr>"

definition trackSettle :: "'x option \<Rightarrow> 'x accounting \<Rightarrow> 'x accounting" where
  "trackSettle r a =
     a\<lparr>a_pending := a_pending a - 1, a_failure := (case a_failure a of Some e \<Rightarrow> Some e | None \<Rightarrow> r)\<rparr>"

definition restoreFailure :: "'x option \<Rightarrow> 'x accounting \<Rightarrow> 'x accounting" where
  "restoreFailure f a = a\<lparr>a_failure := f\<rparr>"

section \<open>Commands\<close>

definition recordKey :: "jsstr \<Rightarrow> jsv \<Rightarrow> jsv" where
  "recordKey model identity = Obj [(js ''model'', Str model), (js ''identity'', identity)]"

definition readCommand :: "jsstr \<Rightarrow> jsv \<Rightarrow> jsv" where
  "readCommand model identity = Obj [(js ''kind'', Str (js ''read'')), (js ''key'', recordKey model identity)]"

definition queryCommand :: "jsstr \<Rightarrow> jsv \<Rightarrow> jsv" where
  "queryCommand model where' = Obj [(js ''kind'', Str (js ''query'')), (js ''model'', Str model), (js ''filter'', where')]"

definition sqlCommand :: "jsstr \<Rightarrow> jsv list \<Rightarrow> jsv" where
  "sqlCommand sql parameters = Obj [(js ''kind'', Str (js ''sql'')), (js ''sql'', Str sql), (js ''parameters'', Arr parameters)]"

definition querySpecCommand :: "jsstr \<Rightarrow> jsv \<Rightarrow> jsv" where
  "querySpecCommand model query = Obj [(js ''kind'', Str (js ''querySpec'')), (js ''model'', Str model), (js ''query'', query)]"

definition relatedCommand :: "jsstr \<Rightarrow> jsv \<Rightarrow> jsstr \<Rightarrow> jsv" where
  "relatedCommand model identity relation =
     Obj [(js ''kind'', Str (js ''related'')), (js ''key'', recordKey model identity), (js ''relation'', Str relation)]"

definition referencingCommand :: "jsstr \<Rightarrow> jsv \<Rightarrow> jsstr \<Rightarrow> jsstr \<Rightarrow> jsv" where
  "referencingCommand model identity source relation =
     Obj [(js ''kind'', Str (js ''referencing'')), (js ''key'', recordKey model identity),
          (js ''source'', Str source), (js ''relation'', Str relation)]"

definition directCommand :: "jsv \<Rightarrow> jsv" where
  "directCommand operation = Obj [(js ''kind'', Str (js ''direct'')), (js ''operation'', operation)]"

text \<open>The scope field of a savepoint's own commands.\<close>

definition scopeOf :: "jsstr option \<Rightarrow> (jsstr \<times> jsv) list" where
  "scopeOf scope = (case scope of None \<Rightarrow> [] | Some s \<Rightarrow> [(js ''scope'', Str s)])"

definition savepointCommand :: jsv where
  "savepointCommand = Obj [(js ''kind'', Str (js ''savepoint''))]"

definition releaseCommand :: "jsstr option \<Rightarrow> jsv" where
  "releaseCommand scope = Obj ((js ''kind'', Str (js ''release'')) # scopeOf scope)"

definition rollbackCommand :: "jsstr option \<Rightarrow> jsv" where
  "rollbackCommand scope = Obj ((js ''kind'', Str (js ''rollbackSavepoint'')) # scopeOf scope)"

text \<open>\<open>mutationCommand\<close>: the command and whether it runs a local callback.\<close>

definition mutationCommand :: "jsstr \<Rightarrow> nat \<Rightarrow> jsv \<Rightarrow> ('e terr, jsv \<times> bool) res" where
  "mutationCommand name version input =
     (let fields = [(js ''kind'', Str (js ''submitMutation'')), (js ''name'', Str name), (js ''version'', Num (JsInt (int version)))] in
      case input of
        Fun _ \<Rightarrow> Inr (Obj (fields @ [(js ''local'', Bool True)]), True)
      | Obj _ \<Rightarrow> Inr (Obj (fields @ [(js ''args'', input)]), False)
      | Arr _ \<Rightarrow> Inr (Obj (fields @ [(js ''args'', input)]), False)
      | Date _ \<Rightarrow> Inr (Obj (fields @ [(js ''args'', input)]), False)
      | _ \<Rightarrow> Inl ActionInvalid)"

section \<open>The Node transaction\<close>

datatype owner = NoOwner | This | Other

text \<open>The async context of a call: the transaction whose callback it runs in, and the savepoint.\<close>

record cxt =
  cx_owner :: owner
  cx_frame :: "nat option"

record 'e frame =
  f_parent :: "nat option"
  f_scope :: "jsstr option"
  f_failure :: "'e terr option"

text \<open>\<open>t_sent\<close> lists what was sent and in which scope; \<open>t_scopes\<close> the savepoints that have not settled.\<close>

record 'e tx =
  t_open :: bool
  t_locals :: nat
  t_commands :: "'e terr accounting"
  t_structural :: "'e terr option"
  t_active :: "nat option"
  t_frames :: "'e frame list"
  t_scopes :: "nat list"
  t_sent :: "(jsv \<times> jsstr option) list"

definition new_tx :: "'e tx" where
  "new_tx = \<lparr>t_open = True, t_locals = 0, t_commands = new_accounting, t_structural = None, t_active = None,
     t_frames = [], t_scopes = [], t_sent = []\<rparr>"

definition poison :: "'e terr \<Rightarrow> 'e tx \<Rightarrow> 'e tx" where
  "poison e t = t\<lparr>t_structural := (case t_structural t of None \<Rightarrow> Some e | Some s \<Rightarrow> Some s)\<rparr>"

definition cancel :: "'e tx \<Rightarrow> 'e tx" where
  "cancel t = t\<lparr>t_open := False\<rparr>"

definition activeScope :: "'e tx \<Rightarrow> jsstr option" where
  "activeScope t = (case t_active t of None \<Rightarrow> None | Some k \<Rightarrow> f_scope (t_frames t ! k))"

definition queue :: "jsv \<Rightarrow> 'e tx \<Rightarrow> 'e tx" where
  "queue command t = t\<lparr>t_commands := trackStart (t_commands t), t_sent := t_sent t @ [(command, activeScope t)]\<rparr>"

definition settleCommand :: "'e terr option \<Rightarrow> 'e tx \<Rightarrow> 'e tx" where
  "settleCommand r t = t\<lparr>t_commands := trackSettle r (t_commands t)\<rparr>"

text \<open>A refusal, if any, and the transaction after the check.\<close>

definition foreign :: "cxt \<Rightarrow> 'e tx \<Rightarrow> 'e terr option \<times> 'e tx" where
  "foreign cx t = (if cx_owner cx = Other then (Some Foreign, poison Foreign t) else (None, t))"

definition callbackRefusal :: "nat \<Rightarrow> 'e tx \<Rightarrow> 'e terr option \<times> 'e tx" where
  "callbackRefusal running t = (if running = 0 then (None, t) else (Some Capability, poison Capability t))"

definition expiredRefusal :: "'e tx \<Rightarrow> 'e terr \<times> 'e tx" where
  "expiredRefusal t = (if \<not> t_open t then (TransactionClosed, t) else (Capability, poison Capability t))"

text \<open>The checks \<open>#admit\<close> and \<open>savepoint\<close> share; \<open>overlap\<close> is the error of the last one.\<close>

definition admitWith :: "'e terr \<Rightarrow> cxt \<Rightarrow> 'e tx \<Rightarrow> 'e terr option \<times> 'e tx" where
  "admitWith overlap cx t =
     (case foreign cx t of
        (Some e, t') \<Rightarrow> (Some e, t')
      | (None, t') \<Rightarrow>
          if \<not> t_open t' then (Some TransactionClosed, t')
          else (case callbackRefusal (t_locals t') t' of
                  (Some e, t'') \<Rightarrow> (Some e, t'')
                | (None, t'') \<Rightarrow>
                    if t_active t'' \<noteq> None \<and> cx_frame cx \<noteq> t_active t''
                    then (Some overlap, t''\<lparr>t_structural := Some overlap\<rparr>)
                    else (None, t'')))"

definition admit :: "cxt \<Rightarrow> 'e tx \<Rightarrow> 'e terr option \<times> 'e tx" where
  "admit = admitWith OverlappingWork"

definition callCommand :: "cxt \<Rightarrow> jsv \<Rightarrow> 'e tx \<Rightarrow> 'e terr option \<times> 'e tx" where
  "callCommand cx command t =
     (case admit cx t of (Some e, t') \<Rightarrow> (Some e, t') | (None, t') \<Rightarrow> (None, queue command t'))"

text \<open>\<open>submitMutation\<close>: the answer says whether it runs a local callback; \<open>submitSettled\<close> is its end.\<close>

definition submitMutation :: "cxt \<Rightarrow> jsstr \<Rightarrow> nat \<Rightarrow> jsv \<Rightarrow> 'e tx \<Rightarrow> ('e terr, bool) res \<times> 'e tx" where
  "submitMutation cx name version input t =
     (case mutationCommand name version input of
        Inl e \<Rightarrow> (Inl e, t)
      | Inr (command, local) \<Rightarrow>
          (case admit cx t of
             (Some e, t') \<Rightarrow> (Inl e, t')
           | (None, t') \<Rightarrow>
               (Inr local, queue command (if local then t'\<lparr>t_locals := Suc (t_locals t')\<rparr> else t'))))"

definition submitSettled :: "bool \<Rightarrow> 'e terr option \<Rightarrow> 'e tx \<Rightarrow> 'e tx" where
  "submitSettled local r t =
     (let t' = settleCommand r t in if local then t'\<lparr>t_locals := t_locals t' - 1\<rparr> else t')"

text \<open>
  \<open>finish\<close>: \<open>late\<close> are the outcomes of the commands its \<open>drain\<close> waits for.
\<close>

definition finish :: "'e terr option list \<Rightarrow> 'e tx \<Rightarrow> ('e terr, unit) res \<times> 'e tx" where
  "finish late t =
     (let outstanding = (0 < a_pending (t_commands t) \<or> t_scopes t \<noteq> []);
          t' = fold settleCommand late (t\<lparr>t_open := False\<rparr>) in
      (case t_structural t' of
         Some e \<Rightarrow> Inl e
       | None \<Rightarrow>
           if outstanding then Inl UnawaitedOperation
           else (case a_failure (t_commands t') of Some e \<Rightarrow> Inl e | None \<Rightarrow> Inr ()), t'))"

section \<open>Savepoints\<close>

text \<open>Up to the first \<open>await\<close>: the refusal, or the new savepoint.\<close>

definition savepointStart :: "cxt \<Rightarrow> 'e tx \<Rightarrow> ('e terr, nat) res \<times> 'e tx" where
  "savepointStart cx t =
     (case admitWith OverlappingSavepoints cx t of
        (Some e, t') \<Rightarrow> (Inl e, t')
      | (None, t') \<Rightarrow>
          (let k = length (t_frames t'); q = queue savepointCommand t' in
           (Inr k,
            q\<lparr>t_frames := t_frames q @ [\<lparr>f_parent = t_active t', f_scope = None, f_failure = a_failure (t_commands q)\<rparr>],
              t_active := Some k, t_scopes := t_scopes q @ [k]\<rparr>)))"

text \<open>\<open>opened\<close> resolved with a scope token, or rejected, which leaves the function at once.\<close>

definition savepointOpened :: "nat \<Rightarrow> jsstr option \<Rightarrow> 'e tx \<Rightarrow> 'e terr option \<times> 'e tx" where
  "savepointOpened k scope t =
     (let t' = settleCommand None t;
          t'' = (case scope of None \<Rightarrow> t' | Some s \<Rightarrow> t'\<lparr>t_frames := (t_frames t')[k := (t_frames t' ! k)\<lparr>f_scope := Some s\<rparr>]\<rparr>) in
      (if t_open t'' then None else Some TransactionClosed, t''))"

definition savepointOpenFailed :: "nat \<Rightarrow> 'e terr \<Rightarrow> 'e tx \<Rightarrow> 'e tx" where
  "savepointOpenFailed k e t = (settleCommand (Some e) t)\<lparr>t_scopes := filter ((\<noteq>) k) (t_scopes t)\<rparr>"

text \<open>The body returned and the commands drained: the error that enters the \<open>catch\<close>, or the release is sent.\<close>

definition savepointBodyDone :: "nat \<Rightarrow> 'e tx \<Rightarrow> 'e terr option \<times> 'e tx" where
  "savepointBodyDone k t =
     (if \<not> t_open t then (Some TransactionClosed, t)
      else if t_active t \<noteq> Some k then (Some UnawaitedNested, t\<lparr>t_structural := Some UnawaitedNested\<rparr>)
      else if a_failure (t_commands t) \<noteq> f_failure (t_frames t ! k)
      then (Some (case a_failure (t_commands t) of Some e \<Rightarrow> e | None \<Rightarrow> ThrownUndefined), t)
      else case t_structural t of
             Some e \<Rightarrow> (Some e, t)
           | None \<Rightarrow> (None, queue (releaseCommand (f_scope (t_frames t ! k))) t))"

text \<open>The \<open>finally\<close>, and the savepoint's promise settles.\<close>

definition savepointEnd :: "nat \<Rightarrow> 'e tx \<Rightarrow> 'e tx" where
  "savepointEnd k t =
     t\<lparr>t_active := (if t_active t = Some k then f_parent (t_frames t ! k) else t_active t),
       t_scopes := filter ((\<noteq>) k) (t_scopes t)\<rparr>"

text \<open>The \<open>catch\<close> after its drain: whether a rollback is sent, and otherwise the error thrown.\<close>

definition savepointCatch :: "nat \<Rightarrow> 'e terr \<Rightarrow> 'e tx \<Rightarrow> 'e terr option \<times> 'e tx" where
  "savepointCatch k e t =
     (if t_open t \<and> t_structural t = None then
        if t_active t \<noteq> Some k
        then (Some UnawaitedNested, savepointEnd k (t\<lparr>t_structural := Some UnawaitedNested\<rparr>))
        else (None, queue (rollbackCommand (f_scope (t_frames t ! k))) t)
      else (Some e, savepointEnd k t))"

text \<open>The rollback settled: the error the savepoint rejects with.\<close>

definition savepointRolledBack :: "nat \<Rightarrow> 'e terr \<Rightarrow> 'e terr option \<Rightarrow> 'e tx \<Rightarrow> 'e terr \<times> 'e tx" where
  "savepointRolledBack k e r t =
     (let t' = settleCommand r t in
      case r of
        None \<Rightarrow> (e, savepointEnd k (t'\<lparr>t_commands := restoreFailure (f_failure (t_frames t' ! k)) (t_commands t')\<rparr>))
      | Some e' \<Rightarrow> (e', savepointEnd k t'))"

section \<open>Local callbacks and the React Native transaction\<close>

record 'e local_tx =
  l_open :: bool
  l_commands :: "'e terr accounting"

definition new_local :: "'e local_tx" where
  "new_local = \<lparr>l_open = True, l_commands = new_accounting\<rparr>"

text \<open>A command through the handle of a local callback, over the transaction it belongs to.\<close>

definition localCall :: "cxt \<Rightarrow> 'e tx \<times> 'e local_tx \<Rightarrow> 'e terr option \<times> 'e tx \<times> 'e local_tx" where
  "localCall cx = (\<lambda>(t, l).
     if \<not> l_open l then (case expiredRefusal t of (e, t') \<Rightarrow> (Some e, t', l))
     else (case foreign cx t of
             (Some e, t') \<Rightarrow> (Some e, t', l)
           | (None, t') \<Rightarrow> (None, t', l\<lparr>l_commands := trackStart (l_commands l)\<rparr>)))"

definition localSettle :: "'e terr option \<Rightarrow> 'e local_tx \<Rightarrow> 'e local_tx" where
  "localSettle r l = l\<lparr>l_commands := trackSettle r (l_commands l)\<rparr>"

definition localFinish :: "'e terr option list \<Rightarrow> 'e local_tx \<Rightarrow> ('e terr, unit) res \<times> 'e local_tx" where
  "localFinish late l =
     (let outstanding = (0 < a_pending (l_commands l)); l' = fold localSettle late (l\<lparr>l_open := False\<rparr>) in
      (if outstanding then Inl UnawaitedOperation
       else (case a_failure (l_commands l') of Some e \<Rightarrow> Inl e | None \<Rightarrow> Inr ()), l'))"

text \<open>\<open>runLocal\<close>: how the callback settled, then the checks; its own error wins.\<close>

definition runLocal :: "('e terr, jsv) res \<Rightarrow> 'e terr option list \<Rightarrow> 'e local_tx \<Rightarrow> ('e terr, jsv) res \<times> 'e local_tx" where
  "runLocal callback late l =
     (case localFinish late l of
        (v, l') \<Rightarrow> (bind_res callback (\<lambda>input. bind_res v (\<lambda>_. Inr input)), l'))"

record 'e rn_tx =
  n_open :: bool
  n_locals :: nat
  n_structural :: "'e terr option"
  n_commands :: "'e terr accounting"
  n_callback :: bool

definition new_rn :: "'e rn_tx" where
  "new_rn = \<lparr>n_open = True, n_locals = 0, n_structural = None, n_commands = new_accounting, n_callback = False\<rparr>"

definition rnAdmit :: "'e rn_tx \<Rightarrow> 'e terr option \<times> 'e rn_tx" where
  "rnAdmit t =
     (if \<not> n_open t then (Some TransactionClosed, t)
      else if n_locals t = 0 then (None, t)
      else (Some Capability, t\<lparr>n_structural := (case n_structural t of None \<Rightarrow> Some Capability | Some s \<Rightarrow> Some s)\<rparr>))"

definition rnCall :: "'e rn_tx \<Rightarrow> 'e terr option \<times> 'e rn_tx" where
  "rnCall t = (case rnAdmit t of (Some e, t') \<Rightarrow> (Some e, t') | (None, t') \<Rightarrow> (None, t'\<lparr>n_commands := trackStart (n_commands t')\<rparr>))"

definition rnSettle :: "'e terr option \<Rightarrow> 'e rn_tx \<Rightarrow> 'e rn_tx" where
  "rnSettle r t = t\<lparr>n_commands := trackSettle r (n_commands t)\<rparr>"

definition rnFinish :: "'e terr option list \<Rightarrow> 'e rn_tx \<Rightarrow> ('e terr, unit) res \<times> 'e rn_tx" where
  "rnFinish late t =
     (let outstanding = (0 < a_pending (n_commands t)); t' = fold rnSettle late (t\<lparr>n_open := False\<rparr>) in
      (case n_structural t' of
         Some e \<Rightarrow> Inl e
       | None \<Rightarrow>
           if outstanding then Inl UnawaitedOperation
           else (case a_failure (n_commands t') of Some e \<Rightarrow> Inl e | None \<Rightarrow> Inr ()), t'))"

text \<open>
  \<open>runCallback\<close> on React Native: \<open>running\<close> is the set of transactions whose callback runs;
  a second one is refused.
\<close>

definition rnRunCallback :: "nat list \<Rightarrow> nat \<Rightarrow> 'e rn_tx \<Rightarrow> (nat list \<times> 'e rn_tx) option" where
  "rnRunCallback running self t = (if running = [] then Some ([self], t\<lparr>n_callback := True\<rparr>) else None)"

definition rnCallbackDone :: "nat list \<Rightarrow> nat \<Rightarrow> 'e rn_tx \<Rightarrow> nat list \<times> 'e rn_tx" where
  "rnCallbackDone running self t = (filter ((\<noteq>) self) running, t\<lparr>n_callback := False\<rparr>)"

end
