(* ===== verification/TransactionsSpec.thy ===== *)
theory TransactionsSpec
  imports Transactions
begin

text \<open>
  What a client transaction promises before it lets the runtime commit. The contract of
  the three command scopes (Node, React Native, local callback) is the locale
  \<open>command_scope\<close>: over it, a scope that finishes cleanly had every started command settle
  without an error. Savepoints are covered by a big-step reading of a callback,
  \<open>exec\<close>: what survives its rollbacks succeeded whenever \<open>finish\<close> lets the commit pass.
\<close>

section \<open>Command scopes\<close>

datatype 'x scope_event = Started | Settled "'x option"

text \<open>A refused start is not submitted, so it does not settle; the count says how many were.\<close>

fun runScope ::
  "('s \<Rightarrow> 'x option \<times> 's) \<Rightarrow> ('x option \<Rightarrow> 's \<Rightarrow> 's) \<Rightarrow> 'x scope_event list \<Rightarrow> 's \<Rightarrow> nat \<times> 's" where
  "runScope start settled [] s = (0, s)"
| "runScope start settled (Started # es) s =
     (case start s of (r, s') \<Rightarrow> (case runScope start settled es s' of (n, t) \<Rightarrow> (if r = None then Suc n else n, t)))"
| "runScope start settled (Settled r # es) s = runScope start settled es (settled r s)"

locale command_scope =
  fixes start :: "'s \<Rightarrow> 'x option \<times> 's" and settled :: "'x option \<Rightarrow> 's \<Rightarrow> 's"
    and verdict :: "'s \<Rightarrow> ('x, unit) res" and account :: "'s \<Rightarrow> 'x accounting"
  assumes start_refused: "fst (start s) = Some e \<Longrightarrow> account (snd (start s)) = account s"
    and start_admitted: "fst (start s) = None \<Longrightarrow> account (snd (start s)) = trackStart (account s)"
    and settled_account: "account (settled r s) = trackSettle r (account s)"
    and verdict_clean: "verdict s = Inr () \<Longrightarrow> a_pending (account s) = 0 \<and> a_failure (account s) = None"
begin

lemma start_account:
  "start s = (r, s') \<Longrightarrow> account s' = (if r = None then trackStart (account s) else account s)"
  using start_refused [of s] start_admitted [of s] by (cases r) auto

lemma failure_stays: "a_failure (account s) = Some e \<Longrightarrow> a_failure (account (snd (runScope start settled es s))) = Some e"
proof (induction es arbitrary: s)
  case (Cons ev es)
  show ?case
  proof (cases ev)
    case Started
    obtain r s' where s': "start s = (r, s')" by fastforce
    have "a_failure (account s') = Some e" using Cons.prems start_account [OF s'] by (simp add: trackStart_def)
    then show ?thesis using Cons.IH [of s'] Started s' by (simp add: case_prod_beta)
  next
    case (Settled r)
    then show ?thesis using Cons by (simp add: settled_account trackSettle_def)
  qed
qed simp

lemma clean_run:
  assumes "verdict (snd (runScope start settled es s)) = Inr ()"
  shows "\<forall>r. Settled r \<in> set es \<longrightarrow> r = None"
proof -
  have "a_failure (account (snd (runScope start settled es s))) = None" using verdict_clean [OF assms] by blast
  then show ?thesis
  proof (induction es arbitrary: s)
    case (Cons ev es)
    show ?case
    proof (cases ev)
      case Started
      then show ?thesis using Cons by (cases "start s") (auto simp: case_prod_beta)
    next
      case (Settled r)
      have "r = None"
      proof (cases r)
        case (Some e)
        then have "a_failure (account (settled r s)) \<noteq> None" by (simp add: settled_account trackSettle_def split: option.splits)
        then show ?thesis using Cons.prems failure_stays [of "settled r s" _ es] Settled by fastforce
      qed simp
      with Cons Settled show ?thesis by auto
    qed
  qed simp
qed

lemma balanced_run:
  assumes "verdict (snd (runScope start settled es s)) = Inr ()"
  shows "a_pending (account s) + fst (runScope start settled es s) \<le> length (filter (\<lambda>e. e \<noteq> Started) es)"
proof -
  have "a_pending (account s) + fst (runScope start settled es s)
    \<le> a_pending (account (snd (runScope start settled es s))) + length (filter (\<lambda>e. e \<noteq> Started) es)"
  proof (induction es arbitrary: s)
    case (Cons ev es)
    show ?case
    proof (cases ev)
      case Started
      obtain r s' where s': "start s = (r, s')" by fastforce
      show ?thesis using Cons.IH [of s'] start_account [OF s'] Started s' by (auto simp: case_prod_beta trackStart_def)
    next
      case (Settled r)
      then show ?thesis using Cons.IH [of "settled r s"] by (auto simp: settled_account trackSettle_def)
    qed
  qed simp
  then show ?thesis using verdict_clean [OF assms] by simp
qed

end

lemma settle_stays: "a_failure a = Some e \<Longrightarrow> a_failure (fold trackSettle late a) = Some e"
  by (induction late arbitrary: a) (auto simp: trackSettle_def)

lemma fold_failure_None: "a_failure (fold trackSettle late a) = None \<Longrightarrow> a_failure a = None"
  using settle_stays [of a] by (cases "a_failure a") auto

lemma fold_settleCommand:
  "t_commands (fold settleCommand late t) = fold trackSettle late (t_commands t)"
  "t_structural (fold settleCommand late t) = t_structural t"
  by (induction late arbitrary: t) (simp_all add: settleCommand_def)

lemma fold_rnSettle:
  "n_commands (fold rnSettle late t) = fold trackSettle late (n_commands t)" "n_structural (fold rnSettle late t) = n_structural t"
  by (induction late arbitrary: t) (simp_all add: rnSettle_def)

lemma fold_localSettle: "l_commands (fold localSettle late l) = fold trackSettle late (l_commands l)"
  by (induction late arbitrary: l) (simp_all add: localSettle_def)

lemma finish_Inr_iff:
  "fst (finish late t) = Inr () \<longleftrightarrow>
     t_structural t = None \<and> a_pending (t_commands t) = 0 \<and> t_scopes t = [] \<and> a_failure (fold trackSettle late (t_commands t)) = None"
  by (auto simp: finish_def Let_def fold_settleCommand split: option.splits)

lemma poison_simps [simp]: "t_commands (poison e t) = t_commands t" "t_structural (poison e t) \<noteq> None"
  "t_open (poison e t) = t_open t" "t_active (poison e t) = t_active t" "t_scopes (poison e t) = t_scopes t" "t_frames (poison e t) = t_frames t"
  by (simp_all add: poison_def split: option.splits)

lemma admitWith_cases:
  "admitWith overlap cx t = (r, t') \<Longrightarrow> r = None \<and> t' = t \<or> r \<noteq> None \<and> t_commands t' = t_commands t \<and> t_frames t' = t_frames t \<and> (t' = t \<or> t_structural t' \<noteq> None)"
  by (auto simp: admitWith_def foreign_def callbackRefusal_def split: if_splits option.splits prod.splits)

interpretation node: command_scope "callCommand cx command" settleCommand "\<lambda>t. fst (finish late t)" t_commands for cx command late
proof unfold_locales
  fix s :: "'a tx" and e
  show "t_commands (snd (callCommand cx command s)) = t_commands s" if "fst (callCommand cx command s) = Some e"
    using that admitWith_cases [of OverlappingWork cx s] by (auto simp: callCommand_def admit_def split: prod.splits option.splits)
  show "t_commands (snd (callCommand cx command s)) = trackStart (t_commands s)" if "fst (callCommand cx command s) = None"
    using that admitWith_cases [of OverlappingWork cx s]
    by (fastforce simp: callCommand_def admit_def queue_def split: prod.splits option.splits)
qed (auto simp: settleCommand_def finish_Inr_iff dest: fold_failure_None)

interpretation rn: command_scope rnCall rnSettle "\<lambda>t. fst (rnFinish late t)" n_commands for late
proof unfold_locales
  fix s :: "'a rn_tx"
  show "a_pending (n_commands s) = 0 \<and> a_failure (n_commands s) = None" if "fst (rnFinish late s) = Inr ()"
    using that by (auto simp: rnFinish_def Let_def fold_rnSettle split: option.splits if_splits dest: fold_failure_None)
qed (auto simp: rnCall_def rnAdmit_def rnSettle_def split: prod.splits option.splits if_splits)

interpretation loc: command_scope "localCall cx" "\<lambda>r (t, l). (t, localSettle r l)" "\<lambda>(t, l). fst (localFinish late l)" "\<lambda>(t, l). l_commands l"
  for cx late
proof unfold_locales
  fix s :: "'a tx \<times> 'a local_tx"
  show "a_pending ((\<lambda>(t, l). l_commands l) s) = 0 \<and> a_failure ((\<lambda>(t, l). l_commands l) s) = None"
    if "(\<lambda>(t, l). fst (localFinish late l)) s = Inr ()"
    using that by (auto simp: localFinish_def Let_def fold_localSettle split: option.splits if_splits prod.splits dest: fold_failure_None)
qed (auto simp: localCall_def localSettle_def split: prod.splits option.splits if_splits)

section \<open>Savepoints\<close>

text \<open>
  What a callback that awaits its work does: a command and how it settles, or a savepoint
  with how its opn, its body, its release and its rollback settle. \<open>True\<close> means the
  callback catches the error of that act and goes on.
\<close>

datatype 'e act =
    Run "'e terr option" bool
  | Save "'e terr option" "jsstr option" "'e act list" "'e terr option" "'e terr option" "'e terr option" bool

fun caught :: "'e act \<Rightarrow> bool" where
  "caught (Run r c) = c"
| "caught (Save opn scope body thrown rel rb c) = c"

definition inFrame :: "nat option \<Rightarrow> cxt" where
  "inFrame f = \<lparr>cx_owner = This, cx_frame = f\<rparr>"

text \<open>The end of a savepoint whose body (or release) failed; \<open>kept\<close> are the outcomes inside it.\<close>

definition failSave ::
  "nat \<Rightarrow> 'e terr \<Rightarrow> 'e terr option \<Rightarrow> bool list \<Rightarrow> 'e tx \<Rightarrow> 'e terr option \<times> bool list \<times> 'e tx" where
  "failSave k e rb kept t =
     (case savepointCatch k e t of
        (Some e', t') \<Rightarrow> (Some e', kept, t')
      | (None, t') \<Rightarrow>
          (case savepointRolledBack k e rb t' of
             (e', t'') \<Rightarrow> (Some e', if rb = None then [] else kept @ [False], t'')))"

text \<open>The error of an act, which of the commands not rolled back succeeded, and the transaction after it.\<close>

fun exec :: "nat option \<Rightarrow> 'e act \<Rightarrow> 'e tx \<Rightarrow> 'e terr option \<times> bool list \<times> 'e tx"
and execAll :: "nat option \<Rightarrow> 'e act list \<Rightarrow> 'e tx \<Rightarrow> 'e terr option \<times> bool list \<times> 'e tx" where
  "exec f (Run r c) t =
     (case callCommand (inFrame f) (sqlCommand [] []) t of
        (Some e, t') \<Rightarrow> (Some e, [], t')
      | (None, t') \<Rightarrow> (r, [r = None], settleCommand r t'))"
| "exec f (Save opn scope body thrown rel rb c) t =
     (case savepointStart (inFrame f) t of
        (Inl e, t') \<Rightarrow> (Some e, [], t')
      | (Inr k, t') \<Rightarrow>
          (case opn of
             Some e \<Rightarrow> (Some e, [False], savepointOpenFailed k e t')
           | None \<Rightarrow>
               (case savepointOpened k scope t' of
                  (Some e, t'') \<Rightarrow> failSave k e rb [] t''
                | (None, t'') \<Rightarrow>
                    (case execAll (Some k) body t'' of
                       (err, kept, t3) \<Rightarrow>
                         (case (case err of Some e \<Rightarrow> Some e | None \<Rightarrow> thrown) of
                            Some e \<Rightarrow> failSave k e rb kept t3
                          | None \<Rightarrow>
                              (case savepointBodyDone k t3 of
                                 (Some e, t4) \<Rightarrow> failSave k e rb kept t4
                               | (None, t4) \<Rightarrow>
                                   (case rel of
                                      None \<Rightarrow> (None, kept, savepointEnd k (settleCommand None t4))
                                    | Some e \<Rightarrow> failSave k e rb kept (settleCommand (Some e) t4))))))))"
| "execAll f [] t = (None, [], t)"
| "execAll f (a # as) t =
     (case exec f a t of
        (e, kept, t') \<Rightarrow>
          if e \<noteq> None \<and> \<not> caught a then (e, kept, t')
          else (case execAll f as t' of (e', kept', t'') \<Rightarrow> (e', kept @ kept', t'')))"

definition clean :: "'e tx \<Rightarrow> bool" where
  "clean t = (t_structural t = None \<and> a_failure (t_commands t) = None)"

text \<open>Later work keeps the frames and the failure each captured; an open transaction stays open.\<close>

definition keeps :: "'e tx \<Rightarrow> 'e tx \<Rightarrow> bool" where
  "keeps t t' = (t_open t' = t_open t \<and> length (t_frames t) \<le> length (t_frames t')
     \<and> (\<forall>j < length (t_frames t). f_failure (t_frames t' ! j) = f_failure (t_frames t ! j)))"

lemma keeps_refl [simp]: "keeps t t"
  by (simp add: keeps_def)

lemma scope_keeps_trans: "keeps a b \<Longrightarrow> keeps b c \<Longrightarrow> keeps a c"
  by (auto simp: keeps_def)

lemma keeps_ops [simp]:
  "keeps t (queue c t') = keeps t t'" "keeps t (settleCommand r t') = keeps t t'" "keeps t (savepointEnd k t') = keeps t t'"
  "keeps t (t'\<lparr>t_structural := x\<rparr>) = keeps t t'" "keeps t (t'\<lparr>t_commands := y\<rparr>) = keeps t t'" "keeps t (poison e t') = keeps t t'"
  "keeps t (savepointOpenFailed k e t') = keeps t t'"
  by (simp_all add: keeps_def queue_def settleCommand_def savepointEnd_def poison_def savepointOpenFailed_def)

lemma state_ops [simp]:
  "t_structural (queue c t) = t_structural t" "t_structural (settleCommand r t) = t_structural t" "t_structural (savepointEnd k t) = t_structural t"
  "a_failure (t_commands (queue c t)) = a_failure (t_commands t)" "t_commands (savepointEnd k t) = t_commands t"
  "t_frames (queue c t) = t_frames t" "t_frames (settleCommand r t) = t_frames t" "t_frames (savepointEnd k t) = t_frames t"
  "t_open (queue c t) = t_open t" "t_open (settleCommand r t) = t_open t" "t_active (queue c t) = t_active t" "t_active (settleCommand r t) = t_active t"
  "a_failure (t_commands (settleCommand r t)) = (case a_failure (t_commands t) of None \<Rightarrow> r | Some e \<Rightarrow> Some e)"
  by (simp_all add: queue_def settleCommand_def savepointEnd_def trackStart_def trackSettle_def split: option.splits)

lemma openFailed_ops [simp]:
  "t_structural (savepointOpenFailed k e t) = t_structural t" "a_failure (t_commands (savepointOpenFailed k e t)) \<noteq> None"
  by (simp_all add: savepointOpenFailed_def settleCommand_def trackSettle_def split: option.splits)

lemma admitWith_keeps: "admitWith overlap cx t = (r, t') \<Longrightarrow> keeps t t' \<and> (clean t' \<longrightarrow> t' = t)"
  using admitWith_cases [of overlap cx t r t']
  by (auto simp: admitWith_def foreign_def callbackRefusal_def clean_def split: if_splits option.splits prod.splits)

lemma failSave_sound:
  assumes "failSave k e rb kept t = (e', kept', t')" "t_open t"
  shows "keeps t t' \<and> (t_structural t' = None \<longrightarrow> t_structural t = None) \<and> (clean t' \<longrightarrow> kept' = [] \<and> t_structural t = None \<and> f_failure (t_frames t ! k) = None)"
  using assms
  by (auto simp: failSave_def savepointCatch_def savepointRolledBack_def clean_def restoreFailure_def Let_def
           split: if_splits option.splits prod.splits)

lemma opened_keeps:
  assumes "savepointOpened k scope t = (r, t')"
  shows "keeps t t'" "t_commands t' = trackSettle None (t_commands t)" "t_structural t' = t_structural t" "t_open t \<Longrightarrow> r = None"
    "k < length (t_frames t) \<Longrightarrow> f_failure (t_frames t' ! k) = f_failure (t_frames t ! k)" "length (t_frames t') = length (t_frames t)"
  using assms by (cases "k < length (t_frames t)";
    auto simp: savepointOpened_def Let_def keeps_def settleCommand_def nth_list_update split: option.splits if_splits)+

lemma bodyDone_sound:
  assumes "savepointBodyDone k t = (r, t')" "t_open t"
  shows "keeps t t' \<and> t_commands t' = (if r = None then trackStart (t_commands t) else t_commands t)
    \<and> (r = None \<longrightarrow> a_failure (t_commands t) = f_failure (t_frames t ! k)) \<and> (t_structural t' = None \<longrightarrow> t_structural t = None)
    \<and> t_frames t' = t_frames t"
  using assms by (auto simp: savepointBodyDone_def split: if_splits option.splits, metis, simp add: queue_def)

lemma start_sound:
  assumes "savepointStart cx t = (r, t')"
  shows "keeps t t'" and "r = Inl e \<Longrightarrow> clean t' \<Longrightarrow> t' = t"
    and "r = Inr k \<Longrightarrow> k = length (t_frames t) \<and> length (t_frames t') = Suc k \<and> f_failure (t_frames t' ! k) = a_failure (t_commands t)
      \<and> t_commands t' = trackStart (t_commands t) \<and> t_structural t' = t_structural t"
    and "t_structural t' = None \<Longrightarrow> t_structural t = None"
proof -
  obtain ra ta where a: "admitWith OverlappingSavepoints cx t = (ra, ta)" by fastforce
  have k: "keeps t ta" "clean ta \<longrightarrow> ta = t" using admitWith_keeps [OF a] by auto
  have n: "ra = None \<Longrightarrow> ta = t" using admitWith_cases [OF a] by auto
  show "keeps t t'" using assms a k(1) n
    by (cases ra) (auto simp: savepointStart_def Let_def keeps_def queue_def nth_append)
  show "t_structural t' = None \<Longrightarrow> t_structural t = None"
    using assms a admitWith_cases [OF a] by (cases ra) (auto simp: savepointStart_def Let_def)
  show "r = Inl e \<Longrightarrow> clean t' \<Longrightarrow> t' = t" using assms a k(2) by (cases ra) (auto simp: savepointStart_def Let_def)
  show "r = Inr k \<Longrightarrow> k = length (t_frames t) \<and> length (t_frames t') = Suc k \<and> f_failure (t_frames t' ! k) = a_failure (t_commands t)
      \<and> t_commands t' = trackStart (t_commands t) \<and> t_structural t' = t_structural t"
    using assms a n by (cases ra) (auto simp: savepointStart_def Let_def queue_def trackStart_def)
qed

lemma exec_sound:
  "exec f a t = (e, kept, t') \<Longrightarrow> t_open t \<Longrightarrow> keeps t t' \<and> (t_structural t' = None \<longrightarrow> t_structural t = None) \<and> (clean t' \<longrightarrow> clean t \<and> list_all (\<lambda>b. b) kept)"
  "execAll f as t = (e, kept, t') \<Longrightarrow> t_open t \<Longrightarrow> keeps t t' \<and> (t_structural t' = None \<longrightarrow> t_structural t = None) \<and> (clean t' \<longrightarrow> clean t \<and> list_all (\<lambda>b. b) kept)"
proof (induction f a t and f as t arbitrary: e kept t' and e kept t' rule: exec_execAll.induct)
  case (1 f r c t)
  obtain ra ta where a: "admit (inFrame f) t = (ra, ta)" by fastforce
  have k: "keeps t ta" "clean ta \<longrightarrow> ta = t" "t_structural ta = None \<longrightarrow> t_structural t = None"
    using admitWith_keeps [of OverlappingWork "inFrame f" t ra ta] admitWith_cases [of OverlappingWork "inFrame f" t ra ta] a
    by (auto simp: admit_def)
  have n: "ra = None \<Longrightarrow> ta = t" using admitWith_cases [of OverlappingWork "inFrame f" t ra ta] a by (auto simp: admit_def)
  show ?case
  proof (cases ra)
    case None
    then have "t' = settleCommand r (queue (sqlCommand [] []) t)" "kept = [r = None]" using 1 a n by (auto simp: callCommand_def)
    then show ?thesis by (cases "a_failure (t_commands t)") (simp_all add: clean_def)
  next
    case (Some x)
    then have "t' = ta" "kept = []" using 1 a by (auto simp: callCommand_def)
    then show ?thesis using k by auto
  qed
next
  case (2 f opn scope body thrown rel rb c t)
  obtain rs ts where s: "savepointStart (inFrame f) t = (rs, ts)" by fastforce
  note st = start_sound [OF s]
  show ?case
  proof (cases rs)
    case (Inl x)
    then show ?thesis using 2(2) s st(1,2,4) by auto
  next
    case (Inr k)
    note sk = st(3) [OF Inr]
    have ots: "t_open ts" using st(1) 2(3) by (simp add: keeps_def)
    show ?thesis
    proof (cases opn)
      case (Some x)
      then have "t' = savepointOpenFailed k x ts" using 2(2) s Inr by simp
      then show ?thesis using st(1) sk by (simp add: clean_def)
    next
      case None
      obtain ro to where o: "savepointOpened k scope ts = (ro, to)" by fastforce
      note op = opened_keeps [OF o]
      have ro: "ro = None" using op(4) ots .
      obtain err kb t3 where b: "execAll (Some k) body to = (err, kb, t3)" by (metis prod_cases3)
      have oto: "t_open to" using op(1) ots by (simp add: keeps_def)
      have IH: "keeps to t3" "clean t3 \<longrightarrow> clean to \<and> list_all (\<lambda>b. b) kb" "t_structural t3 = None \<longrightarrow> t_structural to = None"
        using 2(1) [OF s [symmetric] Inr None o [symmetric] ro b] oto by auto
      have kt3: "keeps t t3" using st(1) op(1) IH(1) scope_keeps_trans by blast
      have ot3: "t_open t3" using kt3 2(3) by (simp add: keeps_def)
      have cap: "f_failure (t_frames t3 ! k) = a_failure (t_commands t)"
        using IH(1) op(5,6) sk by (auto simp: keeps_def)
      have struct: "t_structural t3 = None \<Longrightarrow> t_structural t = None" using IH(3) op(3) sk by simp
      let ?e = "case err of Some e \<Rightarrow> Some e | None \<Rightarrow> thrown"
      obtain rd t4 where d: "savepointBodyDone k t3 = (rd, t4)" by fastforce
      note bd = bodyDone_sound [OF d ot3]
      have ot4: "t_open t4" using bd ot3 by (simp add: keeps_def)
      have fs: "keeps t t' \<and> (t_structural t' = None \<longrightarrow> t_structural t = None) \<and> (clean t' \<longrightarrow> clean t \<and> list_all (\<lambda>b. b) kept)"
        if fail: "failSave k x rb kb u = (e, kept, t')" and u: "keeps t u" "t_frames u = t_frames t3" "t_open u"
          "t_structural u = None \<longrightarrow> t_structural t3 = None" for x u
        using failSave_sound [OF fail u(3)] u cap struct scope_keeps_trans [OF u(1)] by (auto simp: clean_def)
      have res: "exec f (Save opn scope body thrown rel rb c) t =
        (case ?e of
           Some x \<Rightarrow> failSave k x rb kb t3
         | None \<Rightarrow> (case rd of
             Some x \<Rightarrow> failSave k x rb kb t4
           | None \<Rightarrow> (case rel of
               None \<Rightarrow> (None, kb, savepointEnd k (settleCommand None t4))
             | Some x \<Rightarrow> failSave k x rb kb (settleCommand (Some x) t4))))"
        using s Inr None o ro b d by (simp split: option.splits)
      have kt4: "keeps t t4" using kt3 bd scope_keeps_trans by blast
      show ?thesis
      proof (cases ?e)
        case (Some x)
        then show ?thesis using fs [of x t3] 2(2) res kt3 ot3 by simp
      next
        case e: None
        show ?thesis
        proof (cases rd)
          case (Some x)
          then show ?thesis using fs [of x t4] 2(2) res e kt4 ot4 bd by simp
        next
          case r: None
          show ?thesis
          proof (cases rel)
            case (Some x)
            then show ?thesis using fs [of x "settleCommand (Some x) t4"] 2(2) res e r kt4 ot4 bd by simp
          next
            case None
            then have eq: "e = None" "kept = kb" "t' = savepointEnd k (settleCommand None t4)" using 2(2) res e r by auto
            have "a_failure (t_commands t4) = a_failure (t_commands t3)" using bd r by (simp add: trackStart_def)
            then have "clean t' \<Longrightarrow> clean t3" "clean t' \<Longrightarrow> a_failure (t_commands t) = None"
              using bd r cap by (auto simp: eq clean_def split: option.splits)
            then show ?thesis using eq kt4 IH(2) struct bd by (auto simp: clean_def)
          qed
        qed
      qed
    qed
  qed
next
  case (3 f t)
  then show ?case by simp
next
  case (4 f a as t)
  obtain e1 k1 t1 where a: "exec f a t = (e1, k1, t1)" by (metis prod_cases3)
  have i1: "keeps t t1" "t_structural t1 = None \<longrightarrow> t_structural t = None" "clean t1 \<longrightarrow> clean t \<and> list_all (\<lambda>b. b) k1"
    using 4(1) [OF a 4(4)] by auto
  show ?case
  proof (cases "e1 \<noteq> None \<and> \<not> caught a")
    case True
    then show ?thesis using 4(3) a i1 by auto
  next
    case False
    obtain e2 k2 t2 where b: "execAll f as t1 = (e2, k2, t2)" by (metis prod_cases3)
    have "t_open t1" using i1(1) 4(4) by (simp add: keeps_def)
    then have "keeps t1 t2" "t_structural t2 = None \<longrightarrow> t_structural t1 = None" "clean t2 \<longrightarrow> clean t1 \<and> list_all (\<lambda>b. b) k2"
      using 4(2) [OF a [symmetric] refl False b] by auto
    then show ?thesis using 4(3) a b False i1 scope_keeps_trans by auto
  qed
qed


section \<open>A clean callback commits\<close>

fun good :: "'e act \<Rightarrow> bool" where
  "good (Run r c) = (r = None)"
| "good (Save opn scope body thrown rel rb c) = (opn = None \<and> thrown = None \<and> rel = None \<and> list_all good body)"

definition same :: "'e tx \<Rightarrow> 'e tx \<Rightarrow> bool" where
  "same t t' = (t_open t' = t_open t \<and> t_locals t' = t_locals t \<and> t_structural t' = t_structural t \<and> t_active t' = t_active t
     \<and> a_pending (t_commands t') = a_pending (t_commands t) \<and> a_failure (t_commands t') = a_failure (t_commands t) \<and> t_scopes t' = t_scopes t)"

definition ready :: "nat option \<Rightarrow> 'e tx \<Rightarrow> bool" where
  "ready f t = (t_open t \<and> t_locals t = 0 \<and> t_structural t = None \<and> t_active t = f \<and> (\<forall>k \<in> set (t_scopes t). k < length (t_frames t)))"

lemma admit_ready: "ready f t \<Longrightarrow> admitWith x (inFrame f) t = (None, t)"
  by (simp add: ready_def admitWith_def foreign_def callbackRefusal_def inFrame_def)

lemma same_trans: "same a b \<Longrightarrow> same b c \<Longrightarrow> same a c"
  by (simp add: same_def)

lemma ready_same: "ready f t \<Longrightarrow> same t t' \<Longrightarrow> keeps t t' \<Longrightarrow> ready f t'"
  by (auto simp: ready_def same_def keeps_def)

lemma savepointStart_ready:
  assumes "ready f t" "savepointStart (inFrame f) t = (Inr k, ts)"
  shows "k = length (t_frames t)"
    and "ts = t\<lparr>t_commands := trackStart (t_commands t), t_sent := t_sent t @ [(savepointCommand, activeScope t)],
           t_frames := t_frames t @ [\<lparr>f_parent = f, f_scope = None, f_failure = a_failure (t_commands t)\<rparr>],
           t_active := Some k, t_scopes := t_scopes t @ [k]\<rparr>"
  using assms admit_ready [OF assms(1), of OverlappingSavepoints]
  by (auto simp: savepointStart_def Let_def queue_def ready_def trackStart_def)

lemma savepoint_opens:
  assumes r: "ready f t" and s: "savepointStart (inFrame f) t = (Inr k, ts)" and o: "savepointOpened k scope ts = (ro, to)"
  shows "ro = None \<and> ready (Some k) to \<and> f_parent (t_frames to ! k) = f \<and> k = length (t_frames t) \<and> k < length (t_frames to)
    \<and> t_scopes to = t_scopes t @ [k] \<and> a_pending (t_commands to) = a_pending (t_commands t)
    \<and> a_failure (t_commands to) = a_failure (t_commands t)"
proof -
  note ts = savepointStart_ready [OF r s]
  have "ro = None" "length (t_frames to) = Suc k" "f_parent (t_frames to ! k) = f" "t_scopes to = t_scopes t @ [k]"
    "a_pending (t_commands to) = a_pending (t_commands t)" "a_failure (t_commands to) = a_failure (t_commands t)"
    "t_open to" "t_locals to = 0" "t_structural to = None" "t_active to = Some k"
    using o r unfolding ts(2)
    by (cases scope; simp add: savepointOpened_def Let_def settleCommand_def trackStart_def trackSettle_def ready_def ts(1);
        auto split: option.splits)+
  then show ?thesis using r ts(1) by (auto simp: ready_def)
qed

lemma exec_good:
  "good a \<Longrightarrow> ready f t \<Longrightarrow> \<exists>kept t'. exec f a t = (None, kept, t') \<and> list_all (\<lambda>b. b) kept \<and> same t t' \<and> keeps t t'
     \<and> (\<forall>j < length (t_frames t). f_parent (t_frames t' ! j) = f_parent (t_frames t ! j))"
  "list_all good as \<Longrightarrow> ready f t \<Longrightarrow> \<exists>kept t'. execAll f as t = (None, kept, t') \<and> list_all (\<lambda>b. b) kept \<and> same t t' \<and> keeps t t'
     \<and> (\<forall>j < length (t_frames t). f_parent (t_frames t' ! j) = f_parent (t_frames t ! j))"
proof (induction f a t and f as t rule: exec_execAll.induct)
  case (1 f r c t)
  then show ?case
    using admit_ready [OF 1(2), of OverlappingWork]
    by (auto simp: callCommand_def admit_def same_def queue_def settleCommand_def trackStart_def trackSettle_def keeps_def split: option.splits)
next
  case (2 f opn scope body thrown rel rb c t)
  obtain k ts where s: "savepointStart (inFrame f) t = (Inr k, ts)"
    using admit_ready [OF 2(3), of OverlappingSavepoints] by (auto simp: savepointStart_def Let_def)
  obtain ro to where o: "savepointOpened k scope ts = (ro, to)" by fastforce
  note so = savepoint_opens [OF 2(3) s o]
  have kt: "keeps t to" using start_sound(1) [OF s] opened_keeps(1) [OF o] scope_keeps_trans by blast
  have g: "opn = None" "thrown = None" "rel = None" "list_all good body" using 2(2) by auto
  have ro: "ro = None" using so by simp
  have IH: "\<exists>kept t'. execAll (Some k) body to = (None, kept, t') \<and> list_all (\<lambda>b. b) kept \<and> same to t' \<and> keeps to t'
     \<and> (\<forall>j < length (t_frames to). f_parent (t_frames t' ! j) = f_parent (t_frames to ! j))"
    using 2(1) [OF s [symmetric] refl g(1) o [symmetric] ro] g so by blast
  then obtain kb t3 where b: "execAll (Some k) body to = (None, kb, t3)" and kb: "list_all (\<lambda>b. b) kb" and sm: "same to t3" and k3: "keeps to t3"
    and par: "\<forall>j < length (t_frames to). f_parent (t_frames t3 ! j) = f_parent (t_frames to ! j)" by blast
  have cap: "f_failure (t_frames t3 ! k) = a_failure (t_commands t)"
    using start_sound(3) [OF s refl] opened_keeps(5) [OF o] k3 so by (auto simp: keeps_def)
  have d: "savepointBodyDone k t3 = (None, queue (releaseCommand (f_scope (t_frames t3 ! k))) t3)"
    using sm so cap by (auto simp: savepointBodyDone_def same_def ready_def)
  let ?t = "savepointEnd k (settleCommand None (queue (releaseCommand (f_scope (t_frames t3 ! k))) t3))"
  have e: "exec f (Save opn scope body thrown rel rb c) t = (None, kb, ?t)"
    using s o ro b d g by simp
  have fresh: "k \<notin> set (t_scopes t)" using 2(3) so by (auto simp: ready_def)
  then have "filter ((\<noteq>) k) (t_scopes t) = t_scopes t" by (auto intro: filter_True)
  then have "same t ?t"
    using sm so par 2(3)
    by (auto simp: same_def savepointEnd_def queue_def settleCommand_def trackStart_def trackSettle_def ready_def split: option.splits)
  moreover have "keeps t ?t" using kt k3 scope_keeps_trans by fastforce
  moreover have "f_parent (t_frames ?t ! j) = f_parent (t_frames t ! j)" if "j < length (t_frames t)" for j
  proof -
    have "f_parent (t_frames to ! j) = f_parent (t_frames t ! j)"
      using that s o admit_ready [OF 2(3), of OverlappingSavepoints]
      by (auto simp: savepointStart_def savepointOpened_def Let_def queue_def settleCommand_def nth_append split: option.splits)
    then show ?thesis using par that so kt by (simp add: keeps_def)
  qed
  ultimately show ?case using e kb by blast
next
  case (3 f t)
  then show ?case by (simp add: same_def)
next
  case (4 f a as t)
  obtain k1 t1 where a: "exec f a t = (None, k1, t1)" "list_all (\<lambda>b. b) k1" "same t t1" "keeps t t1"
    and p1: "\<forall>j < length (t_frames t). f_parent (t_frames t1 ! j) = f_parent (t_frames t ! j)"
    using 4(1,3,4) by auto
  have "ready f t1" using ready_same [OF 4(4) a(3,4)] .
  then obtain k2 t2 where b: "execAll f as t1 = (None, k2, t2)" "list_all (\<lambda>b. b) k2" "same t1 t2" "keeps t1 t2"
    and p2: "\<forall>j < length (t_frames t1). f_parent (t_frames t2 ! j) = f_parent (t_frames t1 ! j)"
    using 4(2) [OF a(1) [symmetric] refl] 4(3) \<open>ready f t1\<close> by auto
  have "execAll f (a # as) t = (None, k1 @ k2, t2)" using a(1) b(1) by simp
  then show ?case using a b p1 p2 same_trans [OF a(3) b(3)] scope_keeps_trans [OF a(4) b(4)] by (auto simp: keeps_def)
qed

text \<open>
  A callback that awaits its work and whose commands all succeed commits: \<open>finish\<close> lets it
  pass, with any nesting of savepoints, and the first unsettled command would stop it.
\<close>

lemma clean_callback_commits:
  assumes "list_all good acts"
  shows "\<exists>kept t. execAll None acts new_tx = (None, kept, t) \<and> list_all (\<lambda>b. b) kept \<and> fst (finish [] t) = Inr ()
    \<and> fst (finish [r] (queue command t)) = Inl UnawaitedOperation"
proof -
  have "ready None new_tx" by (simp add: ready_def new_tx_def)
  from exec_good(2) [OF assms this] obtain kept t where
    x: "execAll None acts new_tx = (None, kept, t)" "list_all (\<lambda>b. b) kept" "same new_tx t" by blast
  then show ?thesis
    by (auto simp: finish_Inr_iff same_def new_tx_def new_accounting_def) (simp add: finish_def Let_def queue_def settleCommand_def trackStart_def)
qed


text \<open>
  A savepoint the runtime could not open stays the active one: the error is caught, yet
  the next command is refused as overlapping work, and \<open>finish\<close> reports that refusal
  instead of the error the command failed with.
\<close>

lemma failed_open_strands_savepoint:
  "\<exists>kept t. execAll None [Save (Some (Runtime e)) scope [] None None None True, Run None True] new_tx = (None, kept, t)
       \<and> t_active t = Some 0 \<and> a_failure (t_commands t) = Some (Runtime e) \<and> fst (finish [] t) = Inl OverlappingWork"
  by (simp add: savepointStart_def admitWith_def foreign_def callbackRefusal_def inFrame_def callCommand_def admit_def Let_def
        savepointOpenFailed_def settleCommand_def trackSettle_def trackStart_def queue_def new_tx_def new_accounting_def finish_def)

section \<open>What a finished scope says\<close>

text \<open>
  Whenever a transaction on Node or React Native, or a local callback, finishes without
  an error, every command sent through it settled, and none of them failed, however the
  callback interleaved and caught them.
\<close>

lemma finished_scope_is_clean:
  "(fst (finish late (snd (runScope (callCommand cx command) settleCommand es new_tx))) = Inr () \<longrightarrow>
      fst (runScope (callCommand cx command) settleCommand es new_tx) \<le> length (filter (\<lambda>e. e \<noteq> Started) es)
      \<and> (\<forall>r. Settled r \<in> set es \<longrightarrow> r = None))
   \<and> (fst (rnFinish late (snd (runScope rnCall rnSettle es new_rn))) = Inr () \<longrightarrow>
      fst (runScope rnCall rnSettle es new_rn) \<le> length (filter (\<lambda>e. e \<noteq> Started) es) \<and> (\<forall>r. Settled r \<in> set es \<longrightarrow> r = None))
   \<and> ((\<lambda>(t, l). fst (localFinish late l)) (snd (runScope (localCall cx) (\<lambda>r (t, l). (t, localSettle r l)) es (new_tx, new_local))) = Inr () \<longrightarrow>
      fst (runScope (localCall cx) (\<lambda>r (t, l). (t, localSettle r l)) es (new_tx, new_local)) \<le> length (filter (\<lambda>e. e \<noteq> Started) es)
      \<and> (\<forall>r. Settled r \<in> set es \<longrightarrow> r = None))"
  using node.clean_run [of late cx command es new_tx] node.balanced_run [of late cx command es new_tx]
    rn.clean_run [of late es new_rn] rn.balanced_run [of late es new_rn]
    loc.clean_run [of late cx es "(new_tx, new_local)"] loc.balanced_run [of late cx es "(new_tx, new_local)"]
  by (auto intro: order_trans [OF le_add2])

end
