(* ===== verification/Bridge.thy ===== *)
theory Bridge
  imports JsValue
begin

text \<open>
  \<^verbatim>\<open>packages/frontend/client-js/bindings/bridge.mts\<close>: the SDK side of one client runtime, which
  routes requests to their promises, runs the application's callbacks and dispatches the
  events the runtime publishes.

  A request is named by its number. The runtime behind the carrier is outside: \<open>refuse\<close> is
  what a submission threw, if it threw, and the batches of a drain are an argument. What the
  bridge does outside itself is recorded: \<open>b_settled\<close> are the promises it settled, \<open>b_sent\<close>
  the messages it submitted, \<open>b_closeDone\<close> says that the promise of \<open>close\<close> is resolved, \<open>b_runs\<close> the callback bodies it ran and \<open>b_heard\<close> the calls of
  listeners. A promise's continuation runs later, so the body of a callback is an operation
  of its own. A listener that calls the bridge does so as a later operation; the one call a
  \<open>settled\<close> hook makes during the dispatch, \<open>observe\<close>, is part of it.
\<close>

section \<open>State\<close>

datatype 'x task_failure = ClientClosed | Refused 'x | HookThrew 'x | CallbackThrew 'x | TaskFailed jsstr "jsv option"

datatype 'x settlement = Resolved jsv | RejectedWith "'x task_failure"

text \<open>\<open>Callback\<close> and \<open>LocalCallbackRoute\<close>; the transaction and companion ids are what \<open>start\<close> got.\<close>

record 'x callback =
  k_effect :: "jsstr option"
  k_cancelled :: bool
  k_thrown :: "'x option"
  k_started :: "(jsstr \<times> jsstr \<times> jsstr option) option"
  k_begun :: bool

definition new_callback :: "'x callback" where
  "new_callback = \<lparr>k_effect = None, k_cancelled = False, k_thrown = None, k_started = None, k_begun = False\<rparr>"

text \<open>The \<open>settled\<close> hook of a route: the observers it attaches and whether it throws, by the value.\<close>

type_synonym 'x hook = "jsv \<Rightarrow> (jsstr \<times> nat) list \<times> 'x option"

record 'x bridge =
  b_issued :: nat
  b_routes :: "(nat, 'x hook option) jsmap"
  b_objects :: "nat \<Rightarrow> 'x callback"
  b_callbacks :: "nat list"
  b_locals :: "nat list"
  b_listeners :: "(jsstr, nat list) jsmap"
  b_effects :: "(jsstr, nat) jsmap"
  b_observers :: "(jsstr, nat) jsmap"
  b_closing :: bool
  b_settleClose :: bool
  b_closed :: bool
  b_keepAlive :: bool
  b_closeDone :: bool
  b_detached :: nat
  b_settled :: "(nat \<times> 'x settlement) list"
  b_sent :: "jsv list"
  b_runs :: "nat list"
  b_heard :: "(nat \<times> jsv) list"
  b_reported :: nat

definition new_bridge :: "'x bridge" where
  "new_bridge = \<lparr>b_issued = 0, b_routes = [], b_objects = (\<lambda>_. new_callback), b_callbacks = [], b_locals = [], b_listeners = [],
     b_effects = [], b_observers = [], b_closing = False, b_settleClose = False, b_closed = False, b_keepAlive = False,
     b_closeDone = False, b_detached = 0, b_settled = [], b_sent = [], b_runs = [], b_heard = [], b_reported = 0\<rparr>"

section \<open>Routes\<close>

definition hold :: "'x bridge \<Rightarrow> 'x bridge" where
  "hold b =
     (let outstanding = (b_routes b \<noteq> [] \<or> b_settleClose b) in
      if outstanding \<and> \<not> b_keepAlive b then b\<lparr>b_keepAlive := True\<rparr>
      else if \<not> outstanding \<and> b_keepAlive b then b\<lparr>b_keepAlive := False\<rparr>
      else b)"

definition settleRoute :: "nat \<Rightarrow> 'x bridge \<Rightarrow> 'x hook option option \<times> 'x bridge" where
  "settleRoute req b = (map_of (b_routes b) req, hold (b\<lparr>b_routes := mdel req (b_routes b)\<rparr>))"

definition settleWith :: "nat \<Rightarrow> 'x settlement \<Rightarrow> 'x bridge \<Rightarrow> 'x bridge" where
  "settleWith req r b = b\<lparr>b_settled := b_settled b @ [(req, r)]\<rparr>"

definition dropCallbacks :: "nat \<Rightarrow> 'x bridge \<Rightarrow> 'x bridge" where
  "dropCallbacks req b = b\<lparr>b_callbacks := removeAll req (b_callbacks b), b_locals := removeAll req (b_locals b)\<rparr>"

text \<open>
  \<open>#route\<close>: \<open>admit\<close> builds the message - \<open>transaction\<close> and \<open>submitMutation\<close> register their
  callback there - and submits it.
\<close>

datatype registers = NoCallback | TransactionCallback | LocalCallback

definition registerCallback :: "registers \<Rightarrow> nat \<Rightarrow> 'x bridge \<Rightarrow> 'x bridge" where
  "registerCallback g req b =
     (case g of
        NoCallback \<Rightarrow> b
      | TransactionCallback \<Rightarrow> b\<lparr>b_objects := (b_objects b)(req := new_callback), b_callbacks := sadd req (b_callbacks b)\<rparr>
      | LocalCallback \<Rightarrow> b\<lparr>b_objects := (b_objects b)(req := new_callback), b_locals := sadd req (b_locals b)\<rparr>)"

definition route ::
  "registers \<Rightarrow> (jsstr \<Rightarrow> jsv) \<Rightarrow> 'x hook option \<Rightarrow> 'x option \<Rightarrow> 'x bridge \<Rightarrow> nat \<times> 'x bridge" where
  "route g envelope hook refuse b =
     (let req = Suc (b_issued b);
          b1 = hold (b\<lparr>b_issued := req, b_routes := mput req hook (b_routes b)\<rparr>);
          b2 = registerCallback g req b1
      in (req,
          case refuse of
            None \<Rightarrow> b2\<lparr>b_sent := b_sent b2 @ [envelope (show_nat req)]\<rparr>
          | Some e \<Rightarrow>
              (case settleRoute req b2 of
                 (None, b3) \<Rightarrow> dropCallbacks req b3
               | (Some _, b3) \<Rightarrow> dropCallbacks req (settleWith req (RejectedWith (Refused e)) b3))))"

definition submitRouted ::
  "registers \<Rightarrow> (jsstr \<Rightarrow> jsv) \<Rightarrow> 'x hook option \<Rightarrow> 'x option \<Rightarrow> 'x bridge \<Rightarrow> ('x task_failure, nat) res \<times> 'x bridge" where
  "submitRouted g envelope hook refuse b =
     (if b_closing b \<or> b_closed b then (Inl ClientClosed, b)
      else let (req, b') = route g envelope hook refuse b in (Inr req, b'))"

section \<open>Submissions\<close>

definition message :: "string \<Rightarrow> (jsstr \<times> jsv) list \<Rightarrow> jsv" where
  "message t fs = Obj ((js ''type'', Str (js t)) # fs)"

definition scopeField :: "jsstr option \<Rightarrow> (jsstr \<times> jsv) list" where
  "scopeField scope = (case scope of None \<Rightarrow> [] | Some s \<Rightarrow> [(js ''scope'', Str s)])"

definition task :: "jsv \<Rightarrow> 'x hook option \<Rightarrow> 'x option \<Rightarrow> 'x bridge \<Rightarrow> ('x task_failure, nat) res \<times> 'x bridge" where
  "task command hook =
     submitRouted NoCallback (\<lambda>req. message ''task'' [(js ''requestId'', Str req), (js ''command'', command)]) hook"

definition transaction :: "'x option \<Rightarrow> 'x bridge \<Rightarrow> ('x task_failure, nat) res \<times> 'x bridge" where
  "transaction =
     submitRouted TransactionCallback
       (\<lambda>req. message ''task'' [(js ''requestId'', Str req), (js ''command'', Obj [(js ''kind'', Str (js ''transaction''))])]) None"

definition commandEnvelope :: "jsstr \<Rightarrow> jsstr option \<Rightarrow> (jsstr \<times> jsv) list \<Rightarrow> jsv \<Rightarrow> jsstr \<Rightarrow> jsv" where
  "commandEnvelope transactionId scope companion command req =
     message ''transactionCommand''
       ([(js ''requestId'', Str req), (js ''transactionId'', Str transactionId)] @ scopeField scope @ companion
        @ [(js ''command'', command)])"

definition transactionCommand ::
  "jsstr \<Rightarrow> jsstr option \<Rightarrow> jsv \<Rightarrow> 'x option \<Rightarrow> 'x bridge \<Rightarrow> ('x task_failure, nat) res \<times> 'x bridge" where
  "transactionCommand transactionId scope command =
     submitRouted NoCallback (commandEnvelope transactionId scope [] command) None"

definition submitMutation ::
  "jsstr \<Rightarrow> jsstr option \<Rightarrow> jsv \<Rightarrow> bool \<Rightarrow> 'x hook option \<Rightarrow> 'x option \<Rightarrow> 'x bridge \<Rightarrow> ('x task_failure, nat) res \<times> 'x bridge" where
  "submitMutation transactionId scope command isLocal hook =
     submitRouted (if isLocal then LocalCallback else NoCallback) (commandEnvelope transactionId scope [] command) hook"

text \<open>A command the local callback sends carries its companion capability.\<close>

definition companionCommand ::
  "jsstr \<Rightarrow> jsstr option \<Rightarrow> jsstr \<Rightarrow> jsv \<Rightarrow> 'x option \<Rightarrow> 'x bridge \<Rightarrow> ('x task_failure, nat) res \<times> 'x bridge" where
  "companionCommand transactionId scope companionId command =
     submitRouted NoCallback (commandEnvelope transactionId scope [(js ''companionId'', Str companionId)] command) None"

definition answer :: "jsv \<Rightarrow> bool \<Rightarrow> 'x bridge \<Rightarrow> 'x bridge" where
  "answer input refused b = (if b_closed b \<or> refused then b else b\<lparr>b_sent := b_sent b @ [input]\<rparr>)"

definition effectResult :: "jsstr \<Rightarrow> jsv \<Rightarrow> bool \<Rightarrow> 'x bridge \<Rightarrow> 'x bridge" where
  "effectResult effectId outcome =
     answer (message ''effectResult'' [(js ''effectId'', Str effectId), (js ''outcome'', outcome)])"

definition companionField :: "jsstr option \<Rightarrow> (jsstr \<times> jsv) list" where
  "companionField c = (case c of None \<Rightarrow> [] | Some i \<Rightarrow> [(js ''companionId'', Str i)])"

definition callbackResult :: "jsstr \<Rightarrow> jsstr \<Rightarrow> jsstr option \<Rightarrow> (jsstr \<times> jsv) list \<Rightarrow> jsv" where
  "callbackResult effectId transactionId companionId result =
     message ''callbackResult''
       ([(js ''effectId'', Str effectId), (js ''transactionId'', Str transactionId)] @ companionField companionId @ result)"

section \<open>Callbacks\<close>

text \<open>The continuation of \<open>started\<close>: the body runs unless its effect was cancelled or its task settled.\<close>

definition beginCallback :: "nat \<Rightarrow> 'x bridge \<Rightarrow> bool \<times> 'x bridge" where
  "beginCallback req b =
     (let k = b_objects b req in
      if k_started k = None \<or> k_begun k then (False, b)
      else
        let b' = b\<lparr>b_objects := (b_objects b)(req := k\<lparr>k_begun := True\<rparr>)\<rparr> in
        if k_cancelled k \<or> \<not> mhas (b_routes b) req then (False, b')
        else (True, b'\<lparr>b_runs := b_runs b' @ [req]\<rparr>))"

text \<open>
  The body settled; \<open>input\<close> is the value of a local callback and \<open>describe\<close> the text of what
  it threw.
\<close>

definition endCallback :: "nat \<Rightarrow> ('x \<times> jsstr, jsv option) res \<Rightarrow> bool \<Rightarrow> 'x bridge \<Rightarrow> 'x bridge" where
  "endCallback req r refused b =
     (case k_started (b_objects b req) of
        None \<Rightarrow> b
      | Some (effectId, transactionId, companionId) \<Rightarrow>
          (case r of
             Inr input \<Rightarrow>
               answer (callbackResult effectId transactionId companionId
                 ((js ''ok'', Bool True) # (case input of None \<Rightarrow> [] | Some v \<Rightarrow> [(js ''input'', v)]))) refused b
           | Inl (x, describe) \<Rightarrow>
               answer (callbackResult effectId transactionId companionId
                 [(js ''ok'', Bool False), (js ''error'', Str describe)]) refused
                 (b\<lparr>b_objects := (b_objects b)(req := (b_objects b req)\<lparr>k_thrown := Some x\<rparr>)\<rparr>)))"

text \<open>\<open>start\<close> resolves a promise: only its first call counts.\<close>

definition startCallback :: "nat \<Rightarrow> jsstr \<Rightarrow> jsstr \<Rightarrow> jsstr option \<Rightarrow> 'x bridge \<Rightarrow> 'x bridge" where
  "startCallback req effectId transactionId companionId b =
     (let k = b_objects b req in
      b\<lparr>b_objects := (b_objects b)(req :=
          k\<lparr>k_effect := Some effectId,
            k_started := (if k_started k = None then Some (effectId, transactionId, companionId) else k_started k)\<rparr>)\<rparr>)"

definition cancelCallback :: "jsstr \<Rightarrow> 'x bridge \<Rightarrow> 'x bridge" where
  "cancelCallback effectId b =
     b\<lparr>b_objects := (\<lambda>req.
        let k = b_objects b req in
        if (req \<in> set (b_callbacks b) \<or> req \<in> set (b_locals b)) \<and> k_effect k = Some effectId
        then k\<lparr>k_cancelled := True\<rparr> else k)\<rparr>"

section \<open>Listeners\<close>

definition on :: "jsstr \<Rightarrow> nat \<Rightarrow> 'x bridge \<Rightarrow> 'x bridge" where
  "on t l b = b\<lparr>b_listeners := mput t (sadd l (case map_of (b_listeners b) t of None \<Rightarrow> [] | Some ls \<Rightarrow> ls)) (b_listeners b)\<rparr>"

definition off :: "jsstr \<Rightarrow> nat \<Rightarrow> 'x bridge \<Rightarrow> 'x bridge" where
  "off t l b =
     (case map_of (b_listeners b) t of
        None \<Rightarrow> b
      | Some ls \<Rightarrow> b\<lparr>b_listeners := mput t (removeAll l ls) (b_listeners b)\<rparr>)"

definition observe :: "jsstr \<Rightarrow> nat \<Rightarrow> 'x bridge \<Rightarrow> 'x bridge" where
  "observe observerId l b = (if b_closed b then b else b\<lparr>b_observers := mput observerId l (b_observers b)\<rparr>)"

definition detach :: "jsstr \<Rightarrow> nat \<Rightarrow> 'x bridge \<Rightarrow> 'x bridge" where
  "detach observerId l b =
     (if map_of (b_observers b) observerId = Some l then b\<lparr>b_observers := mdel observerId (b_observers b)\<rparr> else b)"

definition onEffect :: "jsstr \<Rightarrow> nat \<Rightarrow> 'x bridge \<Rightarrow> 'x bridge" where
  "onEffect kind h b = b\<lparr>b_effects := mput kind h (b_effects b)\<rparr>"

definition offEffect :: "jsstr \<Rightarrow> nat \<Rightarrow> 'x bridge \<Rightarrow> 'x bridge" where
  "offEffect kind h b = (if map_of (b_effects b) kind = Some h then b\<lparr>b_effects := mdel kind (b_effects b)\<rparr> else b)"

text \<open>A call of a listener; \<open>throws\<close> says which calls throw, and a throw is reported.\<close>

definition hear :: "(nat \<Rightarrow> jsv \<Rightarrow> bool) \<Rightarrow> jsv \<Rightarrow> nat \<Rightarrow> 'x bridge \<Rightarrow> 'x bridge" where
  "hear throws v l b =
     b\<lparr>b_heard := b_heard b @ [(l, v)], b_reported := b_reported b + (if throws l v then 1 else 0)\<rparr>"

definition emit :: "(nat \<Rightarrow> jsv \<Rightarrow> bool) \<Rightarrow> jsstr \<Rightarrow> jsv \<Rightarrow> 'x bridge \<Rightarrow> 'x bridge" where
  "emit throws t event b =
     fold (hear throws event) (case map_of (b_listeners b) t of None \<Rightarrow> [] | Some ls \<Rightarrow> ls) b"

definition snapshot :: "(nat \<Rightarrow> jsv \<Rightarrow> bool) \<Rightarrow> jsstr \<Rightarrow> jsv \<Rightarrow> 'x bridge \<Rightarrow> 'x bridge" where
  "snapshot throws observerId s b =
     (case map_of (b_observers b) observerId of
        None \<Rightarrow> b
      | Some l \<Rightarrow>
          hear throws s l
            (if field s (js ''closed'') = Bool True then b\<lparr>b_observers := mdel observerId (b_observers b)\<rparr> else b))"

section \<open>Events\<close>

datatype operation =
    AskCallback nat jsstr
  | AskLocal nat jsstr jsstr
  | AskOther jsstr jsv

definition effect :: "(nat \<Rightarrow> jsv \<Rightarrow> bool) \<Rightarrow> bool \<Rightarrow> jsstr \<Rightarrow> operation \<Rightarrow> 'x bridge \<Rightarrow> 'x bridge" where
  "effect throws refused effectId op b =
     (case op of
        AskCallback req transactionId \<Rightarrow>
          if req \<notin> set (b_callbacks b)
          then answer (callbackResult effectId transactionId None
                 [(js ''ok'', Bool False), (js ''error'', Str (js ''unknown transaction''))]) refused b
          else startCallback req effectId transactionId None b
      | AskLocal req transactionId companionId \<Rightarrow>
          if req \<notin> set (b_locals b)
          then answer (callbackResult effectId transactionId (Some companionId)
                 [(js ''ok'', Bool False), (js ''error'', Str (js ''unknown mutation''))]) refused b
          else startCallback req effectId transactionId (Some companionId) b
      | AskOther kind v \<Rightarrow>
          (case map_of (b_effects b) kind of
             None \<Rightarrow> effectResult effectId
                 (Obj [(js ''ok'', Bool False), (js ''error'', Obj [(js ''message'', Str (js ''unsupported effect''))])]) refused b
           | Some h \<Rightarrow> hear throws v h b))"

definition terminate :: "'x bridge \<Rightarrow> 'x bridge" where
  "terminate b =
     (if b_closed b then b
      else
        let b1 = b\<lparr>b_closed := True, b_routes := [], b_callbacks := [], b_locals := [], b_observers := [],
                   b_settled := b_settled b @ map (\<lambda>(req, _). (req, RejectedWith ClientClosed)) (b_routes b),
                   b_detached := Suc (b_detached b)\<rparr>;
            b2 = hold (b1\<lparr>b_settleClose := False, b_closing := True\<rparr>)
        in if b_settleClose b \<or> \<not> b_closing b then b2\<lparr>b_closeDone := True\<rparr> else b2)"

text \<open>A failed completion; a callback that threw rejects its task with what it threw.\<close>

definition failure :: "'x callback option \<Rightarrow> jsstr option \<Rightarrow> jsv option \<Rightarrow> 'x task_failure" where
  "failure k error details =
     (case Option.bind k k_thrown of
        Some x \<Rightarrow> CallbackThrew x
      | None \<Rightarrow> TaskFailed (case error of None \<Rightarrow> js ''task failed'' | Some m \<Rightarrow> m) details)"

definition runHook :: "'x hook option \<Rightarrow> jsv \<Rightarrow> 'x bridge \<Rightarrow> 'x settlement \<times> 'x bridge" where
  "runHook hook v b =
     (case hook of
        None \<Rightarrow> (Resolved v, b)
      | Some h \<Rightarrow>
          let (observed, threw) = h v; b' = fold (\<lambda>(i, l). observe i l) observed b in
          (case threw of None \<Rightarrow> Resolved v | Some x \<Rightarrow> RejectedWith (HookThrew x), b'))"

datatype event =
    TaskOk nat jsv
  | TaskError nat "jsstr option" "jsv option"
  | Effect jsstr operation
  | RuntimeClosed
  | ObserverChanged jsstr jsv jsv
  | CancelEffect jsstr jsv
  | Other jsstr jsv

text \<open>
  \<open>#dispatch\<close>; \<open>Other\<close> are the events that are only emitted, and those of an unknown type,
  which nobody listens to.
\<close>

definition completed :: "nat \<Rightarrow> 'x bridge \<Rightarrow> ('x hook option \<times> 'x callback option) option \<times> 'x bridge" where
  "completed req b =
     (case settleRoute req b of
        (r, b1) \<Rightarrow>
          (map_option (\<lambda>hook. (hook, if req \<in> set (b_callbacks b1) \<or> req \<in> set (b_locals b1) then Some (b_objects b1 req) else None)) r,
           dropCallbacks req b1))"

fun dispatch :: "(nat \<Rightarrow> jsv \<Rightarrow> bool) \<Rightarrow> bool \<Rightarrow> event \<Rightarrow> 'x bridge \<Rightarrow> 'x bridge" where
  "dispatch throws refused (TaskOk req v) b =
     (case completed req b of
        (None, b1) \<Rightarrow> b1
      | (Some (hook, k), b1) \<Rightarrow> (case runHook hook v b1 of (r, b2) \<Rightarrow> settleWith req r b2))"
| "dispatch throws refused (TaskError req error details) b =
     (case completed req b of
        (None, b1) \<Rightarrow> b1
      | (Some (hook, k), b1) \<Rightarrow> settleWith req (RejectedWith (failure k error details)) b1)"
| "dispatch throws refused (Effect effectId op) b = effect throws refused effectId op b"
| "dispatch throws refused RuntimeClosed b = terminate b"
| "dispatch throws refused (ObserverChanged observerId s event) b =
     snapshot throws observerId s (emit throws (js ''observerChanged'') event b)"
| "dispatch throws refused (CancelEffect effectId event) b =
     emit throws (js ''cancelEffect'') event (cancelCallback effectId b)"
| "dispatch throws refused (Other t event) b = emit throws t event b"

text \<open>
  \<open>#drain\<close>: the batches the carrier hands over, until one is empty or the runtime ended; the
  rest of the batch that ends it is still dispatched.
\<close>

fun drain :: "(nat \<Rightarrow> jsv \<Rightarrow> bool) \<Rightarrow> (event \<Rightarrow> bool) \<Rightarrow> event list list \<Rightarrow> 'x bridge \<Rightarrow> 'x bridge" where
  "drain throws refused [] b = b"
| "drain throws refused (events # batches) b =
     (if b_closed b \<or> events = [] then b
      else drain throws refused batches (fold (\<lambda>e. dispatch throws (refused e) e) events b))"

definition close :: "bool \<Rightarrow> 'x bridge \<Rightarrow> 'x bridge" where
  "close refused b =
     (if b_closing b then b
      else if b_closed b then b\<lparr>b_closing := True, b_closeDone := True\<rparr>
      else
        let b1 = hold (b\<lparr>b_closing := True, b_settleClose := True\<rparr>) in
        if refused then b1 else b1\<lparr>b_sent := b_sent b1 @ [message ''close'' []]\<rparr>)"

definition open_bridge :: "(jsstr \<times> nat) list \<Rightarrow> (jsstr \<times> jsv) list \<Rightarrow> 'x option \<Rightarrow> 'x bridge" where
  "open_bridge installed request refuse =
     snd (route NoCallback
       (\<lambda>req. Obj (request @ [(js ''type'', Str (js ''open'')), (js ''protocol'', Num (JsInt 5)), (js ''requestId'', Str req)]))
       None refuse (fold (\<lambda>(kind, h). onEffect kind h) installed new_bridge))"

section \<open>Runs\<close>

text \<open>The public operations, the continuations of callbacks and the wakes, in any order.\<close>

inductive bstep :: "(nat \<Rightarrow> jsv \<Rightarrow> bool) \<Rightarrow> 'x bridge \<Rightarrow> 'x bridge \<Rightarrow> bool" for throws where
  submitted: "bstep throws b (snd (submitRouted g envelope hook refuse b))"
| answered: "bstep throws b (effectResult effectId outcome refused b)"
| began: "bstep throws b (snd (beginCallback req b))"
| finished: "req \<in> set (b_runs b) \<Longrightarrow> bstep throws b (endCallback req r refused b)"
| listening: "bstep throws b (on t l b)"
| unlistening: "bstep throws b (off t l b)"
| observing: "bstep throws b (observe i l b)"
| detaching: "bstep throws b (detach i l b)"
| installing: "bstep throws b (onEffect t l b)"
| removing: "bstep throws b (offEffect t l b)"
| woken: "bstep throws b (drain throws refusals batches b)"
| closing: "bstep throws b (close refused b)"

inductive breachable :: "(nat \<Rightarrow> jsv \<Rightarrow> bool) \<Rightarrow> 'x bridge \<Rightarrow> bool" for throws where
  opened: "breachable throws (open_bridge installed request refuse)"
| run: "breachable throws b \<Longrightarrow> bstep throws b b' \<Longrightarrow> breachable throws b'"

end
