(* ===== verification/BridgeSpec.thy ===== *)
theory BridgeSpec
  imports Bridge
begin

text \<open>
  What the bridge promises its callers: every request settles exactly once, at the latest
  when the runtime ends, the process is kept alive exactly while something is outstanding,
  and the body of a callback runs at most once and never after it was cancelled.
\<close>

section \<open>The invariant\<close>

abbreviation routed :: "'x bridge \<Rightarrow> nat set" where
  "routed b \<equiv> fst ` set (b_routes b)"

abbreviation settled :: "'x bridge \<Rightarrow> nat set" where
  "settled b \<equiv> fst ` set (b_settled b)"

text \<open>Requests: each one issued is either routed or settled, and settled once.\<close>

definition requests_ok :: "'x bridge \<Rightarrow> bool" where
  "requests_ok b =
     (mok (b_routes b) \<and> distinct (map fst (b_settled b)) \<and> routed b \<inter> settled b = {} \<and> routed b \<union> settled b = {1..b_issued b})"

text \<open>The end of the runtime, the promise of \<open>close\<close> and the timer.\<close>

definition ending_ok :: "'x bridge \<Rightarrow> bool" where
  "ending_ok b =
     (b_keepAlive b = (b_routes b \<noteq> [] \<or> b_settleClose b)
      \<and> (b_closed b \<longrightarrow> b_routes b = [] \<and> \<not> b_settleClose b \<and> b_closing b \<and> b_closeDone b)
      \<and> b_detached b = (if b_closed b then 1 else 0)
      \<and> (\<not> b_closed b \<longrightarrow> b_settleClose b = b_closing b))"

text \<open>Callbacks: those that wait are routed, and those that ran are marked.\<close>

definition callbacks_ok :: "'x bridge \<Rightarrow> bool" where
  "callbacks_ok b =
     (set (b_callbacks b) \<union> set (b_locals b) \<subseteq> routed b
      \<and> (\<forall>req. req \<notin> {1..b_issued b} \<longrightarrow> b_objects b req = new_callback)
      \<and> distinct (b_runs b) \<and> (\<forall>req \<in> set (b_runs b). k_begun (b_objects b req)))"

definition bridge_ok :: "'x bridge \<Rightarrow> bool" where
  "bridge_ok b = (requests_ok b \<and> ending_ok b \<and> callbacks_ok b)"

lemmas bridge_ok_defs = bridge_ok_def requests_ok_def ending_ok_def callbacks_ok_def

lemma mhas_routed: "mhas m req \<longleftrightarrow> req \<in> fst ` set m"
  by (simp add: mhas_def map_of_eq_None_iff)

text \<open>The fields no part of the invariant reads.\<close>

lemma bridge_ok_frame [simp]:
  "bridge_ok (b\<lparr>b_heard := hs\<rparr>) = bridge_ok b"
  "bridge_ok (b\<lparr>b_reported := n\<rparr>) = bridge_ok b"
  "bridge_ok (b\<lparr>b_sent := ms\<rparr>) = bridge_ok b"
  "bridge_ok (b\<lparr>b_listeners := ls\<rparr>) = bridge_ok b"
  "bridge_ok (b\<lparr>b_effects := es\<rparr>) = bridge_ok b"
  "bridge_ok (b\<lparr>b_observers := os\<rparr>) = bridge_ok b"
  by (simp_all add: bridge_ok_defs)

lemma ok_hear [simp]: "bridge_ok (hear throws v l b) = bridge_ok b"
  by (simp add: hear_def)

lemma ok_emit [simp]: "bridge_ok (emit throws t v b) = bridge_ok b"
proof -
  have "bridge_ok (fold (hear throws v) ls b) = bridge_ok b" for ls
    by (induction ls arbitrary: b) simp_all
  then show ?thesis by (simp add: emit_def)
qed

lemma ok_listeners [simp]:
  "bridge_ok (on t l b) = bridge_ok b" "bridge_ok (off t l b) = bridge_ok b"
  "bridge_ok (observe i l b) = bridge_ok b" "bridge_ok (detach i l b) = bridge_ok b"
  "bridge_ok (onEffect t l b) = bridge_ok b" "bridge_ok (offEffect t l b) = bridge_ok b"
  "bridge_ok (answer m refused b) = bridge_ok b" "bridge_ok (effectResult e m refused b) = bridge_ok b"
  by (simp_all add: on_def off_def observe_def detach_def onEffect_def offEffect_def answer_def effectResult_def split: option.splits)

lemma ok_snapshot [simp]: "bridge_ok (snapshot throws i s b) = bridge_ok b"
  by (simp add: snapshot_def split: option.splits)

lemma hold_eq: "hold b = b\<lparr>b_keepAlive := (b_routes b \<noteq> [] \<or> b_settleClose b)\<rparr>"
  by (auto simp: hold_def Let_def)

section \<open>Requests\<close>

lemma mdel_keys: "fst ` set (mdel k m) = fst ` set m - {k}"
  by (auto simp: AList.delete_eq)

text \<open>The state once the route of \<open>req\<close> is gone, and once its promise settled.\<close>

abbreviation unrouted :: "nat \<Rightarrow> 'x bridge \<Rightarrow> 'x bridge" where
  "unrouted req b \<equiv> dropCallbacks req (hold (b\<lparr>b_routes := mdel req (b_routes b)\<rparr>))"

lemma hold_id: "ending_ok b \<Longrightarrow> hold b = b"
  by (simp add: hold_eq ending_ok_def)

lemma unrouted_absent:
  assumes "bridge_ok b" and "req \<notin> routed b"
  shows "unrouted req b = b"
proof -
  have "mdel req (b_routes b) = b_routes b" using assms(2) by (intro mdel_absent) (simp add: map_of_eq_None_iff)
  moreover have "removeAll req (b_callbacks b) = b_callbacks b" "removeAll req (b_locals b) = b_locals b"
    using assms by (auto simp: bridge_ok_def callbacks_ok_def intro!: removeAll_id)
  ultimately show ?thesis using assms(1) by (simp add: hold_id bridge_ok_def dropCallbacks_def)
qed

lemma unrouted_simps [simp]:
  "b_routes (unrouted req b) = mdel req (b_routes b)"
  "b_issued (unrouted req b) = b_issued b" "b_settled (unrouted req b) = b_settled b"
  "b_objects (unrouted req b) = b_objects b" "b_runs (unrouted req b) = b_runs b"
  "b_closed (unrouted req b) = b_closed b" "b_closing (unrouted req b) = b_closing b"
  "b_closeDone (unrouted req b) = b_closeDone b" "b_detached (unrouted req b) = b_detached b"
  "b_settleClose (unrouted req b) = b_settleClose b"
  "b_keepAlive (unrouted req b) = (mdel req (b_routes b) \<noteq> [] \<or> b_settleClose b)"
  "b_callbacks (unrouted req b) = removeAll req (b_callbacks b)" "b_locals (unrouted req b) = removeAll req (b_locals b)"
  by (simp_all add: dropCallbacks_def hold_eq)

lemma ok_settled:
  assumes ok: "bridge_ok b" and req: "req \<in> routed b" and same: "b_settled t = b_settled b @ [(req, x)]"
    "b_routes t = mdel req (b_routes b)" "b_issued t = b_issued b" "b_objects t = b_objects b" "b_runs t = b_runs b"
    "b_closed t = b_closed b" "b_closing t = b_closing b" "b_closeDone t = b_closeDone b" "b_detached t = b_detached b"
    "b_settleClose t = b_settleClose b" "b_keepAlive t = (mdel req (b_routes b) \<noteq> [] \<or> b_settleClose b)"
    "b_callbacks t = removeAll req (b_callbacks b)" "b_locals t = removeAll req (b_locals b)"
  shows "bridge_ok t"
proof -
  have "requests_ok t" using ok req unfolding bridge_ok_def requests_ok_def same by (auto simp: mdel_keys map_simps)
  moreover have "ending_ok t" using ok req unfolding bridge_ok_def ending_ok_def same by auto
  moreover have "callbacks_ok t" using ok unfolding bridge_ok_def callbacks_ok_def same by (auto simp: mdel_keys)
  ultimately show ?thesis by (simp add: bridge_ok_def)
qed

lemma completed_eq:
  "completed req b =
     (map_option (\<lambda>hook. (hook, if req \<in> set (b_callbacks b) \<or> req \<in> set (b_locals b) then Some (b_objects b req) else None))
        (map_of (b_routes b) req), unrouted req b)"
  by (simp add: completed_def settleRoute_def hold_eq)

lemma completed_None: "bridge_ok b \<Longrightarrow> map_of (b_routes b) req = None \<Longrightarrow> completed req b = (None, b)"
  unfolding completed_eq by (subst unrouted_absent) (simp_all add: map_of_eq_None_iff)

lemma runHook_frame: "runHook hook v b = (r, b') \<Longrightarrow> \<exists>os. b' = b\<lparr>b_observers := os\<rparr>"
proof -
  have "\<exists>os. fold (\<lambda>(i, l). observe i l) ps b = b\<lparr>b_observers := os\<rparr>" for ps
  proof (induction ps arbitrary: b)
    case Nil
    show ?case by (simp add: exI [of _ "b_observers b"])
  next
    case (Cons p ps)
    show ?case using Cons [of "case p of (i, l) \<Rightarrow> observe i l b"] by (auto simp: observe_def split: prod.splits if_splits)
  qed
  moreover have "\<exists>os. b = b\<lparr>b_observers := os\<rparr>" by (rule exI [of _ "b_observers b"]) simp
  ultimately show "runHook hook v b = (r, b') \<Longrightarrow> ?thesis" by (auto simp: runHook_def Let_def split: option.splits prod.splits)
qed

lemma ok_task_ok: "bridge_ok b \<Longrightarrow> bridge_ok (dispatch throws refused (TaskOk req v) b)"
proof (cases "map_of (b_routes b) req")
  case None
  then show "bridge_ok b \<Longrightarrow> ?thesis" by (simp add: completed_None)
next
  case (Some hook)
  assume ok: "bridge_ok b"
  obtain r b2 where r: "runHook hook v (unrouted req b) = (r, b2)" by force
  obtain os where os: "b2 = (unrouted req b)\<lparr>b_observers := os\<rparr>" using runHook_frame [OF r] by blast
  have "bridge_ok (settleWith req r b2)"
    by (rule ok_settled [OF ok, of req _ r]) (use map_of_SomeD [OF Some] in \<open>force simp: os settleWith_def\<close>)+
  then show ?thesis using Some r by (simp add: completed_eq)
qed

lemma ok_task_error: "bridge_ok b \<Longrightarrow> bridge_ok (dispatch throws refused (TaskError req e d) b)"
proof (cases "map_of (b_routes b) req")
  case None
  then show "bridge_ok b \<Longrightarrow> ?thesis" by (simp add: completed_None)
next
  case (Some hook)
  assume ok: "bridge_ok b"
  have "bridge_ok (settleWith req r (unrouted req b))" for r
    by (rule ok_settled [OF ok, of req _ r]) (use map_of_SomeD [OF Some] in \<open>force simp: settleWith_def\<close>)+
  then show ?thesis using Some by (simp add: completed_eq)
qed

text \<open>Issuing a request: the new route, and the same state when its admission failed.\<close>

lemma ok_issued:
  assumes ok: "bridge_ok b" and live: "\<not> b_closed b" and t: "b_issued t = Suc (b_issued b)"
    "b_routes t = mput (Suc (b_issued b)) hook (b_routes b)" "b_keepAlive t" "b_settled t = b_settled b"
    "b_closed t = b_closed b" "b_closing t = b_closing b" "b_closeDone t = b_closeDone b" "b_detached t = b_detached b"
    "b_settleClose t = b_settleClose b" "b_runs t = b_runs b"
    "\<forall>req. req \<noteq> Suc (b_issued b) \<longrightarrow> b_objects t req = b_objects b req"
    "set (b_callbacks t) \<union> set (b_locals t) \<subseteq> insert (Suc (b_issued b)) (set (b_callbacks b) \<union> set (b_locals b))"
  shows "bridge_ok t"
proof -
  have r: "routed b \<union> settled b = {1..b_issued b}" "routed b \<inter> settled b = {}" using ok by (simp_all add: bridge_ok_def requests_ok_def)
  then have fresh: "Suc (b_issued b) \<notin> settled b" by (metis Un_iff atLeastAtMost_iff not_less_eq_eq order_refl)
  have "requests_ok t" unfolding requests_ok_def t mput_keys
    using ok r fresh by (auto simp: bridge_ok_def requests_ok_def map_simps)
  moreover have "b_routes t \<noteq> []" unfolding t by (metis AList.update_nonempty)
  then have "ending_ok t" using ok live t(3,5-9) by (simp add: bridge_ok_def ending_ok_def)
  moreover have "callbacks_ok t"
  proof -
    have new: "b_objects b (Suc (b_issued b)) = new_callback" and c: "set (b_callbacks b) \<union> set (b_locals b) \<subseteq> routed b"
      and old: "\<And>req. req \<notin> {1..b_issued b} \<Longrightarrow> b_objects b req = new_callback"
      and runs: "distinct (b_runs b)" "\<And>req. req \<in> set (b_runs b) \<Longrightarrow> k_begun (b_objects b req)"
      using ok by (auto simp: bridge_ok_def callbacks_ok_def)
    have "Suc (b_issued b) \<notin> set (b_runs b)" using runs(2) [of "Suc (b_issued b)"] new by (auto simp: new_callback_def)
    then have "k_begun (b_objects t req)" if "req \<in> set (b_runs b)" for req using that t(11) runs(2) by metis
    moreover have "b_objects t req = new_callback" if "req \<notin> {1..Suc (b_issued b)}" for req
      using that t(11) old [of req] by (metis atLeastAtMost_iff le_Suc_eq order_refl less_eq_Suc_le zero_less_Suc One_nat_def Suc_le_mono le0)
    moreover have "set (b_callbacks t) \<union> set (b_locals t) \<subseteq> insert (Suc (b_issued b)) (routed b)" using t(12) c by blast
    ultimately show ?thesis unfolding callbacks_ok_def t mput_keys using runs(1) by blast
  qed
  ultimately show ?thesis by (simp add: bridge_ok_def)
qed

lemma registerCallback_simps [simp]:
  "b_issued (registerCallback g req b) = b_issued b" "b_routes (registerCallback g req b) = b_routes b"
  "b_keepAlive (registerCallback g req b) = b_keepAlive b" "b_settled (registerCallback g req b) = b_settled b"
  "b_closed (registerCallback g req b) = b_closed b" "b_closing (registerCallback g req b) = b_closing b"
  "b_closeDone (registerCallback g req b) = b_closeDone b" "b_detached (registerCallback g req b) = b_detached b"
  "b_settleClose (registerCallback g req b) = b_settleClose b" "b_runs (registerCallback g req b) = b_runs b"
  "r \<noteq> req \<Longrightarrow> b_objects (registerCallback g req b) r = b_objects b r"
  "set (b_callbacks (registerCallback g req b)) \<union> set (b_locals (registerCallback g req b))
     \<subseteq> insert req (set (b_callbacks b) \<union> set (b_locals b))"
  by (auto simp: registerCallback_def split: registers.splits)

lemma ok_route:
  assumes "bridge_ok b" and "\<not> b_closed b"
  shows "bridge_ok (snd (route g envelope hook refuse b))"
proof -
  let ?req = "Suc (b_issued b)"
  define t where "t = registerCallback g ?req (hold (b\<lparr>b_issued := ?req, b_routes := mput ?req hook (b_routes b)\<rparr>))"
  have ne: "mput ?req hook (b_routes b) \<noteq> []" by (metis AList.update_nonempty)
  have t: "bridge_ok t"
    by (rule ok_issued [OF assms, of t hook])
       (use ne registerCallback_simps(12) [of g ?req "hold (b\<lparr>b_issued := ?req, b_routes := mput ?req hook (b_routes b)\<rparr>)"]
        in \<open>simp_all add: t_def hold_eq\<close>)
  show ?thesis
  proof (cases refuse)
    case None
    then show ?thesis using t by (simp add: route_def Let_def t_def)
  next
    case (Some e)
    have m: "map_of (b_routes t) ?req = Some hook" by (simp add: t_def hold_eq map_simps)
    then have q: "?req \<in> routed t" by (force dest: map_of_SomeD)
    have "bridge_ok (dropCallbacks ?req (settleWith ?req (RejectedWith (Refused e)) (hold (t\<lparr>b_routes := mdel ?req (b_routes t)\<rparr>))))"
      by (rule ok_settled [OF t q, of _ "RejectedWith (Refused e)"]) (simp_all add: settleWith_def dropCallbacks_def hold_eq)
    moreover have "snd (route g envelope hook refuse b) =
        dropCallbacks ?req (settleWith ?req (RejectedWith (Refused e)) (hold (t\<lparr>b_routes := mdel ?req (b_routes t)\<rparr>)))"
      unfolding route_def Let_def settleRoute_def t_def [symmetric] Some using m by simp
    ultimately show ?thesis by simp
  qed
qed

lemma ok_submit: "bridge_ok b \<Longrightarrow> bridge_ok (snd (submitRouted g envelope hook refuse b))"
  using ok_route [of b] by (simp add: submitRouted_def case_prod_beta)

section \<open>Callbacks and the end\<close>

lemma ok_objects:
  assumes "bridge_ok b" and "\<And>req. req \<notin> {1..b_issued b} \<Longrightarrow> f req = new_callback"
    and "\<And>req. k_begun (b_objects b req) \<Longrightarrow> k_begun (f req)"
  shows "bridge_ok (b\<lparr>b_objects := f\<rparr>)"
  using assms by (auto simp: bridge_ok_defs)

lemma ok_waiting: "bridge_ok b \<Longrightarrow> req \<in> set (b_callbacks b) \<union> set (b_locals b) \<Longrightarrow> req \<in> {1..b_issued b}"
  by (auto simp: bridge_ok_def callbacks_ok_def requests_ok_def)

lemma ok_untouched: "bridge_ok b \<Longrightarrow> req \<notin> {1..b_issued b} \<Longrightarrow> b_objects b req = new_callback"
  by (simp add: bridge_ok_def callbacks_ok_def)

lemma ok_start:
  assumes "bridge_ok b" and "req \<in> set (b_callbacks b) \<union> set (b_locals b)"
  shows "bridge_ok (startCallback req e t c b)"
  unfolding startCallback_def Let_def
  by (rule ok_objects [OF assms(1)]) (use ok_waiting [OF assms] ok_untouched [OF assms(1)] in \<open>auto split: if_splits\<close>)

lemma ok_cancel:
  assumes "bridge_ok b"
  shows "bridge_ok (cancelCallback e b)"
  unfolding cancelCallback_def Let_def
  by (rule ok_objects [OF assms]) (use ok_waiting [OF assms] ok_untouched [OF assms] in \<open>auto split: if_splits\<close>)

lemma ok_effect: "bridge_ok b \<Longrightarrow> bridge_ok (effect throws refused e op b)"
  by (auto simp: effect_def ok_start split: operation.splits option.splits)

lemma ok_begin: "bridge_ok b \<Longrightarrow> bridge_ok (snd (beginCallback req b))"
proof -
  assume ok: "bridge_ok b"
  let ?k = "b_objects b req"
  have "bridge_ok (b\<lparr>b_objects := (b_objects b)(req := ?k\<lparr>k_begun := True\<rparr>)\<rparr>)" if "k_started ?k \<noteq> None"
    by (rule ok_objects [OF ok]) (use that ok_untouched [OF ok] in \<open>auto simp: new_callback_def split: if_splits\<close>)
  moreover have "req \<notin> set (b_runs b)" if "\<not> k_begun ?k" using ok that by (auto simp: bridge_ok_def callbacks_ok_def)
  ultimately show ?thesis using ok by (auto simp: beginCallback_def Let_def bridge_ok_defs split: if_splits)
qed

lemma ok_finish: "bridge_ok b \<Longrightarrow> bridge_ok (endCallback req r refused b)"
proof -
  assume ok: "bridge_ok b"
  have "bridge_ok (b\<lparr>b_objects := (b_objects b)(req := (b_objects b req)\<lparr>k_thrown := Some x\<rparr>)\<rparr>)"
    if "k_started (b_objects b req) \<noteq> None" for x
    by (rule ok_objects [OF ok]) (use that ok_untouched [OF ok] in \<open>auto simp: new_callback_def split: if_splits\<close>)
  then show ?thesis using ok by (auto simp: endCallback_def split: option.splits sum.splits)
qed

lemma terminate_live:
  "\<not> b_closed b \<Longrightarrow> bridge_ok b \<Longrightarrow> terminate b =
     b\<lparr>b_closed := True, b_routes := [], b_callbacks := [], b_locals := [], b_observers := [],
       b_settled := b_settled b @ map (\<lambda>p. (fst p, RejectedWith ClientClosed)) (b_routes b),
       b_detached := 1, b_settleClose := False, b_closing := True, b_keepAlive := False, b_closeDone := True\<rparr>"
  by (auto simp: terminate_def Let_def hold_eq case_prod_beta bridge_ok_def ending_ok_def)

lemma ok_terminate: "bridge_ok b \<Longrightarrow> bridge_ok (terminate b)"
proof (cases "b_closed b")
  case False
  assume ok: "bridge_ok b"
  have s: "settled (terminate b) = settled b \<union> routed b" "map fst (b_settled (terminate b)) = map fst (b_settled b) @ map fst (b_routes b)"
    unfolding terminate_live [OF False ok] by (simp_all add: image_Un image_image comp_def)
  have "b_routes (terminate b) = []" "b_issued (terminate b) = b_issued b" unfolding terminate_live [OF False ok] by simp_all
  then have "requests_ok (terminate b)" unfolding requests_ok_def s
    using ok by (auto simp: bridge_ok_def requests_ok_def)
  moreover have "ending_ok (terminate b)" unfolding terminate_live [OF False ok] by (simp add: ending_ok_def)
  moreover have "callbacks_ok (terminate b)" unfolding terminate_live [OF False ok]
    using ok by (simp add: bridge_ok_def callbacks_ok_def)
  ultimately show ?thesis by (simp add: bridge_ok_def)
qed (simp add: terminate_def)

lemma ok_dispatch: "bridge_ok b \<Longrightarrow> bridge_ok (dispatch throws refused e b)"
proof (cases e)
  case (TaskOk req v)
  then show "bridge_ok b \<Longrightarrow> ?thesis" using ok_task_ok by blast
next
  case (TaskError req m d)
  then show "bridge_ok b \<Longrightarrow> ?thesis" using ok_task_error by blast
qed (simp_all add: ok_effect ok_terminate ok_cancel)

lemma ok_batch: "bridge_ok b \<Longrightarrow> bridge_ok (fold (\<lambda>e. dispatch throws (refused e) e) es b)"
  by (induction es arbitrary: b) (simp_all add: ok_dispatch)

lemma ok_drain: "bridge_ok b \<Longrightarrow> bridge_ok (drain throws refused batches b)"
  by (induction throws refused batches b rule: drain.induct) (simp_all add: ok_batch)

lemma ok_close: "bridge_ok b \<Longrightarrow> bridge_ok (close refused b)"
  by (auto simp: close_def Let_def hold_eq bridge_ok_defs)

inductive_cases bstepE: "bstep throws b b'"

lemma ok_step: "bstep throws b b' \<Longrightarrow> bridge_ok b \<Longrightarrow> bridge_ok b'"
  by (elim bstepE) (simp_all add: ok_submit ok_begin ok_finish ok_drain ok_close)

lemma ok_open: "bridge_ok (open_bridge installed request refuse)"
proof -
  have "bridge_ok new_bridge" by (simp add: new_bridge_def bridge_ok_defs)
  moreover have "\<not> b_closed (new_bridge :: 'a bridge)" by (simp add: new_bridge_def)
  moreover have "bridge_ok b \<Longrightarrow> \<not> b_closed b \<Longrightarrow>
      bridge_ok (fold (\<lambda>(kind, h). onEffect kind h) installed b) \<and> \<not> b_closed (fold (\<lambda>(kind, h). onEffect kind h) installed b)"
    for b :: "'a bridge"
    by (induction installed arbitrary: b) (auto simp: onEffect_def split: prod.splits)
  ultimately show ?thesis unfolding open_bridge_def using ok_route by blast
qed

lemma ok_reachable: "breachable throws b \<Longrightarrow> bridge_ok b"
  by (induction rule: breachable.induct) (auto simp: ok_open ok_step)

section \<open>Callbacks that must not run\<close>

text \<open>A callback that has not run and never will: its continuation passed, it was cancelled or its task settled.\<close>

definition barred :: "nat \<Rightarrow> 'x bridge \<Rightarrow> bool" where
  "barred req b =
     (req \<in> {1..b_issued b} \<and> req \<notin> set (b_runs b)
      \<and> (k_begun (b_objects b req) \<or> k_cancelled (b_objects b req) \<or> req \<notin> routed b))"

text \<open>Every operation but the continuation keeps what \<open>barred\<close> reads, or moves it one way.\<close>

definition moves :: "nat \<Rightarrow> 'x bridge \<Rightarrow> 'x bridge \<Rightarrow> bool" where
  "moves req b b' =
     (b_issued b \<le> b_issued b' \<and> b_runs b' = b_runs b
      \<and> (k_begun (b_objects b req) \<longrightarrow> k_begun (b_objects b' req)) \<and> (k_cancelled (b_objects b req) \<longrightarrow> k_cancelled (b_objects b' req))
      \<and> (req \<in> routed b' \<longrightarrow> req \<in> routed b))"

lemma moves_barred: "moves req b b' \<Longrightarrow> barred req b \<Longrightarrow> barred req b'"
  by (auto simp: moves_def barred_def)

lemma moves_trans: "moves req a b \<Longrightarrow> moves req b c \<Longrightarrow> moves req a c"
  by (auto simp: moves_def)

lemma moves_refl [simp]: "moves req b b"
  by (simp add: moves_def)

lemma moves_same:
  "b_issued b' = b_issued b \<Longrightarrow> b_runs b' = b_runs b \<Longrightarrow> b_objects b' = b_objects b \<Longrightarrow> routed b' \<subseteq> routed b \<Longrightarrow> moves req b b'"
  by (auto simp: moves_def)

lemma moves_hear [simp]: "moves req b (hear throws v l b)"
  by (simp add: moves_def hear_def)

lemma moves_emit [simp]: "moves req b (emit throws t v b)"
proof -
  have "moves req b (fold (hear throws v) ls b)" for ls
  proof (induction ls arbitrary: b)
    case (Cons l ls)
    show ?case using moves_trans [OF moves_hear Cons] by simp
  qed simp
  then show ?thesis by (simp add: emit_def)
qed

lemma moves_listeners [simp]:
  "moves req b (on t l b)" "moves req b (off t l b)" "moves req b (observe i l b)" "moves req b (detach i l b)"
  "moves req b (onEffect t l b)" "moves req b (offEffect t l b)" "moves req b (answer m refused b)"
  "moves req b (effectResult e m refused b)"
  by (simp_all add: moves_def on_def off_def observe_def detach_def onEffect_def offEffect_def answer_def effectResult_def
      split: option.splits)

lemma moves_unrouted: "moves req b (unrouted req' b)"
  by (rule moves_same) (auto simp: mdel_keys)

lemma moves_settleWith [simp]: "moves req b (settleWith req' r b')= moves req b b'"
  by (simp add: moves_def settleWith_def)

lemma moves_observers [simp]: "moves req b (b'\<lparr>b_observers := os\<rparr>) = moves req b b'"
  by (simp add: moves_def)

lemma moves_dispatch: "moves req b (dispatch throws refused e b)"
proof (cases e)
  case (TaskOk q v)
  show ?thesis
  proof (cases "map_of (b_routes b) q")
    case None
    then show ?thesis using TaskOk by (simp add: completed_eq moves_unrouted del: unrouted_simps)
  next
    case (Some hook)
    obtain r b2 where r: "runHook hook v (unrouted q b) = (r, b2)" by force
    obtain os where os: "b2 = (unrouted q b)\<lparr>b_observers := os\<rparr>" using runHook_frame [OF r] by blast
    show ?thesis using TaskOk Some r by (simp add: completed_eq os moves_unrouted)
  qed
next
  case (TaskError q m d)
  then show ?thesis by (cases "map_of (b_routes b) q") (simp_all add: completed_eq moves_unrouted)
next
  case (Effect i op)
  have "moves req b (startCallback q x y z b)" for q x y z by (simp add: moves_def startCallback_def Let_def)
  then show ?thesis using Effect by (auto simp: effect_def split: operation.splits option.splits)
next
  case RuntimeClosed
  then show ?thesis by (auto simp: terminate_def Let_def hold_eq moves_def)
next
  case (ObserverChanged i s v)
  have "moves req b' (snapshot throws i s b')" for b'
    by (auto simp: snapshot_def hear_def moves_def split: option.splits)
  then show ?thesis using ObserverChanged moves_trans [OF moves_emit] by fastforce
next
  case (CancelEffect i v)
  have "moves req b (cancelCallback i b)" by (simp add: moves_def cancelCallback_def Let_def)
  then show ?thesis using CancelEffect moves_trans [OF _ moves_emit] by simp
qed simp

lemma moves_batch: "moves req b (fold (\<lambda>e. dispatch throws (refused e) e) es b)"
proof (induction es arbitrary: b)
  case (Cons e es)
  show ?case using moves_trans [OF moves_dispatch Cons] by simp
qed simp

lemma moves_drain: "moves req b (drain throws refused batches b)"
proof (induction throws refused batches b rule: drain.induct)
  case (2 throws refused events batches b)
  show ?case
  proof (cases "b_closed b \<or> events = []")
    case False
    from moves_trans [OF moves_batch 2 [OF False]] show ?thesis using False by simp
  qed simp
qed simp

lemma moves_submit:
  assumes "req \<in> {1..b_issued b}"
  shows "moves req b (snd (submitRouted g envelope hook refuse b))"
proof -
  have ne: "req \<noteq> Suc (b_issued b)" using assms by auto
  have "moves req b (snd (route g envelope hook refuse b))"
    using ne by (auto simp: route_def Let_def hold_eq settleRoute_def settleWith_def dropCallbacks_def moves_def mput_keys mdel_keys
        split: option.splits)
  then show ?thesis by (simp add: submitRouted_def case_prod_beta)
qed

lemma barred_step:
  assumes "bstep throws b b'" and "barred req b"
  shows "barred req b'"
proof -
  have i: "req \<in> {1..b_issued b}" using assms(2) by (simp add: barred_def)
  show ?thesis using assms(1)
  proof (cases rule: bstep.cases)
    case (submitted g envelope hook refuse)
    then show ?thesis using moves_barred [OF moves_submit [OF i] assms(2)] by simp
  next
    case (began q)
    show ?thesis using assms(2) unfolding began beginCallback_def Let_def barred_def by (auto simp: mhas_routed)
  next
    case (finished q r refused)
    have "moves req b (endCallback q r refused b)"
      by (auto simp: endCallback_def answer_def moves_def split: option.splits sum.splits)
    then show ?thesis using finished moves_barred assms(2) by blast
  next
    case (closing refused)
    have "moves req b (close refused b)" by (simp add: close_def Let_def hold_eq moves_def)
    then show ?thesis using closing moves_barred assms(2) by blast
  qed (use moves_barred assms(2) moves_drain in \<open>metis moves_listeners\<close>)+
qed

lemma barred_run: "(bstep throws)\<^sup>*\<^sup>* b b' \<Longrightarrow> barred req b \<Longrightarrow> barred req b'"
  by (induction rule: rtranclp_induct) (auto intro: barred_step)

section \<open>Properties\<close>

text \<open>
  C6: Every request the bridge issued is routed or settled, never both, and settled at most
  once; the process is kept alive exactly while a route or the close is outstanding, and the
  carrier is detached once, with nothing left routed.
\<close>

theorem request_settles_once:
  assumes "breachable throws b"
  shows "distinct (map fst (b_settled b))
     \<and> {1..b_issued b} = fst ` set (b_routes b) \<union> fst ` set (b_settled b)
     \<and> fst ` set (b_routes b) \<inter> fst ` set (b_settled b) = {}
     \<and> b_keepAlive b = (b_routes b \<noteq> [] \<or> b_settleClose b)
     \<and> b_detached b = (if b_closed b then 1 else 0) \<and> (b_closed b \<longrightarrow> b_routes b = [] \<and> \<not> b_keepAlive b)"
  using ok_reachable [OF assms] by (auto simp: bridge_ok_def requests_ok_def ending_ok_def)

text \<open>
  C31: When the runtime ends, every request still outstanding is rejected as closed, every
  request ever issued is settled, the promise of close is resolved and later submissions
  are refused.
\<close>

theorem runtime_end_settles_everything:
  assumes "breachable throws b" and "\<not> b_closed b" and "t = dispatch throws refused RuntimeClosed b"
  shows "b_settled t = b_settled b @ map (\<lambda>p. (fst p, RejectedWith ClientClosed)) (b_routes b)
     \<and> fst ` set (b_settled t) = {1..b_issued b}
     \<and> b_closeDone t \<and> \<not> b_keepAlive t
     \<and> submitRouted g envelope hook refuse t = (Inl ClientClosed, t)"
proof -
  have ok: "bridge_ok b" using assms(1) by (rule ok_reachable)
  have t: "t = terminate b" using assms(3) by simp
  have "requests_ok t" "b_routes t = []" "b_issued t = b_issued b"
    using ok_terminate [OF ok] unfolding t terminate_live [OF assms(2) ok] by (simp_all add: bridge_ok_def)
  then have "fst ` set (b_settled t) = {1..b_issued b}" by (simp add: requests_ok_def)
  then show ?thesis unfolding t terminate_live [OF assms(2) ok] by (simp add: submitRouted_def)
qed


section \<open>Witnesses\<close>

text \<open>An opened bridge with a transaction whose callback was asked for and cancelled.\<close>

abbreviation quiet :: "nat \<Rightarrow> jsv \<Rightarrow> bool" where
  "quiet \<equiv> \<lambda>_ _. False"

definition ex_bridge :: "nat bridge" where
  "ex_bridge = drain quiet (\<lambda>_. False)
     [[TaskOk 1 Null, Effect (js ''e'') (AskCallback 2 (js ''t'')), CancelEffect (js ''e'') Null]]
     (snd (submitRouted TransactionCallback Str None None (open_bridge [] [] None)))"

lemma ex_bridge_reachable: "breachable quiet ex_bridge"
  unfolding ex_bridge_def
  by (intro breachable.run [OF _ bstep.woken] breachable.run [OF breachable.opened bstep.submitted])

lemmas bridge_run = ex_bridge_def open_bridge_def submitRouted_def route_def hold_def registerCallback_def new_bridge_def
  new_callback_def completed_def settleRoute_def dropCallbacks_def settleWith_def runHook_def effect_def startCallback_def
  cancelCallback_def emit_def beginCallback_def mhas_def sadd_def Let_def

lemma ex_bridge_state:
  "b_issued ex_bridge = 2" "b_routes ex_bridge = [(2, None)]" "b_settled ex_bridge = [(1, Resolved Null)]"
  "b_runs ex_bridge = []" "k_cancelled (b_objects ex_bridge 2)" "\<not> b_closed ex_bridge" "\<not> b_settleClose ex_bridge"
  by (simp_all add: bridge_run numeral_2_eq_2)

theorem request_settles_once_witness: "b_keepAlive ex_bridge \<and> b_detached ex_bridge = 0"
  using request_settles_once [OF ex_bridge_reachable] by (simp add: ex_bridge_state)

theorem runtime_end_settles_everything_witness:
  "b_settled (dispatch quiet False RuntimeClosed ex_bridge) = [(1, Resolved Null), (2, RejectedWith ClientClosed)]"
  using runtime_end_settles_everything [OF ex_bridge_reachable _ refl, of False] by (simp add: ex_bridge_state)


end
