(* ===== verification/Executor.thy ===== *)
theory Executor
  imports Bridge
begin

text \<open>
  \<^verbatim>\<open>packages/frontend/client-js/bindings/connection.mts\<close>: the effect executor of the SDK. The runtime
  asks for platform work as effects; \<open>Effects\<close> runs each, keeps how to abort it until its
  final answer, and silences what comes after a cancellation. A connection installs the
  effects of its server and removes them again.

  Functions installed on the bridge are numbers, as in the model of the bridge; \<open>e_handlers\<close>
  says which handler of the executor a number is. Platform work - a timer, a request, a
  socket, a run of an application's handler - is a job, which the platform settles later.
  \<open>refused\<close> says that the carrier refused the answer, and \<open>opened\<close> what the network did while
  \<open>open\<close> ran: the events it reported and what it threw. \<open>e_asked\<close>, \<open>e_answered\<close>,
  \<open>e_cancelled\<close> and \<open>e_aborted\<close> record what happened.
\<close>

section \<open>Outcomes\<close>

text \<open>What the executor reads of a thrown value; its text is \<open>None\<close> when even \<open>String\<close> throws.\<close>

record thrown_value =
  tv_error :: bool
  tv_message :: jsstr
  tv_text :: "jsstr option"
  tv_status :: jsv
  tv_refusal :: jsv
  tv_retry :: bool

definition reason :: "thrown_value \<Rightarrow> jsstr" where
  "reason t =
     (if tv_error t \<and> tv_message t \<noteq> [] then tv_message t
      else case tv_text t of Some s \<Rightarrow> s | None \<Rightarrow> js ''failed'')"

definition errorOutcome :: "(jsstr \<times> jsv) list \<Rightarrow> jsv" where
  "errorOutcome fs = Obj [(js ''ok'', Bool False), (js ''error'', Obj fs)]"

definition failure :: "thrown_value \<Rightarrow> jsv" where
  "failure t =
     errorOutcome
       ((js ''message'', Str (reason t))
        # (case tv_status t of Num n \<Rightarrow> [(js ''status'', Num n)] | _ \<Rightarrow> [])
        @ (case tv_refusal t of Str s \<Rightarrow> [(js ''refusal'', Str s)] | _ \<Rightarrow> []))"

definition okOutcome :: "(jsstr \<times> jsv) list \<Rightarrow> jsv" where
  "okOutcome fs = Obj ((js ''ok'', Bool True) # fs)"

definition MAX_DELAY :: int where
  "MAX_DELAY = 2147483647"

definition directTimeout :: "jsv \<Rightarrow> int option" where
  "directTimeout directTimeoutMs =
     (case (if nullish directTimeoutMs then Num (JsInt 30000) else directTimeoutMs) of
        Num (JsInt n) \<Rightarrow> if \<not> safe_int n \<or> n \<le> 0 \<or> MAX_DELAY < n then None else Some n
      | _ \<Rightarrow> None)"

section \<open>State\<close>

datatype handler = TimerEffect | HttpEffect | SocketEffect | RefreshEffect | PrerequisiteEffect

datatype job = Timer int | Request | Socket | Refresh | Prerequisite jsstr

record entry =
  en_owner :: nat
  en_abort :: "nat option"

record 'x executor =
  e_bridge :: "'x bridge"
  e_prerequisites :: "jsstr list"
  e_handlers :: "(nat, nat \<times> handler) jsmap"
  e_running :: "(jsstr, entry) jsmap"
  e_jobs :: "(nat, jsstr \<times> job) jsmap"
  e_fresh :: nat
  e_asked :: "jsstr list"
  e_answered :: "(jsstr \<times> jsv \<times> bool) list"
  e_cancelled :: "jsstr list"
  e_aborted :: "nat list"

section \<open>Effects\<close>

definition answer :: "bool \<Rightarrow> jsstr \<Rightarrow> jsv \<Rightarrow> bool \<Rightarrow> 'x executor \<Rightarrow> bool \<times> 'x executor" where
  "answer refused effectId outcome final e =
     (if \<not> mhas (e_running e) effectId then (False, e)
      else (True,
        e\<lparr>e_running := (if final then mdel effectId (e_running e) else e_running e),
          e_bridge := effectResult effectId outcome refused (e_bridge e),
          e_answered := e_answered e @ [(effectId, outcome, final)]\<rparr>))"

text \<open>An abort clears a timer; the others signal work that may still settle.\<close>

definition abortJob :: "nat \<Rightarrow> 'x executor \<Rightarrow> 'x executor" where
  "abortJob n e =
     (case map_of (e_jobs e) n of
        Some (_, Timer _) \<Rightarrow> e\<lparr>e_jobs := mdel n (e_jobs e)\<rparr>
      | _ \<Rightarrow> e\<lparr>e_aborted := e_aborted e @ [n]\<rparr>)"

definition cancel :: "jsstr \<Rightarrow> 'x executor \<Rightarrow> 'x executor" where
  "cancel effectId e =
     (case map_of (e_running e) effectId of
        None \<Rightarrow> e
      | Some en \<Rightarrow>
          let e1 = e\<lparr>e_running := mdel effectId (e_running e), e_cancelled := e_cancelled e @ [effectId]\<rparr> in
          (case en_abort en of None \<Rightarrow> e1 | Some n \<Rightarrow> abortJob n e1))"

definition abort :: "nat \<Rightarrow> 'x executor \<Rightarrow> 'x executor" where
  "abort owner e = fold (\<lambda>(effectId, en) e. if en_owner en = owner then cancel effectId e else e) (e_running e) e"

definition newJob :: "jsstr \<Rightarrow> job \<Rightarrow> 'x executor \<Rightarrow> 'x executor" where
  "newJob effectId j e = e\<lparr>e_jobs := mput (e_fresh e) (effectId, j) (e_jobs e), e_fresh := Suc (e_fresh e)\<rparr>"

definition setAbort :: "jsstr \<Rightarrow> nat \<Rightarrow> 'x executor \<Rightarrow> 'x executor" where
  "setAbort effectId n e =
     (case map_of (e_running e) effectId of
        None \<Rightarrow> e
      | Some en \<Rightarrow> e\<lparr>e_running := mput effectId (en\<lparr>en_abort := Some n\<rparr>) (e_running e)\<rparr>)"

datatype socket_event = Message jsstr | Overflow | SocketEnded thrown_value

definition frame :: "(jsstr \<times> jsv) list \<Rightarrow> jsv" where
  "frame fs = okOutcome [(js ''value'', Obj fs)]"

definition socketEvent :: "bool \<Rightarrow> jsstr \<Rightarrow> socket_event \<Rightarrow> 'x executor \<Rightarrow> 'x executor" where
  "socketEvent refused effectId ev e =
     snd (case ev of
       Message body \<Rightarrow> answer refused effectId (frame [(js ''event'', Str (js ''message'')), (js ''body'', Str body)]) False e
     | Overflow \<Rightarrow> answer refused effectId (frame [(js ''event'', Str (js ''overflow''))]) False e
     | SocketEnded t \<Rightarrow> answer refused effectId (failure t) True e)"

text \<open>
  The function \<open>handle\<close> installs, with the \<open>run\<close> of each kind: the effect is running before
  its work starts, and a throw is its failure.
\<close>

definition millisOf :: "jsv \<Rightarrow> int" where
  "millisOf op = (case field op (js ''millis'') of Num (JsInt n) \<Rightarrow> n | _ \<Rightarrow> 0)"

definition nameOf :: "jsv \<Rightarrow> jsstr" where
  "nameOf op = (case field op (js ''name'') of Str s \<Rightarrow> s | _ \<Rightarrow> [])"

definition jobOf :: "handler \<Rightarrow> jsv \<Rightarrow> job" where
  "jobOf h op =
     (case h of
        TimerEffect \<Rightarrow> Timer (min (millisOf op) MAX_DELAY)
      | HttpEffect \<Rightarrow> Request
      | SocketEffect \<Rightarrow> Socket
      | RefreshEffect \<Rightarrow> Refresh
      | PrerequisiteEffect \<Rightarrow> Prerequisite (nameOf op))"

definition handle ::
  "bool \<Rightarrow> socket_event list \<times> thrown_value option \<Rightarrow> nat \<Rightarrow> handler \<Rightarrow> jsstr \<Rightarrow> jsv \<Rightarrow> 'x executor \<Rightarrow> 'x executor" where
  "handle refused opened owner h effectId op e =
     (let n = e_fresh e;
          e1 = newJob effectId (jobOf h op)
                 (e\<lparr>e_running := mput effectId \<lparr>en_owner = owner, en_abort = None\<rparr> (e_running e), e_asked := e_asked e @ [effectId]\<rparr>)
      in case h of
           RefreshEffect \<Rightarrow> e1
         | SocketEffect \<Rightarrow>
             let e2 = fold (socketEvent refused effectId) (fst opened) e1 in
             (case snd opened of
                None \<Rightarrow> setAbort effectId n e2
              | Some t \<Rightarrow> snd (answer refused effectId (failure t) True e2))
         | _ \<Rightarrow> setAbort effectId n e1)"

text \<open>The bridge dispatches an effect to the handler its kind has, and a cancellation to the listener.\<close>

definition effectAsked ::
  "(nat \<Rightarrow> jsv \<Rightarrow> bool) \<Rightarrow> bool \<Rightarrow> socket_event list \<times> thrown_value option \<Rightarrow> jsstr \<Rightarrow> jsstr \<Rightarrow> jsv \<Rightarrow> 'x executor \<Rightarrow> 'x executor" where
  "effectAsked throws refused opened effectId kind op e =
     (let e1 = e\<lparr>e_bridge := effect throws refused effectId (AskOther kind op) (e_bridge e)\<rparr> in
      case Option.bind (map_of (b_effects (e_bridge e)) kind) (map_of (e_handlers e)) of
        None \<Rightarrow> e1
      | Some (owner, h) \<Rightarrow> handle refused opened owner h effectId op e1)"

definition effectCancelled :: "(nat \<Rightarrow> jsv \<Rightarrow> bool) \<Rightarrow> jsstr \<Rightarrow> jsv \<Rightarrow> 'x executor \<Rightarrow> 'x executor" where
  "effectCancelled throws effectId event e =
     cancel effectId (e\<lparr>e_bridge := dispatch throws False (CancelEffect effectId event) (e_bridge e)\<rparr>)"

text \<open>A prerequisite without a handler fails before the application is asked.\<close>

definition missingHandler :: thrown_value where
  "missingHandler = \<lparr>tv_error = True, tv_message = js ''missing prerequisite handler'', tv_text = Some (js ''missing prerequisite handler''),
     tv_status = Undefined, tv_refusal = Undefined, tv_retry = False\<rparr>"

definition jobOutcome :: "jsstr list \<Rightarrow> job \<Rightarrow> (thrown_value, jsv) res \<Rightarrow> jsv" where
  "jobOutcome prerequisites j r =
     (case j of
        Timer _ \<Rightarrow> okOutcome []
      | Request \<Rightarrow> (case r of Inr v \<Rightarrow> okOutcome [(js ''value'', v)] | Inl t \<Rightarrow> failure t)
      | Prerequisite name \<Rightarrow>
          (case (if name \<in> set prerequisites then r else Inl missingHandler) of
             Inr _ \<Rightarrow> okOutcome []
           | Inl t \<Rightarrow>
               errorOutcome ((js ''message'', Str (reason t)) # (if tv_retry t then [(js ''retry'', Bool True)] else [])))
      | _ \<Rightarrow> (case r of Inr _ \<Rightarrow> okOutcome [] | Inl t \<Rightarrow> failure t))"

definition jobSettled :: "bool \<Rightarrow> nat \<Rightarrow> (thrown_value, jsv) res \<Rightarrow> 'x executor \<Rightarrow> 'x executor" where
  "jobSettled refused n r e =
     (case map_of (e_jobs e) n of
        None \<Rightarrow> e
      | Some (effectId, Socket) \<Rightarrow> e
      | Some (effectId, j) \<Rightarrow>
          snd (answer refused effectId (jobOutcome (e_prerequisites e) j r) True (e\<lparr>e_jobs := mdel n (e_jobs e)\<rparr>)))"

definition socketHeard :: "bool \<Rightarrow> nat \<Rightarrow> socket_event \<Rightarrow> 'x executor \<Rightarrow> 'x executor" where
  "socketHeard refused n ev e =
     (case map_of (e_jobs e) n of Some (effectId, Socket) \<Rightarrow> socketEvent refused effectId ev e | _ \<Rightarrow> e)"

section \<open>Installation\<close>

definition install :: "nat \<Rightarrow> jsstr \<Rightarrow> handler \<Rightarrow> 'x executor \<Rightarrow> nat \<times> 'x executor" where
  "install owner kind h e =
     (e_fresh e,
      e\<lparr>e_bridge := onEffect kind (e_fresh e) (e_bridge e), e_handlers := mput (e_fresh e) (owner, h) (e_handlers e),
        e_fresh := Suc (e_fresh e)\<rparr>)"

text \<open>The constructor, whose owner is itself, and \<open>prerequisites\<close>, which the client installs right after.\<close>

definition new_executor :: "'x bridge \<Rightarrow> 'x executor" where
  "new_executor b =
     snd (install 0 (js ''timer'') TimerEffect
       \<lparr>e_bridge = on (js ''cancelEffect'') 1 b, e_prerequisites = [], e_handlers = [], e_running = [], e_jobs = [], e_fresh = 2,
        e_asked = [], e_answered = [], e_cancelled = [], e_aborted = []\<rparr>)"

record installed =
  in_owner :: nat
  in_kinds :: "(jsstr \<times> nat) list"
  in_listener :: "nat option"

definition owned :: "'x executor \<Rightarrow> nat \<times> 'x executor" where
  "owned e = (e_fresh e, e\<lparr>e_fresh := Suc (e_fresh e)\<rparr>)"

definition prerequisites :: "jsstr list \<Rightarrow> 'x executor \<Rightarrow> installed \<times> 'x executor" where
  "prerequisites handlers e =
     (case owned (e\<lparr>e_prerequisites := handlers\<rparr>) of
        (owner, e1) \<Rightarrow>
          (case install owner (js ''prerequisite'') PrerequisiteEffect e1 of
             (n, e2) \<Rightarrow> (\<lparr>in_owner = owner, in_kinds = [(js ''prerequisite'', n)], in_listener = None\<rparr>, e2)))"

definition startConnection :: "bool \<Rightarrow> 'x executor \<Rightarrow> installed \<times> 'x executor" where
  "startConnection refreshAuth e =
     (case owned e of
        (owner, e1) \<Rightarrow>
          (case install owner (js ''http'') HttpEffect e1 of
             (n1, e2) \<Rightarrow>
               (case install owner (js ''socket'') SocketEffect e2 of
                  (n2, e3) \<Rightarrow>
                    (case (if refreshAuth then (case install owner (js ''refreshAuth'') RefreshEffect e3 of (n3, e4) \<Rightarrow> ([(js ''refreshAuth'', n3)], e4))
                           else ([], e3)) of
                       (more', e4) \<Rightarrow>
                         (\<lparr>in_owner = owner, in_kinds = [(js ''http'', n1), (js ''socket'', n2)] @ more', in_listener = Some (e_fresh e4)\<rparr>,
                          e4\<lparr>e_bridge := on (js ''report'') (e_fresh e4) (e_bridge e4), e_fresh := Suc (e_fresh e4)\<rparr>)))))"

definition uninstall :: "installed \<Rightarrow> 'x executor \<Rightarrow> 'x executor" where
  "uninstall c e =
     (let b1 = fold (\<lambda>(kind, n). offEffect kind n) (in_kinds c) (e_bridge e);
          b2 = (case in_listener c of None \<Rightarrow> b1 | Some l \<Rightarrow> off (js ''report'') l b1)
      in abort (in_owner c) (e\<lparr>e_bridge := b2\<rparr>))"

section \<open>Reports\<close>

record report_details =
  rd_kind :: jsstr
  rd_model :: jsstr
  rd_identity :: jsstr
  rd_code :: "jsstr option"
  rd_ordinal :: "nat option"

datatype diagnostic =
    Records "report_details list"
  | LaneError jsstr "int option"
  | ProtocolError jsstr
  | RefusedAdmission jsstr int jsv

datatype client_error =
    AxtonReport jsstr report_details
  | AdmissionRefused int jsv jsstr
  | PlainError jsstr "int option"

text \<open>The message of a report; \<open>rd_identity\<close> is the JSON text of the identity.\<close>

definition reportMessage :: "report_details \<Rightarrow> jsstr" where
  "reportMessage r =
     rd_kind r @ js '': '' @ rd_model r @ js '' '' @ rd_identity r
     @ (case rd_code r of Some c \<Rightarrow> if c = [] then [] else js '' ('' @ c @ js '')'' | None \<Rightarrow> [])
     @ (case rd_ordinal r of Some n \<Rightarrow> js '' (mutation '' @ show_nat n @ js '')'' | None \<Rightarrow> [])"

definition reportErrors :: "diagnostic \<Rightarrow> client_error list" where
  "reportErrors d =
     (case d of
        Records rs \<Rightarrow> map (\<lambda>r. AxtonReport (reportMessage r) r) rs
      | RefusedAdmission m status body \<Rightarrow> [AdmissionRefused status body m]
      | LaneError m status \<Rightarrow> [PlainError m status]
      | ProtocolError m \<Rightarrow> [PlainError m None])"

section \<open>Runs\<close>

text \<open>
  Everything that may happen to an executor. Connections come and go in any order; the
  bridge changes under the hands of its other users, who install no effect.
\<close>

inductive estep :: "'x executor \<Rightarrow> 'x executor \<Rightarrow> bool" where
  asked: "estep e (effectAsked throws refused opened effectId kind op e)"
| cancelling: "estep e (effectCancelled throws effectId event e)"
| settling: "estep e (jobSettled refused n r e)"
| hearing: "estep e (socketHeard refused n ev e)"
| connecting: "estep e (snd (startConnection refreshAuth e))"
| prerequisite: "estep e (snd (prerequisites handlers e))"
| uninstalling: "estep e (uninstall c e)"
| elsewhere: "b_effects b = b_effects (e_bridge e) \<Longrightarrow> estep e (e\<lparr>e_bridge := b\<rparr>)"

inductive ereachable :: "'x executor \<Rightarrow> bool" where
  constructed: "b_effects b = [] \<Longrightarrow> ereachable (new_executor b)"
| run: "ereachable e \<Longrightarrow> estep e e' \<Longrightarrow> ereachable e'"

end
