(* ===== verification/Calls.thy ===== *)
theory Calls
  imports JsValue
begin

text \<open>
  \<^verbatim>\<open>packages/frontend/client-js/api/actions.mts\<close>: the handle of a submitted call and the
  registry that routes its completion to it without keeping an abandoned handle alive.

  Handles live in a store, named by their index. \<open>dead\<close> lists the handles the garbage
  collector has taken: \<open>deref\<close> of a weak reference answers \<open>undefined\<close> for them. A
  collection and the answer of a lookup are steps of their own, so that they may fall
  between any two operations.
\<close>

section \<open>Options and errors\<close>

datatype execution = Rejected | Unknown

record call_error =
  ce_code :: string
  ce_execution :: execution

abbreviation callError :: "string \<Rightarrow> execution \<Rightarrow> call_error" where
  "callError code ex \<equiv> \<lparr>ce_code = code, ce_execution = ex\<rparr>"

definition invalidOptions :: call_error where
  "invalidOptions = callError ''action.invalid_options'' Rejected"

definition assertQueryOptions :: "jsv \<Rightarrow> (call_error, unit) res" where
  "assertQueryOptions options =
     (if options = Undefined then Inr ()
      else if \<not> plainObject options \<or> list_ex (\<lambda>k. k \<noteq> js ''store'') (keys options) then Inl invalidOptions
      else case field options (js ''store'') of
             Undefined \<Rightarrow> Inr () | Bool _ \<Rightarrow> Inr () | _ \<Rightarrow> Inl invalidOptions)"

text \<open>
  What \<open>actionError\<close> reads of a thrown value: whether it is a \<open>CallError\<close> already, its
  \<open>code\<close> when that is a string, whether it is an \<open>Error\<close> with message \<open>transaction_active\<close>,
  and whether its \<open>execution\<close> is \<open>rejected\<close>.
\<close>

record thrown =
  th_callError :: "call_error option"
  th_code :: "string option"
  th_active :: bool
  th_rejected :: bool

definition actionError :: "thrown \<Rightarrow> call_error" where
  "actionError e =
     (case th_callError e of
        Some c \<Rightarrow> c
      | None \<Rightarrow>
          let code = (case th_code e of Some c \<Rightarrow> c
                      | None \<Rightarrow> if th_active e then ''transaction_active'' else ''action.transport_failed'')
          in callError code (if th_rejected e \<or> code = ''transaction_active'' then Rejected else Unknown))"

section \<open>Call state\<close>

datatype call_status = Pending | Succeeded | FailedStatus
datatype lifecycle = Provisional | Committed | RolledBack
datatype 'v outcome = Result 'v | Failure call_error

record 'v call_state =
  c_id :: jsstr
  c_status :: call_status
  c_lifecycle :: lifecycle
  c_outcome :: "'v outcome option"

definition commit :: "'v call_state \<Rightarrow> 'v call_state" where
  "commit c = (if c_lifecycle c = Provisional then c\<lparr>c_lifecycle := Committed\<rparr> else c)"

definition rollBack :: "'v call_state \<Rightarrow> 'v call_state" where
  "rollBack c = (if c_lifecycle c \<noteq> Provisional then c else c\<lparr>c_lifecycle := RolledBack, c_status := FailedStatus\<rparr>)"

definition settleCall :: "'v outcome \<Rightarrow> 'v call_state \<Rightarrow> 'v call_state" where
  "settleCall o' c =
     (if c_outcome c \<noteq> None then c
      else c\<lparr>c_outcome := Some o', c_status := (case o' of Result _ \<Rightarrow> Succeeded | Failure _ \<Rightarrow> FailedStatus)\<rparr>)"

section \<open>The registry\<close>

record 'v registry =
  store :: "'v call_state list"
  dead :: "nat list"
  routes :: "(jsstr, nat \<times> (jsv \<Rightarrow> 'v option)) jsmap"
  active :: "(jsstr, nat) jsmap"
  looking :: "(jsstr, nat) jsmap"
  closed :: bool
  over :: bool
  hasLookup :: bool
  supported :: bool

definition new_registry :: "bool \<Rightarrow> bool \<Rightarrow> 'v registry" where
  "new_registry hl ok = \<lparr>store = [], dead = [], routes = [], active = [], looking = [], closed = False, over = False,
     hasLookup = hl, supported = ok\<rparr>"

definition deref :: "'v registry \<Rightarrow> nat \<Rightarrow> nat option" where
  "deref r h = (if h \<in> set (dead r) then None else Some h)"

definition onCall :: "nat \<Rightarrow> ('v call_state \<Rightarrow> 'v call_state) \<Rightarrow> 'v registry \<Rightarrow> 'v registry" where
  "onCall h f r = r\<lparr>store := (store r)[h := f (store r ! h)]\<rparr>"

definition sweep :: "'v registry \<Rightarrow> 'v registry" where
  "sweep r = r\<lparr>routes := filter (\<lambda>(cid, h, _). deref r h \<noteq> None \<or> mhas (active r) cid) (routes r)\<rparr>"

definition clientClosed :: "'v outcome" where
  "clientClosed = Failure (callError ''client.closed'' Unknown)"

definition observationFailed :: "'v outcome" where
  "observationFailed = Failure (callError ''action.observation_failed'' Unknown)"

definition assertSupported :: "'v registry \<Rightarrow> (call_error, unit) res" where
  "assertSupported r = guard_res (supported r) (callError ''action.unsupported_runtime'' Unknown)"

definition register ::
  "jsstr \<Rightarrow> (jsv \<Rightarrow> 'v option) \<Rightarrow> bool \<Rightarrow> 'v registry \<Rightarrow> (call_error, nat) res \<times> 'v registry" where
  "register cid decode provisional r =
     (case assertSupported r of
        Inl e \<Rightarrow> (Inl e, r)
      | Inr _ \<Rightarrow>
          let s = sweep r; h = length (store s);
              c = \<lparr>c_id = cid, c_status = Pending, c_lifecycle = (if provisional then Provisional else Committed), c_outcome = None\<rparr>
          in (Inr h,
              if provisional \<and> over s then s\<lparr>store := store s @ [rollBack c]\<rparr>
              else if closed s \<and> \<not> provisional then s\<lparr>store := store s @ [settleCall clientClosed c]\<rparr>
              else s\<lparr>store := store s @ [c], routes := mput cid (h, decode) (routes s)\<rparr>))"

text \<open>The promise \<open>wait\<close> answers: a local refusal, the error \<open>admit\<close> threw, or the handle's own promise.\<close>

datatype waiting = Refuse call_error | NotAdmitted | Promised

definition activate :: "nat \<Rightarrow> 'v registry \<Rightarrow> 'v registry" where
  "activate h r =
     (let cid = c_id (store r ! h); r' = r\<lparr>active := mput cid h (active r)\<rparr> in
      if hasLookup r \<and> \<not> mhas (looking r) cid then r'\<lparr>looking := mput cid h (looking r)\<rparr> else r')"

definition wait :: "nat \<Rightarrow> bool \<Rightarrow> 'v registry \<Rightarrow> waiting \<times> 'v registry" where
  "wait h admitted r =
     (case c_lifecycle (store r ! h) of
        RolledBack \<Rightarrow> (Refuse (callError ''transaction_rolled_back'' Rejected), r)
      | Provisional \<Rightarrow> (Refuse (callError ''transaction_uncommitted'' Unknown), r)
      | Committed \<Rightarrow>
          if c_outcome (store r ! h) \<noteq> None then (Promised, r)
          else if \<not> admitted then (NotAdmitted, r)
          else (Promised, activate h r))"

definition transition :: "jsstr \<Rightarrow> bool \<Rightarrow> 'v registry \<Rightarrow> 'v registry" where
  "transition cid committed r0 =
     (let r = sweep r0 in
      case map_of (routes r) cid of
        None \<Rightarrow> r
      | Some (h, _) \<Rightarrow>
          if deref r h = None \<or> c_lifecycle (store r ! h) \<noteq> Provisional then r
          else if committed then
            (let r1 = onCall h commit r in
             if \<not> closed r then r1
             else (onCall h (settleCall clientClosed) r1)\<lparr>routes := mdel cid (routes r)\<rparr>)
          else (onCall h rollBack r)\<lparr>routes := mdel cid (routes r)\<rparr>)"

datatype answered = AnswerOk jsv | AnswerFailed call_error

text \<open>\<open>active.get(cid) ?? route?.ref.deref()\<close>\<close>

definition target :: "'v registry \<Rightarrow> jsstr \<Rightarrow> nat option" where
  "target r cid = (case map_of (active r) cid of
     Some h \<Rightarrow> Some h
   | None \<Rightarrow> (case map_of (routes r) cid of None \<Rightarrow> None | Some (h, _) \<Rightarrow> deref r h))"

definition decoded :: "(nat \<times> (jsv \<Rightarrow> 'v option)) option \<Rightarrow> answered \<Rightarrow> 'v outcome" where
  "decoded route a = (case a of
     AnswerFailed e \<Rightarrow> Failure e
   | AnswerOk v \<Rightarrow> (case route of
        None \<Rightarrow> observationFailed
      | Some (_, decode) \<Rightarrow> (case decode v of None \<Rightarrow> observationFailed | Some x \<Rightarrow> Result x)))"

definition complete :: "jsstr \<Rightarrow> answered \<Rightarrow> 'v registry \<Rightarrow> 'v registry" where
  "complete cid a r0 =
     (let r = sweep r0 in
      case target r cid of
        None \<Rightarrow> r
      | Some h \<Rightarrow>
          (onCall h (settleCall (decoded (map_of (routes r) cid) a)) (onCall h commit r))
            \<lparr>routes := mdel cid (routes r), active := mdel cid (active r)\<rparr>)"

text \<open>How the lookup \<open>wait\<close> started settles: with a completion or \<open>null\<close>, or with an error.\<close>

definition lookupAnswered :: "jsstr \<Rightarrow> (jsstr \<times> answered) option \<Rightarrow> 'v registry \<Rightarrow> 'v registry" where
  "lookupAnswered cid c r =
     (let r' = (case c of None \<Rightarrow> r | Some (cid', a) \<Rightarrow> complete cid' a r) in r'\<lparr>looking := mdel cid (looking r')\<rparr>)"

definition lookupFailed :: "jsstr \<Rightarrow> nat \<Rightarrow> 'v registry \<Rightarrow> 'v registry" where
  "lookupFailed cid h r =
     (let r' = (if \<not> mhas (active r) cid then r
                else (onCall h (settleCall observationFailed) r)\<lparr>routes := mdel cid (routes r), active := mdel cid (active r)\<rparr>)
      in r'\<lparr>looking := mdel cid (looking r')\<rparr>)"

definition closeRoute :: "'v registry \<Rightarrow> jsstr \<times> nat \<times> (jsv \<Rightarrow> 'v option) \<Rightarrow> 'v registry" where
  "closeRoute r = (\<lambda>(cid, h0, _).
     case (case map_of (active r) cid of Some h \<Rightarrow> Some h | None \<Rightarrow> deref r h0) of
       None \<Rightarrow> r\<lparr>routes := mdel cid (routes r)\<rparr>
     | Some h \<Rightarrow>
         if c_lifecycle (store r ! h) = Provisional then r
         else (onCall h (settleCall clientClosed) r)\<lparr>routes := mdel cid (routes r)\<rparr>)"

definition close :: "'v registry \<Rightarrow> 'v registry" where
  "close r = (if closed r then r else (foldl closeRoute (r\<lparr>closed := True\<rparr>) (routes r))\<lparr>active := []\<rparr>)"

definition ended :: "'v registry \<Rightarrow> 'v registry" where
  "ended r0 =
     (let r = (close r0)\<lparr>over := True\<rparr> in
      (foldl (\<lambda>r (_, h, _). if deref r h = None then r else onCall h rollBack r) r (routes r))\<lparr>routes := []\<rparr>)"

section \<open>Runs\<close>

text \<open>
  Call ids are minted by the runtime: one names one submission. A handle the registry or
  a pending lookup holds strongly is not collected.
\<close>

inductive step :: "'v registry \<Rightarrow> 'v registry \<Rightarrow> bool" where
  registered: "cid \<notin> c_id ` set (store r) \<Longrightarrow> step r (snd (register cid decode provisional r))"
| waited: "h < length (store r) \<Longrightarrow> h \<notin> set (dead r) \<Longrightarrow> step r (snd (wait h admitted r))"
| transitioned: "step r (transition cid committed r)"
| completed: "step r (complete cid a r)"
| answered: "mhas (looking r) cid \<Longrightarrow> step r (lookupAnswered cid c r)"
| failed: "map_of (looking r) cid = Some h \<Longrightarrow> step r (lookupFailed cid h r)"
| closed: "step r (close r)"
| ended: "step r (ended r)"
| collected: "h < length (store r) \<Longrightarrow> h \<notin> snd ` set (active r) \<Longrightarrow> h \<notin> snd ` set (looking r) \<Longrightarrow>
    step r (r\<lparr>dead := h # dead r\<rparr>)"

inductive reachable :: "'v registry \<Rightarrow> bool" where
  start: "reachable (new_registry hl ok)"
| run: "reachable r \<Longrightarrow> step r r' \<Longrightarrow> reachable r'"

end
