(* ===== verification/Subscriptions.thy ===== *)
theory Subscriptions
  imports JsValue
begin

text \<open>
  \<^verbatim>\<open>packages/frontend/client-js/api/subscriptions.mts\<close>: one handle per Stream registration, the
  status the runtime publishes through it, and the listeners that watch it.

  Handles live in a store, named by their index. \<open>s_seen\<close> records the calls of listeners
  and \<open>s_reported\<close> those that threw; \<open>throws\<close> says which calls throw. A listener that calls
  back into its handle does so as an operation of its own.
\<close>

section \<open>Status and errors\<close>

datatype phase = NotRequested | WaitingForInitialization | Loading | CatchingUp | Complete | RunFailed
datatype connection = Offline | Connecting | ConnCatchingUp | Live | Stopped

record sub_status =
  u_active :: bool
  u_ready :: bool
  u_connection :: connection
  u_phase :: phase
  u_error :: "(jsstr \<times> jsstr) option"

record sub_state =
  ss_stream :: jsstr
  ss_id :: nat
  ss_start :: "nat option"

text \<open>The public errors of \<open>bootstrap\<close>; \<open>RunFailure\<close> carries the code and message of the run.\<close>

datatype 'e sub_error = SubscriptionClosed | ClientClosed | Superseded jsstr | RunFailure jsstr jsstr | Unchanged 'e

record task_error =
  te_message :: jsstr
  te_details :: "(jsstr \<times> jsv) option"

definition bootstrapError :: "jsstr \<Rightarrow> task_error \<Rightarrow> task_error sub_error" where
  "bootstrapError stream e =
     (case te_details e of
        None \<Rightarrow> if te_message e = js ''client_closed'' then ClientClosed else Unchanged e
      | Some (code, message) \<Rightarrow>
          if code = js ''subscription.closed'' then SubscriptionClosed
          else if code = js ''client_closed'' then ClientClosed
          else if code = js ''bootstrap.superseded'' then Superseded stream
          else RunFailure code (case message of Str s \<Rightarrow> s | _ \<Rightarrow> te_message e))"

section \<open>Handles\<close>

datatype ending = Removed | StoppedEnd

record handle =
  h_stream :: jsstr
  h_id :: nat
  h_status :: sub_status
  h_closed :: "ending option"
  h_listeners :: "nat list"

definition newHandle :: "sub_state \<Rightarrow> handle" where
  "newHandle st =
     \<lparr>h_stream = ss_stream st, h_id = ss_id st,
      h_status = \<lparr>u_active = True, u_ready = (ss_start st \<noteq> None), u_connection = Offline, u_phase = NotRequested, u_error = None\<rparr>,
      h_closed = None, h_listeners = []\<rparr>"

record subs =
  s_store :: "handle list"
  s_handles :: "(nat, nat) jsmap"
  s_observers :: "(jsstr, nat) jsmap"
  s_closing :: bool
  s_seen :: "((nat \<times> nat) \<times> sub_status) list"
  s_reported :: "(nat \<times> nat) list"

definition new_subs :: subs where
  "new_subs = \<lparr>s_store = [], s_handles = [], s_observers = [], s_closing = False, s_seen = [], s_reported = []\<rparr>"

abbreviation handleAt :: "subs \<Rightarrow> nat \<Rightarrow> handle" where
  "handleAt s r \<equiv> s_store s ! r"

abbreviation hasClosed :: "subs \<Rightarrow> nat \<Rightarrow> bool" where
  "hasClosed s r \<equiv> h_closed (handleAt s r) \<noteq> None"

definition onHandle :: "nat \<Rightarrow> (handle \<Rightarrow> handle) \<Rightarrow> subs \<Rightarrow> subs" where
  "onHandle r f s = s\<lparr>s_store := (s_store s)[r := f (s_store s ! r)]\<rparr>"

definition forget :: "nat \<Rightarrow> subs \<Rightarrow> subs" where
  "forget r s =
     (let i = h_id (handleAt s r) in
      if map_of (s_handles s) i = Some r then s\<lparr>s_handles := mdel i (s_handles s)\<rparr> else s)"

definition deliver :: "(nat \<Rightarrow> sub_status \<Rightarrow> bool) \<Rightarrow> nat \<Rightarrow> nat \<Rightarrow> subs \<Rightarrow> subs" where
  "deliver throws r l s =
     (let st = h_status (handleAt s r) in
      s\<lparr>s_seen := s_seen s @ [((r, l), st)],
        s_reported := s_reported s @ (if throws l st then [(r, l)] else [])\<rparr>)"

definition publish :: "(nat \<Rightarrow> sub_status \<Rightarrow> bool) \<Rightarrow> nat \<Rightarrow> sub_status \<Rightarrow> ending option \<Rightarrow> subs \<Rightarrow> subs" where
  "publish throws r st ending s =
     (let s1 = onHandle r (\<lambda>h. h\<lparr>h_status := st\<rparr>) s;
          s2 = (case ending of None \<Rightarrow> s1 | Some w \<Rightarrow> forget r (onHandle r (\<lambda>h. h\<lparr>h_closed := Some w\<rparr>) s1));
          s3 = fold (deliver throws r) (h_listeners (handleAt s2 r)) s2
      in if ending = None then s3 else onHandle r (\<lambda>h. h\<lparr>h_listeners := []\<rparr>) s3)"

text \<open>\<open>terminal\<close> is \<open>snapshot.closed === true\<close>.\<close>

definition receive :: "(nat \<Rightarrow> sub_status \<Rightarrow> bool) \<Rightarrow> nat \<Rightarrow> sub_status \<Rightarrow> bool \<Rightarrow> subs \<Rightarrow> subs" where
  "receive throws r st terminal s =
     (if hasClosed s r then s
      else publish throws r st (if terminal then Some (if \<not> s_closing s then Removed else StoppedEnd) else None) s)"

definition stop :: "(nat \<Rightarrow> sub_status \<Rightarrow> bool) \<Rightarrow> nat \<Rightarrow> subs \<Rightarrow> subs" where
  "stop throws r s =
     (if hasClosed s r then s
      else publish throws r ((h_status (handleAt s r))\<lparr>u_active := False, u_connection := Stopped\<rparr>) (Some StoppedEnd) s)"

definition watchStatus :: "(nat \<Rightarrow> sub_status \<Rightarrow> bool) \<Rightarrow> nat \<Rightarrow> nat \<Rightarrow> subs \<Rightarrow> subs" where
  "watchStatus throws r l s =
     deliver throws r l
       (if hasClosed s r then s else onHandle r (\<lambda>h. h\<lparr>h_listeners := sadd l (h_listeners h)\<rparr>) s)"

definition unwatch :: "nat \<Rightarrow> nat \<Rightarrow> subs \<Rightarrow> subs" where
  "unwatch r l s = onHandle r (\<lambda>h. h\<lparr>h_listeners := removeAll l (h_listeners h)\<rparr>) s"

text \<open>What \<open>bootstrap\<close> submits, or why it refuses.\<close>

definition bootstrap :: "nat \<Rightarrow> subs \<Rightarrow> ('e sub_error, jsv) res" where
  "bootstrap r s =
     (if hasClosed s r then Inl SubscriptionClosed
      else Inr (Obj [(js ''kind'', Str (js ''streamBootstrap'')), (js ''stream'', Str (h_stream (handleAt s r))),
                     (js ''subscriptionId'', Num (JsInt (int (h_id (handleAt s r)))))]))"

section \<open>The registry\<close>

text \<open>The \<open>settled\<close> hook of \<open>subscribe\<close>, with the handle it answers.\<close>

definition subscribeSettled :: "sub_state \<Rightarrow> jsstr \<Rightarrow> subs \<Rightarrow> nat \<times> subs" where
  "subscribeSettled st obs s =
     (case map_of (s_handles s) (ss_id st) of
        Some r \<Rightarrow> (r, s)
      | None \<Rightarrow>
          let r = length (s_store s) in
          (r, s\<lparr>s_store := s_store s @ [newHandle st],
                s_handles := mput (ss_id st) r (s_handles s),
                s_observers := mput obs r (s_observers s)\<rparr>))"

definition closeSubs :: "subs \<Rightarrow> subs" where
  "closeSubs s = s\<lparr>s_closing := True\<rparr>"

definition closedSubs :: "(nat \<Rightarrow> sub_status \<Rightarrow> bool) \<Rightarrow> subs \<Rightarrow> subs" where
  "closedSubs throws s = fold (stop throws) (map snd (s_handles s)) (s\<lparr>s_closing := True\<rparr>)"

text \<open>A snapshot the runtime publishes for an observer reaches the handle attached to it.\<close>

inductive sub_step :: "(nat \<Rightarrow> sub_status \<Rightarrow> bool) \<Rightarrow> subs \<Rightarrow> subs \<Rightarrow> bool" for throws where
  subscribed: "sub_step throws s (snd (subscribeSettled st obs s))"
| snapshot: "map_of (s_observers s) obs = Some r \<Longrightarrow> sub_step throws s (receive throws r st terminal s)"
| watched: "r < length (s_store s) \<Longrightarrow> sub_step throws s (watchStatus throws r l s)"
| unwatched: "r < length (s_store s) \<Longrightarrow> sub_step throws s (unwatch r l s)"
| closing: "sub_step throws s (closeSubs s)"
| gone: "sub_step throws s (closedSubs throws s)"

inductive sub_reachable :: "(nat \<Rightarrow> sub_status \<Rightarrow> bool) \<Rightarrow> subs \<Rightarrow> bool" for throws where
  start: "sub_reachable throws new_subs"
| run: "sub_reachable throws s \<Longrightarrow> sub_step throws s s' \<Longrightarrow> sub_reachable throws s'"

end
