(* ===== verification/Client.thy ===== *)
theory Client
  imports Executor Calls Subscriptions Transactions
begin

text \<open>
  The client of \<^verbatim>\<open>packages/frontend/client-js/api/runtime.mts\<close>, which binds the bridge, the effect
  executor, the calls and the Subscription handles: its guard, the commands of its
  methods (with those of \<^verbatim>\<open>packages/frontend/client-js/api/unsent.mts\<close>), its transactions, its connection
  and its close.

  Connections are numbered in the order they were started, the ones that failed included;
  \<open>cl_halted\<close> are the numbers whose \<open>closed\<close> is set. \<open>inside\<close> is what \<open>#inCallback\<close> answers.
  The installed handlers of a connection and the platform work are those of the executor. An
  \<open>await\<close> is the boundary between two operations.
\<close>

section \<open>Commands\<close>

definition command :: "string \<Rightarrow> (jsstr \<times> jsv) list \<Rightarrow> jsv" where
  "command kind fs = Obj ((js ''kind'', Str (js kind)) # fs)"

definition number :: "nat \<Rightarrow> jsv" where
  "number n = Num (JsInt (int n))"

text \<open>The reads are the commands a transaction sends.\<close>

datatype read_request =
    ReadRecord jsstr jsv
  | QueryModel jsstr jsv
  | ReadSql jsstr "jsv list"
  | QuerySpecOf jsstr jsv
  | RelatedOf jsstr jsv jsstr
  | ReferencingOf jsstr jsv jsstr jsstr

definition readOf :: "read_request \<Rightarrow> jsv" where
  "readOf r =
     (case r of
        ReadRecord model identity \<Rightarrow> readCommand model identity
      | QueryModel model filter' \<Rightarrow> queryCommand model filter'
      | ReadSql sql parameters \<Rightarrow> sqlCommand sql parameters
      | QuerySpecOf model spec \<Rightarrow> querySpecCommand model spec
      | RelatedOf model identity relation \<Rightarrow> relatedCommand model identity relation
      | ReferencingOf model identity source relation \<Rightarrow> referencingCommand model identity source relation)"

definition syncStateCommand :: "(jsstr \<times> jsv) option \<Rightarrow> jsv" where
  "syncStateCommand r =
     (case r of None \<Rightarrow> command ''status'' [] | Some (model, identity) \<Rightarrow> command ''recordStatus'' [(js ''key'', recordKey model identity)])"

datatype readiness = Ready | NotReady | FailedReadiness

definition readinessText :: "readiness \<Rightarrow> jsstr" where
  "readinessText r = (case r of Ready \<Rightarrow> js ''ready'' | NotReady \<Rightarrow> js ''pending'' | FailedReadiness \<Rightarrow> js ''failed'')"

definition readinessCommand :: "jsstr \<Rightarrow> readiness \<Rightarrow> jsv" where
  "readinessCommand key state = command ''readiness'' [(js ''key'', Str key), (js ''state'', Str (readinessText state))]"

definition dropCommand :: "nat \<Rightarrow> jsv" where
  "dropCommand ordinal = command ''drop'' [(js ''ordinal'', number ordinal)]"

definition dismissCommand :: "nat \<Rightarrow> jsv" where
  "dismissCommand ordinal = command ''dismiss'' [(js ''ordinal'', number ordinal)]"

definition watchCommand :: "jsstr \<Rightarrow> jsv \<Rightarrow> jsv" where
  "watchCommand model filter' =
     command ''watch'' [(js ''model'', Str model), (js ''spec'', Obj [(js ''filter'', filter'), (js ''delivery'', Str (js ''splice-v1''))])]"

definition watchSqlCommand :: "jsstr \<Rightarrow> jsv list \<Rightarrow> jsv" where
  "watchSqlCommand sql parameters = command ''watchSql'' [(js ''sql'', Str sql), (js ''parameters'', Arr parameters)]"

definition resetStoreCommand :: "(jsstr \<times> jsv) list \<Rightarrow> jsv" where
  "resetStoreCommand options = command ''resetStore'' options"

text \<open>Unsent work.\<close>

datatype unsent_view = RejectionsView | FailuresView | PendingView

definition unsentWatchCommand :: "unsent_view \<Rightarrow> jsv" where
  "unsentWatchCommand v =
     command ''unsentWatch''
       [(js ''view'', Str (case v of RejectionsView \<Rightarrow> js ''rejections'' | FailuresView \<Rightarrow> js ''failures'' | PendingView \<Rightarrow> js ''pending''))]"

definition unsentPick :: "unsent_view \<Rightarrow> jsv \<Rightarrow> jsv" where
  "unsentPick v snap = (case v of PendingView \<Rightarrow> field snap (js ''count'') | _ \<Rightarrow> field snap (js ''items''))"

definition rejectionGetCommand :: "nat \<Rightarrow> jsv" where
  "rejectionGetCommand i = command ''rejectionGet'' [(js ''id'', number i)]"

definition retryTasksCommand :: "jsstr list \<Rightarrow> jsv" where
  "retryTasksCommand ks = command ''retryTasks'' [(js ''keys'', Arr (map Str ks))]"

definition discardCommand :: "nat \<Rightarrow> jsv" where
  "discardCommand ordinal = command ''discard'' [(js ''ordinal'', number ordinal)]"

text \<open>What a transaction may do to unsent work.\<close>

datatype resolution = Dismiss nat | Retry "jsstr list" | Discard nat

definition unsentTransaction :: "resolution \<Rightarrow> jsv" where
  "unsentTransaction r =
     (case r of Dismiss i \<Rightarrow> dismissCommand i | Retry ks \<Rightarrow> retryTasksCommand ks | Discard ordinal \<Rightarrow> discardCommand ordinal)"

section \<open>State\<close>

text \<open>Where \<open>#finishClose\<close> waits; the flag says that the bridge was told to close already.\<close>

datatype closing = NotClosing | AwaitStarted bool | AwaitBridge | ClosedNow

datatype 'x client_failure =
    ClosedClient
  | TransactionActive
  | AlreadyActive
  | InvalidServer
  | InvalidTimeout
  | ServerThrew 'x
  | TaskRejected "'x task_failure"

record ('x, 'v) client =
  cl_exact :: bool
  cl_executor :: "'x executor"
  cl_actions :: "'v registry"
  cl_subs :: subs
  cl_transactions :: nat
  cl_conns :: "installed list"
  cl_halted :: "nat list"
  cl_connecting :: "nat option"
  cl_connection :: "nat option"
  cl_closing :: closing

abbreviation bridgeOf :: "('x, 'v) client \<Rightarrow> 'x bridge" where
  "bridgeOf c \<equiv> e_bridge (cl_executor c)"

definition onBridge :: "('x bridge \<Rightarrow> 'r \<times> 'x bridge) \<Rightarrow> ('x, 'v) client \<Rightarrow> 'r \<times> ('x, 'v) client" where
  "onBridge f c = (case f (bridgeOf c) of (r, b) \<Rightarrow> (r, c\<lparr>cl_executor := (cl_executor c)\<lparr>e_bridge := b\<rparr>\<rparr>))"

text \<open>\<open>open\<close>: the executor is installed before the runtime runs, the prerequisites of the application with it.\<close>

definition new_client :: "bool \<Rightarrow> jsstr list \<Rightarrow> 'x bridge \<Rightarrow> ('x, 'v) client" where
  "new_client exact required b =
     \<lparr>cl_exact = exact, cl_executor = snd (prerequisites required (new_executor b)), cl_actions = new_registry True True,
      cl_subs = new_subs, cl_transactions = 0, cl_conns = [], cl_halted = [], cl_connecting = None, cl_connection = None,
      cl_closing = NotClosing\<rparr>"

section \<open>The guard\<close>

definition guard :: "bool \<Rightarrow> bool \<Rightarrow> ('x, 'v) client \<Rightarrow> bool" where
  "guard writes inside c = ((writes \<or> cl_exact c) \<and> inside)"

definition taskOf ::
  "bool \<Rightarrow> jsv \<Rightarrow> 'x hook option \<Rightarrow> 'x option \<Rightarrow> ('x, 'v) client \<Rightarrow> ('x client_failure, nat) res \<times> ('x, 'v) client" where
  "taskOf inside cmd hook refuse c =
     (if guard False inside c then (Inl TransactionActive, c)
      else case onBridge (task cmd hook refuse) c of
             (Inl e, c') \<Rightarrow> (Inl (TaskRejected e), c')
           | (Inr n, c') \<Rightarrow> (Inr n, c'))"

section \<open>Transactions\<close>

definition transactionStart :: "bool \<Rightarrow> 'x option \<Rightarrow> ('x, 'v) client \<Rightarrow> ('x client_failure, nat) res \<times> ('x, 'v) client" where
  "transactionStart inside refuse c =
     (if guard False inside c then (Inl TransactionActive, c)
      else case onBridge (transaction refuse) (c\<lparr>cl_transactions := Suc (cl_transactions c)\<rparr>) of
             (Inl e, c') \<Rightarrow> (Inl (TaskRejected e), c'\<lparr>cl_transactions := cl_transactions c\<rparr>)
           | (Inr n, c') \<Rightarrow> (Inr n, c'))"

definition transactionSettled :: "('x, 'v) client \<Rightarrow> ('x, 'v) client" where
  "transactionSettled c = c\<lparr>cl_transactions := cl_transactions c - 1\<rparr>"

text \<open>
  \<open>#runTransactionBody\<close> once the callback settled: the result stands only when the
  transaction finished, and a callback that failed is finished too. \<open>late\<close> and \<open>late'\<close> are
  what the commands still running answered while each \<open>finish\<close> waited.
\<close>

definition runTransactionBody ::
  "('e terr, 'a) res \<Rightarrow> 'e terr option list \<Rightarrow> 'e terr option list \<Rightarrow> 'e tx \<Rightarrow> ('e terr, 'a) res \<times> 'e tx" where
  "runTransactionBody r late late' t =
     (case r of
        Inl e \<Rightarrow> (Inl e, snd (finish late t))
      | Inr v \<Rightarrow>
          (case finish late t of
             (Inr _, t') \<Rightarrow> (Inr v, t')
           | (Inl e, t') \<Rightarrow> (Inl e, snd (finish late' t'))))"

section \<open>Completions\<close>

text \<open>Every handle is finished before a listener hears of a completion; \<open>throws\<close> says which calls are reported.\<close>

definition deliverCompletions ::
  "(nat \<Rightarrow> jsstr \<Rightarrow> bool) \<Rightarrow> nat list \<Rightarrow> (jsstr \<times> answered) list \<Rightarrow> ('x, 'v) client \<Rightarrow>
   (nat \<times> jsstr) list \<times> nat \<times> ('x, 'v) client" where
  "deliverCompletions throws listeners completions c =
     (let calls = concat (map (\<lambda>(cid, _). map (\<lambda>l. (l, cid)) listeners) completions) in
      (calls, length (filter (\<lambda>(l, cid). throws l cid) calls),
       c\<lparr>cl_actions := fold (\<lambda>(cid, a). complete cid a) completions (cl_actions c)\<rparr>))"

section \<open>The connection\<close>

definition validServer :: "jsv \<Rightarrow> bool" where
  "validServer server =
     (truthy server \<and> (case server of Obj _ \<Rightarrow> True | _ \<Rightarrow> False)
      \<and> (case field server (js ''url'') of Str _ \<Rightarrow> True | _ \<Rightarrow> False)
      \<and> (case field server (js ''token'') of Str _ \<Rightarrow> True | Fun _ \<Rightarrow> True | _ \<Rightarrow> False))"

definition connectCommand :: "int \<Rightarrow> bool \<Rightarrow> jsv" where
  "connectCommand timeout refreshAuth =
     command ''connect'' [(js ''directTimeoutMs'', Num (JsInt timeout)), (js ''refreshAuth'', Bool refreshAuth)]"

text \<open>
  \<open>connect\<close> up to the \<open>await\<close> of its task: \<open>timeout\<close> is the option as given, and
  \<open>threw\<close> what \<open>createServerConnection\<close> threw.
\<close>

definition connectStart ::
  "bool \<Rightarrow> jsv \<Rightarrow> jsv \<Rightarrow> bool \<Rightarrow> 'x option \<Rightarrow> 'x option \<Rightarrow> ('x, 'v) client \<Rightarrow> ('x client_failure, nat) res \<times> ('x, 'v) client" where
  "connectStart inside server timeout refreshAuth threw refuse c =
     (if cl_closing c \<noteq> NotClosing then (Inl ClosedClient, c)
      else if guard False inside c then (Inl TransactionActive, c)
      else if cl_connecting c \<noteq> None \<or> cl_connection c \<noteq> None then (Inl AlreadyActive, c)
      else if \<not> validServer server then (Inl InvalidServer, c)
      else case directTimeout timeout of
             None \<Rightarrow> (Inl InvalidTimeout, c)
           | Some ms \<Rightarrow>
               (case threw of
                  Some x \<Rightarrow> (Inl (ServerThrew x), c)
                | None \<Rightarrow>
                    (case startConnection refreshAuth (cl_executor c) of
                       (inst, e) \<Rightarrow>
                         let k = length (cl_conns c);
                             c' = c\<lparr>cl_executor := e, cl_conns := cl_conns c @ [inst], cl_connecting := Some k\<rparr> in
                         (Inr k, snd (onBridge (task (connectCommand ms refreshAuth) None refuse) c')))))"

definition halt :: "nat \<Rightarrow> ('x, 'v) client \<Rightarrow> ('x, 'v) client" where
  "halt k c =
     c\<lparr>cl_halted := sadd k (cl_halted c), cl_executor := uninstall (cl_conns c ! k) (cl_executor c),
       cl_connection := (if cl_connection c = Some k then None else cl_connection c)\<rparr>"

text \<open>The task of \<open>connect\<close> settled.\<close>

definition connectSettled :: "bool \<Rightarrow> ('x, 'v) client \<Rightarrow> ('x, 'v) client" where
  "connectSettled ok c =
     (case cl_connecting c of
        None \<Rightarrow> c
      | Some k \<Rightarrow>
          if ok then c\<lparr>cl_connecting := None, cl_connection := Some k\<rparr>
          else c\<lparr>cl_connecting := None, cl_executor := uninstall (cl_conns c ! k) (cl_executor c)\<rparr>)"

definition connectionCommand :: "string \<Rightarrow> jsv" where
  "connectionCommand event = command ''connection'' [(js ''event'', Str (js event))]"

text \<open>\<open>pause\<close>, \<open>resume\<close> and \<open>wake\<close> of a connection, and its \<open>close\<close>.\<close>

definition control ::
  "nat \<Rightarrow> string \<Rightarrow> bool \<Rightarrow> 'x option \<Rightarrow> ('x, 'v) client \<Rightarrow> ('x client_failure, unit) res \<times> ('x, 'v) client" where
  "control k event inside refuse c =
     (if k \<in> set (cl_halted c) then (Inr (), c)
      else case taskOf inside (connectionCommand event) None refuse c of
             (Inl e, c') \<Rightarrow> (Inl e, c')
           | (Inr _, c') \<Rightarrow> (Inr (), c'))"

definition closeConnection ::
  "nat \<Rightarrow> bool \<Rightarrow> 'x option \<Rightarrow> ('x, 'v) client \<Rightarrow> ('x client_failure, unit) res \<times> ('x, 'v) client" where
  "closeConnection k inside refuse c =
     (if k \<in> set (cl_halted c) then (Inr (), c)
      else if guard False inside c then (Inl TransactionActive, c)
      else case onBridge (task (connectionCommand ''stop'') None refuse) (halt k c) of
             (Inl e, c') \<Rightarrow> (if b_closed (bridgeOf c') then Inr () else Inl (TaskRejected e), c')
           | (Inr _, c') \<Rightarrow> (Inr (), c'))"

text \<open>
  A report the connection's listener hears: a refused admission has ended the connection,
  if it was established, before \<open>onError\<close> is told.
\<close>

definition reportHeard :: "nat \<Rightarrow> bool \<Rightarrow> diagnostic \<Rightarrow> ('x, 'v) client \<Rightarrow> client_error list \<times> ('x, 'v) client" where
  "reportHeard k hasOnError d c =
     (if hasOnError then reportErrors d else [],
      case d of
        RefusedAdmission _ _ _ \<Rightarrow> if cl_connection c = Some k then halt k c else c
      | _ \<Rightarrow> c)"

section \<open>Close\<close>

definition closeClient :: "bool \<Rightarrow> ('x, 'v) client \<Rightarrow> ('x, 'v) client" where
  "closeClient refused c =
     (let c1 = c\<lparr>cl_actions := Calls.close (cl_actions c), cl_subs := closeSubs (cl_subs c)\<rparr> in
      if cl_closing c \<noteq> NotClosing then c1
      else if 0 < cl_transactions c
      then (snd (onBridge (\<lambda>b. ((), Bridge.close refused b)) c1))\<lparr>cl_closing := AwaitStarted True\<rparr>
      else c1\<lparr>cl_closing := AwaitStarted False\<rparr>)"

text \<open>No \<open>connect\<close> is under way any more.\<close>

definition closeStarted :: "bool \<Rightarrow> ('x, 'v) client \<Rightarrow> ('x, 'v) client" where
  "closeStarted refused c =
     (case cl_closing c of
        AwaitStarted told \<Rightarrow>
          if cl_connecting c \<noteq> None then c
          else
            let c1 = (case cl_connection c of None \<Rightarrow> c | Some k \<Rightarrow> halt k c);
                c2 = (if told then c1 else snd (onBridge (\<lambda>b. ((), Bridge.close refused b)) c1))
            in c2\<lparr>cl_closing := AwaitBridge\<rparr>
      | _ \<Rightarrow> c)"

text \<open>The bridge closed.\<close>

definition closeDone :: "(nat \<Rightarrow> sub_status \<Rightarrow> bool) \<Rightarrow> ('x, 'v) client \<Rightarrow> ('x, 'v) client" where
  "closeDone throws c =
     (case cl_closing c of
        AwaitBridge \<Rightarrow>
          if b_closeDone (bridgeOf c)
          then c\<lparr>cl_closing := ClosedNow, cl_subs := closedSubs throws (cl_subs c), cl_actions := ended (cl_actions c)\<rparr>
          else c
      | _ \<Rightarrow> c)"

section \<open>Runs\<close>

text \<open>
  The client's operations, the settling of its tasks, the work of its executor, its calls
  and its handles, in any order. The runtime and the platform act on the executor through
  effects and jobs only.
\<close>

inductive work :: "'x executor \<Rightarrow> 'x executor \<Rightarrow> bool" where
  asked: "work e (effectAsked throws refused opened effectId kind op e)"
| cancelling: "work e (effectCancelled throws effectId event e)"
| settling: "work e (jobSettled refused n r e)"
| hearing: "work e (socketHeard refused n ev e)"
| elsewhere: "b_effects b = b_effects (e_bridge e) \<Longrightarrow> work e (e\<lparr>e_bridge := b\<rparr>)"

inductive cstep :: "(nat \<Rightarrow> sub_status \<Rightarrow> bool) \<Rightarrow> ('x, 'v) client \<Rightarrow> ('x, 'v) client \<Rightarrow> bool" for throws where
  working: "work (cl_executor c) e \<Longrightarrow> cstep throws c (c\<lparr>cl_executor := e\<rparr>)"
| tasks: "cstep throws c (snd (taskOf inside cmd hook refuse c))"
| transacting: "cstep throws c (snd (transactionStart inside refuse c))"
| transacted: "cstep throws c (transactionSettled c)"
| connecting: "cstep throws c (snd (connectStart inside server timeout refreshAuth threw refuse c))"
| connected: "cstep throws c (connectSettled ok c)"
| controlled: "k < length (cl_conns c) \<Longrightarrow> cstep throws c (snd (control k event inside refuse c))"
| disconnected: "cl_connecting c \<noteq> Some k \<Longrightarrow> k < length (cl_conns c) \<Longrightarrow> cstep throws c (snd (closeConnection k inside refuse c))"
| reported: "cstep throws c (snd (reportHeard k hasOnError d c))"
| calls: "Calls.step (cl_actions c) r \<Longrightarrow> cstep throws c (c\<lparr>cl_actions := r\<rparr>)"
| handles: "sub_step throws (cl_subs c) s \<Longrightarrow> cstep throws c (c\<lparr>cl_subs := s\<rparr>)"
| closing: "cstep throws c (closeClient refused c)"
| started: "cstep throws c (closeStarted refused c)"
| finished: "cstep throws c (closeDone throws c)"

inductive creachable :: "(nat \<Rightarrow> sub_status \<Rightarrow> bool) \<Rightarrow> ('x, 'v) client \<Rightarrow> bool" for throws where
  opened: "b_effects b = [] \<Longrightarrow> creachable throws (new_client exact required b)"
| run: "creachable throws c \<Longrightarrow> cstep throws c c' \<Longrightarrow> creachable throws c'"

end
