(* ===== verification/ExecutorSpec.thy ===== *)
theory ExecutorSpec
  imports Executor
begin

text \<open>
  What the executor promises: an effect is ended exactly once, its frames come before its
  end, and a connection that was uninstalled runs nothing ever again.
\<close>

section \<open>Accounts\<close>

definition answersOf :: "'x executor \<Rightarrow> jsstr \<Rightarrow> bool list" where
  "answersOf e i = map (snd \<circ> snd) (filter (\<lambda>a. fst a = i) (e_answered e))"

text \<open>The ends of an effect: its final answers, its cancellations, and one that is still to come.\<close>

definition ends :: "'x executor \<Rightarrow> jsstr \<Rightarrow> nat" where
  "ends e i = count_list (answersOf e i) True + count_list (e_cancelled e) i + (if mhas (e_running e) i then 1 else 0)"

definition accounted :: "'x executor \<Rightarrow> bool" where
  "accounted e =
     (\<forall>i. ends e i \<le> count_list (e_asked e) i \<and> (i \<in> set (e_asked e) \<longrightarrow> 0 < ends e i)
        \<and> (count_list (e_asked e) i \<le> 1 \<longrightarrow> sorted (answersOf e i)))"

text \<open>Everything the account depends on.\<close>

definition same :: "'x executor \<Rightarrow> 'x executor \<Rightarrow> bool" where
  "same e e' = (e_asked e' = e_asked e \<and> e_answered e' = e_answered e \<and> e_cancelled e' = e_cancelled e
     \<and> mhas (e_running e') = mhas (e_running e))"

lemma accounted_same: "same e e' \<Longrightarrow> accounted e \<Longrightarrow> accounted e'"
  by (simp add: same_def accounted_def ends_def answersOf_def)

lemma mhas_mdel [simp]: "mhas (mdel k m) i = (i \<noteq> k \<and> mhas m i)"
  by (simp add: mhas_def delete_conv)

lemma sorted_all_False: "True \<notin> set bs \<Longrightarrow> sorted (bs @ [b :: bool])"
  by (induction bs) auto

lemma accounted_answer:
  assumes inv: "accounted e"
  shows "accounted (snd (answer refused effectId outcome final e))"
proof (cases "mhas (e_running e) effectId")
  case True
  let ?e = "snd (answer refused effectId outcome final e)"
  have f: "e_running ?e = (if final then mdel effectId (e_running e) else e_running e)"
    "e_asked ?e = e_asked e" "e_cancelled ?e = e_cancelled e" "e_answered ?e = e_answered e @ [(effectId, outcome, final)]"
    using True by (simp_all add: answer_def)
  have a: "answersOf ?e i = answersOf e i @ (if i = effectId then [final] else [])" for i
    by (simp add: f answersOf_def)
  have n: "ends ?e i = ends e i" for i
    using True by (simp add: ends_def a f)
  have "sorted (answersOf ?e i)" if c: "count_list (e_asked e) i \<le> 1" for i
  proof (cases "i = effectId")
    case i: True
    have "ends e i \<le> 1" using inv c unfolding accounted_def by (meson order_trans)
    then have "True \<notin> set (answersOf e i)" using True i by (simp add: ends_def count_list_0_iff)
    then show ?thesis using i by (simp add: a sorted_all_False)
  next
    case False
    then show ?thesis using inv c by (simp add: accounted_def a)
  qed
  then show ?thesis using inv unfolding accounted_def n f by simp
qed (use inv in \<open>simp add: answer_def\<close>)

lemma same_abortJob: "same e (abortJob n e)"
  by (auto simp: same_def abortJob_def split: option.splits job.splits)

lemma accounted_cancel:
  assumes inv: "accounted e"
  shows "accounted (cancel effectId e)"
proof (cases "map_of (e_running e) effectId")
  case (Some en)
  let ?e = "e\<lparr>e_running := mdel effectId (e_running e), e_cancelled := e_cancelled e @ [effectId]\<rparr>"
  have "answersOf ?e i = answersOf e i" "ends ?e i = ends e i" for i
    using Some by (simp_all add: answersOf_def ends_def) (auto simp: mhas_def)
  then have "accounted ?e" using inv by (simp add: accounted_def)
  then show ?thesis using Some by (auto simp: cancel_def Let_def intro: accounted_same [OF same_abortJob] split: option.splits)
qed (use inv in \<open>simp add: cancel_def\<close>)

lemma accounted_asked:
  assumes inv: "accounted e"
  shows "accounted (newJob effectId j (e\<lparr>e_running := mput effectId en (e_running e), e_asked := e_asked e @ [effectId]\<rparr>))"
    (is "accounted ?e")
proof -
  have a: "answersOf ?e i = answersOf e i" for i by (simp add: answersOf_def newJob_def)
  have n: "ends ?e i = (if i = effectId \<and> \<not> mhas (e_running e) i then Suc (ends e i) else ends e i)" for i
    unfolding ends_def a by (simp add: newJob_def)
  have f: "e_asked ?e = e_asked e @ [effectId]" by (simp add: newJob_def)
  show ?thesis unfolding accounted_def
  proof (intro allI conjI impI)
    fix i
    show "ends ?e i \<le> count_list (e_asked ?e) i" using inv by (auto simp: accounted_def n f le_SucI)
    show "sorted (answersOf ?e i)" if "count_list (e_asked ?e) i \<le> 1"
      using inv that by (auto simp: accounted_def a f split: if_splits)
    show "0 < ends ?e i" if "i \<in> set (e_asked ?e)"
    proof (cases "i = effectId")
      case True
      then show ?thesis by (simp add: ends_def a) (simp add: newJob_def)
    next
      case False
      then show ?thesis using inv that by (simp add: accounted_def n f)
    qed
  qed
qed

lemma same_setAbort: "same e (setAbort i n e)"
  by (auto simp: same_def setAbort_def mhas_def map_simps fun_eq_iff split: option.splits)

lemma accounted_socketEvent: "accounted e \<Longrightarrow> accounted (socketEvent refused i ev e)"
  by (cases ev) (simp_all add: socketEvent_def accounted_answer)

lemma accounted_socketEvents: "accounted e \<Longrightarrow> accounted (fold (socketEvent refused i) evs e)"
  by (induction evs arbitrary: e) (simp_all add: accounted_socketEvent)

lemma accounted_handle: "accounted e \<Longrightarrow> accounted (handle refused opened owner h effectId op e)"
  by (auto simp: handle_def Let_def accounted_asked accounted_answer accounted_socketEvents
      intro!: accounted_same [OF same_setAbort] split: handler.splits option.splits)

lemma accounted_bridge [simp]: "accounted (e\<lparr>e_bridge := b\<rparr>) = accounted e"
  by (simp add: accounted_def ends_def answersOf_def)

lemma accounted_cancels:
  "accounted e \<Longrightarrow> accounted (fold (\<lambda>(i, en) e. if en_owner en = owner then cancel i e else e) es e)"
  by (induction es arbitrary: e) (auto simp: accounted_cancel)

lemma same_startConnection: "same e (snd (startConnection refreshAuth e))"
  by (simp add: same_def startConnection_def owned_def install_def)

lemma same_prerequisites: "same e (snd (prerequisites handlers e))"
  by (simp add: same_def prerequisites_def owned_def install_def)

lemma accounted_step: "estep e e' \<Longrightarrow> accounted e \<Longrightarrow> accounted e'"
proof (induction rule: estep.induct)
  case (asked e throws refused opened effectId kind op)
  then show ?case by (auto simp: effectAsked_def Let_def accounted_handle split: option.splits)
next
  case (cancelling e throws effectId event)
  then show ?case by (simp add: effectCancelled_def accounted_cancel)
next
  case (settling e refused n r)
  have "accounted (e\<lparr>e_jobs := js\<rparr>)" for js using settling by (simp add: accounted_def ends_def answersOf_def)
  then show ?case using settling by (auto simp: jobSettled_def accounted_answer split: option.splits job.splits)
next
  case (hearing e refused n ev)
  then show ?case by (auto simp: socketHeard_def accounted_socketEvent split: option.splits job.splits)
next
  case (uninstalling e c)
  then show ?case by (simp add: uninstall_def Let_def abort_def accounted_cancels)
qed (auto intro: accounted_same [OF same_startConnection] accounted_same [OF same_prerequisites])

lemma ereachable_accounted: "ereachable e \<Longrightarrow> accounted e"
proof (induction rule: ereachable.induct)
  case (constructed b)
  show ?case by (simp add: new_executor_def install_def accounted_def ends_def answersOf_def mhas_def)
qed (rule accounted_step)

lemma frames_then_end:
  "sorted bs \<Longrightarrow> count_list bs True \<le> 1 \<Longrightarrow> \<exists>n. bs = replicate n False @ (if True \<in> set bs then [True] else [])"
proof (induction bs)
  case (Cons b bs)
  show ?case
  proof (cases b)
    case True
    have "bs = []"
    proof (cases bs)
      case (Cons c cs)
      then show ?thesis using Cons.prems True by (cases c) simp_all
    qed
    then show ?thesis using True by (intro exI [of _ 0]) simp
  next
    case False
    then obtain n where n: "bs = replicate n False @ (if True \<in> set bs then [True] else [])" using Cons by auto
    have "b # bs = replicate (Suc n) False @ (if True \<in> set (b # bs) then [True] else [])" using False n by auto
    then show ?thesis ..
  qed
qed simp

text \<open>
  C8: An effect the runtime asked once ends once: it is running, or it got one final answer,
  or it was cancelled, and exactly one of these. Its frames were answered before its final
  answer, and never after it.
\<close>

theorem effect_ends_once:
  assumes "ereachable e" and "count_list (e_asked e) i = 1"
  shows "count_list (answersOf e i) True + count_list (e_cancelled e) i + (if mhas (e_running e) i then 1 else 0) = 1
     \<and> (\<exists>n. answersOf e i = replicate n False @ (if True \<in> set (answersOf e i) then [True] else []))"
proof -
  have acc: "accounted e" using ereachable_accounted [OF assms(1)] .
  have "i \<in> set (e_asked e)" using assms(2) by (metis count_list_0_iff zero_neq_one)
  then have "0 < ends e i" "ends e i \<le> 1" "sorted (answersOf e i)"
    using acc assms(2) by (simp_all add: accounted_def) metis
  moreover have "count_list (answersOf e i) True \<le> 1" using calculation(2) by (simp add: ends_def split: if_splits)
  ultimately show ?thesis using frames_then_end [of "answersOf e i"] by (auto simp: ends_def)
qed

section \<open>Connections\<close>

lemma effectResult_effects [simp]: "b_effects (effectResult i v refused b) = b_effects b"
  by (simp add: effectResult_def Bridge.answer_def)

lemma answer_keeps [simp]:
  "b_effects (e_bridge (snd (answer refused i v final e))) = b_effects (e_bridge e)"
  "e_handlers (snd (answer refused i v final e)) = e_handlers e"
  "e_fresh (snd (answer refused i v final e)) = e_fresh e"
  by (simp_all add: answer_def)

lemma answer_running:
  "map_of (e_running (snd (answer refused i v final e))) k = Some en \<Longrightarrow> map_of (e_running e) k = Some en"
  by (auto simp: answer_def delete_conv split: if_splits)

text \<open>The handlers an owner has on the bridge.\<close>

definition bound :: "nat \<Rightarrow> 'x executor \<Rightarrow> (jsstr \<times> nat) set" where
  "bound owner e = {(kind, n). map_of (b_effects (e_bridge e)) kind = Some n \<and> (\<exists>h. map_of (e_handlers e) n = Some (owner, h))}"

text \<open>Nothing of the owner is running and nothing of it can be asked.\<close>

definition silent :: "nat \<Rightarrow> 'x executor \<Rightarrow> bool" where
  "silent owner e = (bound owner e = {} \<and> (\<forall>i en. map_of (e_running e) i = Some en \<longrightarrow> en_owner en \<noteq> owner))"

text \<open>
  What every operation keeps for the owners that exist: nothing new is bound to them, and an
  effect starts only through what is bound.
\<close>

definition keeps :: "nat \<Rightarrow> 'x executor \<Rightarrow> 'x executor \<Rightarrow> bool" where
  "keeps owner e e' = (owner < e_fresh e' \<and> bound owner e' \<subseteq> bound owner e \<and> (silent owner e \<longrightarrow> silent owner e'))"

definition dull :: "'x executor \<Rightarrow> 'x executor \<Rightarrow> bool" where
  "dull e e' = (b_effects (e_bridge e') = b_effects (e_bridge e) \<and> e_handlers e' = e_handlers e \<and> e_fresh e \<le> e_fresh e'
     \<and> (\<forall>i en. map_of (e_running e') i = Some en \<longrightarrow> (\<exists>en'. map_of (e_running e) i = Some en' \<and> en_owner en' = en_owner en)))"

lemma dull_refl [simp]: "dull e e"
  by (simp add: dull_def)

lemma dull_trans: "dull e e' \<Longrightarrow> dull e' e'' \<Longrightarrow> dull e e''"
  unfolding dull_def by (metis order_trans)

lemma keeps_dull: "dull e e' \<Longrightarrow> owner < e_fresh e \<Longrightarrow> keeps owner e e'"
  unfolding dull_def keeps_def silent_def bound_def by fastforce

lemma dull_answer: "dull e (snd (answer refused i v final e))"
  by (auto simp: dull_def dest: answer_running)

lemma dull_socketEvent: "dull e (socketEvent refused i ev e)"
  by (simp add: socketEvent_def dull_answer split: socket_event.splits)

lemma dull_fold: "(\<And>x e. dull e (f x e)) \<Longrightarrow> dull e (fold f xs e)"
  by (induction xs arbitrary: e) (auto intro: dull_trans)

lemma dull_abortJob: "dull e (abortJob n e)"
  by (auto simp: dull_def abortJob_def split: option.splits job.splits)

lemma dull_cancel: "dull e (cancel i e)"
proof -
  have "dull e (e\<lparr>e_running := mdel i (e_running e), e_cancelled := c\<rparr>)" for c
    by (auto simp: dull_def delete_conv split: if_splits)
  then show ?thesis by (auto simp: cancel_def Let_def intro: dull_trans [OF _ dull_abortJob] split: option.splits)
qed

lemma dull_setAbort: "dull e (setAbort i n e)"
  by (auto simp: dull_def setAbort_def map_simps split: option.splits if_splits)

lemma dull_bridge: "b_effects b = b_effects (e_bridge e) \<Longrightarrow> dull e (e\<lparr>e_bridge := b\<rparr>)"
  by (simp add: dull_def)

lemma keeps_trans: "keeps owner e e' \<Longrightarrow> keeps owner e' e'' \<Longrightarrow> keeps owner e e''"
  unfolding keeps_def by blast

lemma keeps_then_dull: "keeps owner e e' \<Longrightarrow> dull e' e'' \<Longrightarrow> keeps owner e e''"
  using keeps_trans keeps_dull unfolding keeps_def by blast

lemma keeps_asked:
  assumes "owner < e_fresh e" and "bound owner e \<noteq> {} \<or> owner' \<noteq> owner"
  shows "keeps owner e (newJob i j (e\<lparr>e_running := mput i \<lparr>en_owner = owner', en_abort = a\<rparr> (e_running e), e_asked := as\<rparr>))"
  using assms unfolding keeps_def silent_def bound_def by (auto simp: newJob_def map_simps split: if_splits)

lemma keeps_handle:
  assumes "owner < e_fresh e" and "bound owner e \<noteq> {} \<or> owner' \<noteq> owner"
  shows "keeps owner e (handle refused opened owner' h i op e)"
proof -
  let ?e = "newJob i (jobOf h op) (e\<lparr>e_running := mput i \<lparr>en_owner = owner', en_abort = None\<rparr> (e_running e), e_asked := e_asked e @ [i]\<rparr>)"
  let ?f = "fold (socketEvent refused i) (fst opened) ?e"
  have k: "keeps owner e ?e" by (rule keeps_asked [OF assms])
  have f: "dull ?e ?f" by (rule dull_fold) (rule dull_socketEvent)
  have "dull ?e (setAbort i n ?e)" "dull ?e (setAbort i n ?f)" "dull ?e (snd (answer refused i v True ?f))" for n v
    by (rule dull_setAbort, rule dull_trans [OF f dull_setAbort], rule dull_trans [OF f dull_answer])
  then show ?thesis unfolding handle_def Let_def
    by (auto intro: keeps_then_dull [OF k] k split: handler.splits option.splits)
qed

lemma offEffect_effects:
  "map_of (b_effects (offEffect kind' n' b)) kind = Some n \<longleftrightarrow> map_of (b_effects b) kind = Some n \<and> (kind, n) \<noteq> (kind', n')"
  by (auto simp: offEffect_def delete_conv)

lemma offEffects_effects:
  "map_of (b_effects (fold (\<lambda>(kind, n). offEffect kind n) ks b)) kind = Some n \<longleftrightarrow>
     map_of (b_effects b) kind = Some n \<and> (kind, n) \<notin> set ks"
proof (induction ks arbitrary: b)
  case (Cons k ks)
  obtain kind' n' where "k = (kind', n')" by fastforce
  then show ?case using Cons [of "offEffect kind' n' b"] offEffect_effects [of kind' n' b kind n] by auto
qed simp

lemma off_effects [simp]: "b_effects (off t l b) = b_effects b"
  by (simp add: off_def split: option.splits)

lemma on_effects [simp]: "b_effects (on t l b) = b_effects b"
  by (simp add: on_def)

lemma bound_uninstalled:
  "bound owner (e\<lparr>e_bridge := (case l of None \<Rightarrow> fold (\<lambda>(kind, n). offEffect kind n) ks (e_bridge e)
       | Some l \<Rightarrow> off t l (fold (\<lambda>(kind, n). offEffect kind n) ks (e_bridge e)))\<rparr>) = bound owner e - set ks"
  by (auto simp: bound_def offEffects_effects split: option.splits)

lemma dull_cancels: "dull e (fold (\<lambda>(i, en) e. if en_owner en = owner then cancel i e else e) es e)"
  by (rule dull_fold) (auto simp: dull_cancel)

lemma keeps_uninstall:
  assumes "owner < e_fresh e"
  shows "keeps owner e (uninstall c e)"
proof -
  let ?b = "case in_listener c of None \<Rightarrow> fold (\<lambda>(kind, n). offEffect kind n) (in_kinds c) (e_bridge e)
       | Some l \<Rightarrow> off (js ''report'') l (fold (\<lambda>(kind, n). offEffect kind n) (in_kinds c) (e_bridge e))"
  have "keeps owner e (e\<lparr>e_bridge := ?b\<rparr>)"
    using assms unfolding keeps_def silent_def bound_uninstalled by auto
  then show ?thesis unfolding uninstall_def abort_def Let_def by (rule keeps_then_dull) (rule dull_cancels)
qed

lemma emit_effects [simp]: "b_effects (emit throws t ev b) = b_effects b"
proof -
  have "b_effects (fold (hear throws ev) ls b) = b_effects b" for ls
    by (induction ls arbitrary: b) (simp_all add: hear_def)
  then show ?thesis by (simp add: emit_def)
qed

lemma effect_effects [simp]: "b_effects (effect throws refused i (AskOther kind op) b) = b_effects b"
  by (simp add: effect_def hear_def split: option.splits)

lemma keeps_step: "estep e e' \<Longrightarrow> owner < e_fresh e \<Longrightarrow> keeps owner e e'"
proof (induction rule: estep.induct)
  case (asked e throws refused opened i kind op)
  let ?e = "e\<lparr>e_bridge := effect throws refused i (AskOther kind op) (e_bridge e)\<rparr>"
  have d: "dull e ?e" by (rule dull_bridge) simp
  have k: "keeps owner e ?e" by (rule keeps_dull [OF d asked])
  show ?case
  proof (cases "Option.bind (map_of (b_effects (e_bridge e)) kind) (map_of (e_handlers e))")
    case (Some oh)
    then obtain n where "map_of (b_effects (e_bridge e)) kind = Some n" "map_of (e_handlers e) n = Some (fst oh, snd oh)"
      by (auto simp: bind_eq_Some_conv)
    then have "(kind, n) \<in> bound (fst oh) ?e" unfolding bound_def by (cases oh) auto
    then have "keeps owner ?e (handle refused opened (fst oh) (snd oh) i op ?e)"
      using asked by (intro keeps_handle) auto
    then show ?thesis using Some keeps_trans [OF k] by (simp add: effectAsked_def Let_def case_prod_beta)
  qed (use k in \<open>simp add: effectAsked_def Let_def\<close>)
next
  case (cancelling e throws i ev)
  have "dull e (e\<lparr>e_bridge := dispatch throws False (CancelEffect i ev) (e_bridge e)\<rparr>)"
    by (rule dull_bridge) (simp add: cancelCallback_def)
  from keeps_dull [OF dull_trans [OF this dull_cancel] cancelling] show ?case by (simp only: effectCancelled_def)
next
  case (settling e refused n r)
  have "dull e (e\<lparr>e_jobs := js\<rparr>)" for js by (simp add: dull_def)
  then have "dull e (jobSettled refused n r e)"
    by (auto simp: jobSettled_def intro: dull_trans [OF _ dull_answer] split: option.splits job.splits)
  then show ?case using keeps_dull settling by blast
next
  case (hearing e refused n ev)
  have "dull e (socketHeard refused n ev e)" by (simp add: socketHeard_def dull_socketEvent split: option.splits job.splits)
  then show ?case using keeps_dull hearing by blast
next
  case (uninstalling e c)
  then show ?case by (rule keeps_uninstall)
next
  case (elsewhere b e)
  then show ?case by (intro keeps_dull dull_bridge)
next
  case (connecting e refreshAuth)
  then show ?case unfolding keeps_def silent_def bound_def
    by (auto simp: startConnection_def owned_def install_def onEffect_def map_simps split: if_splits)
next
  case (prerequisite e handlers)
  then show ?case unfolding keeps_def silent_def bound_def
    by (auto simp: prerequisites_def owned_def install_def onEffect_def map_simps split: if_splits)
qed

lemma keeps_run: "estep\<^sup>*\<^sup>* e e' \<Longrightarrow> owner < e_fresh e \<Longrightarrow> keeps owner e e'"
proof (induction rule: rtranclp_induct)
  case base
  then show ?case by (simp add: keeps_def)
next
  case (step e' e'')
  then have "keeps owner e e'" by blast
  moreover from this have "keeps owner e' e''" using keeps_step [OF step.hyps(2)] by (simp add: keeps_def)
  ultimately show ?case by (rule keeps_trans)
qed

text \<open>Numbers are issued once: what is installed is older than the next number.\<close>

definition issued :: "'x executor \<Rightarrow> bool" where
  "issued e = ((\<forall>n owner h. map_of (e_handlers e) n = Some (owner, h) \<longrightarrow> owner < e_fresh e)
     \<and> (\<forall>kind n. map_of (b_effects (e_bridge e)) kind = Some n \<longrightarrow> n < e_fresh e))"

lemma issued_dull: "dull e e' \<Longrightarrow> issued e \<Longrightarrow> issued e'"
  unfolding dull_def issued_def by (metis order_less_le_trans)

lemma issued_handle:
  assumes "issued e"
  shows "issued (handle refused opened owner h i op e)"
proof -
  let ?e = "\<lambda>j. newJob i j (e\<lparr>e_running := mput i \<lparr>en_owner = owner, en_abort = None\<rparr> (e_running e), e_asked := e_asked e @ [i]\<rparr>)"
  have k: "issued (?e j)" for j using assms by (fastforce simp: issued_def newJob_def)
  have f: "issued (fold (socketEvent refused i) (fst opened) (?e j))" for j
    by (rule issued_dull [OF dull_fold k]) (rule dull_socketEvent)
  show ?thesis unfolding handle_def Let_def
    by (cases h; cases "snd opened")
      (simp_all add: k issued_dull [OF dull_setAbort k] issued_dull [OF dull_setAbort f] issued_dull [OF dull_answer f])
qed

lemma issued_step: "estep e e' \<Longrightarrow> issued e \<Longrightarrow> issued e'"
proof (induction rule: estep.induct)
  case (asked e throws refused opened i kind op)
  have "issued (e\<lparr>e_bridge := effect throws refused i (AskOther kind op) (e_bridge e)\<rparr>)"
    by (rule issued_dull [OF dull_bridge asked]) simp
  then show ?case by (auto simp: effectAsked_def Let_def issued_handle split: option.splits)
next
  case (cancelling e throws i ev)
  have "issued (e\<lparr>e_bridge := dispatch throws False (CancelEffect i ev) (e_bridge e)\<rparr>)"
    by (rule issued_dull [OF dull_bridge cancelling]) (simp add: cancelCallback_def)
  then show ?case unfolding effectCancelled_def by (rule issued_dull [OF dull_cancel])
next
  case (settling e refused n r)
  have "issued (e\<lparr>e_jobs := js\<rparr>)" for js using settling by (simp add: issued_def)
  then show ?case using settling
    by (auto simp: jobSettled_def intro: issued_dull [OF dull_answer] split: option.splits job.splits)
next
  case (hearing e refused n ev)
  then show ?case by (auto simp: socketHeard_def intro: issued_dull [OF dull_socketEvent] split: option.splits job.splits)
next
  case (uninstalling e c)
  have "issued (e\<lparr>e_bridge := (case in_listener c of None \<Rightarrow> fold (\<lambda>(kind, n). offEffect kind n) (in_kinds c) (e_bridge e)
       | Some l \<Rightarrow> off (js ''report'') l (fold (\<lambda>(kind, n). offEffect kind n) (in_kinds c) (e_bridge e)))\<rparr>)"
    using uninstalling by (auto simp: issued_def offEffects_effects split: option.splits)
  then show ?case unfolding uninstall_def abort_def Let_def by (rule issued_dull [OF dull_cancels])
next
  case (connecting e refreshAuth)
  then show ?case
    by (fastforce simp: issued_def startConnection_def owned_def install_def onEffect_def map_simps split: if_splits)
next
  case (prerequisite e handlers)
  then show ?case by (fastforce simp: issued_def prerequisites_def owned_def install_def onEffect_def map_simps split: if_splits)
next
  case (elsewhere b e)
  then show ?case by (simp add: issued_def)
qed

lemma ereachable_issued: "ereachable e \<Longrightarrow> issued e"
proof (induction rule: ereachable.induct)
  case (constructed b)
  then show ?case by (auto simp: new_executor_def install_def onEffect_def issued_def split: if_splits)
qed (rule issued_step)

lemma started_bound:
  assumes "issued e" and "startConnection refreshAuth e = (c, e')"
  shows "bound (in_owner c) e' \<subseteq> set (in_kinds c)" and "in_owner c < e_fresh e'"
proof -
  have "\<nexists>n h. map_of (e_handlers e) n = Some (e_fresh e, h)" "\<nexists>kind k. map_of (b_effects (e_bridge e)) kind = Some (e_fresh e + k)"
    using assms(1) unfolding issued_def by (blast, force)
  from this this(2) [simplified, THEN spec, THEN spec, of _ "Suc 0"] this(2) [simplified, THEN spec, THEN spec, of _ "Suc (Suc 0)"]
    this(2) [simplified, THEN spec, THEN spec, of _ "Suc (Suc (Suc 0))"]
  show "bound (in_owner c) e' \<subseteq> set (in_kinds c)" "in_owner c < e_fresh e'" using assms(2)
    unfolding bound_def by (auto simp: startConnection_def owned_def install_def onEffect_def map_simps split: if_splits)
qed

lemma map_of_cancel: "map_of (e_running (cancel i e)) = (map_of (e_running e))(i := None)"
  by (auto simp: cancel_def Let_def abortJob_def delete_conv' split: option.splits job.splits)

lemma cancels_running:
  "map_of (e_running (fold (\<lambda>(i, en) e. if en_owner en = owner then cancel i e else e) es e)) k =
     (if \<exists>en. (k, en) \<in> set es \<and> en_owner en = owner then None else map_of (e_running e) k)"
proof (induction es arbitrary: e)
  case (Cons x es)
  obtain i en where x: "x = (i, en)" by fastforce
  show ?case
  proof (cases "en_owner en = owner")
    case True
    then show ?thesis using Cons [of "cancel i e"] x by (auto simp: map_of_cancel)
  next
    case False
    then show ?thesis using Cons [of e] x by auto
  qed
qed simp

lemma uninstall_running:
  "map_of (e_running (uninstall c e)) k =
     (if \<exists>en. (k, en) \<in> set (e_running e) \<and> en_owner en = in_owner c then None else map_of (e_running e) k)"
  by (auto simp: uninstall_def abort_def Let_def cancels_running)

lemma cancels_handlers:
  "e_handlers (fold (\<lambda>(i, en) e. if en_owner en = owner then cancel i e else e) es e) = e_handlers e"
  "b_effects (e_bridge (fold (\<lambda>(i, en) e. if en_owner en = owner then cancel i e else e) es e)) = b_effects (e_bridge e)"
  using dull_cancels [of e owner es] by (simp_all add: dull_def)

lemma uninstall_bound: "bound owner (uninstall c e) = bound owner e - set (in_kinds c)"
  using bound_uninstalled [where l = "in_listener c" and ks = "in_kinds c" and t = "js ''report''"]
  by (simp add: uninstall_def abort_def Let_def bound_def cancels_handlers)

text \<open>
  C38: A connection that was uninstalled runs nothing ever again, whatever the runtime asks and
  whatever is installed after it; and its uninstallation leaves the running effects of
  others as they were.
\<close>

theorem uninstalled_connection_is_silent:
  assumes "ereachable e" and "startConnection refreshAuth e = (c, e1)" and "estep\<^sup>*\<^sup>* e1 e2"
  shows "(estep\<^sup>*\<^sup>* (uninstall c e2) e3 \<longrightarrow> map_of (e_running e3) i = Some en \<longrightarrow> en_owner en \<noteq> in_owner c)
     \<and> (list_all (\<lambda>(k, en'). k = i \<longrightarrow> en_owner en' \<noteq> in_owner c) (e_running e2) \<longrightarrow>
          map_of (e_running (uninstall c e2)) i = map_of (e_running e2) i)"
proof -
  note st = started_bound [OF ereachable_issued [OF assms(1)] assms(2)]
  have k: "keeps (in_owner c) e1 e2" by (rule keeps_run [OF assms(3) st(2)])
  have "silent (in_owner c) (uninstall c e2)" unfolding silent_def uninstall_bound
    using k st(1) by (auto simp: keeps_def uninstall_running dest: map_of_SomeD split: if_splits)
  moreover have "in_owner c < e_fresh (uninstall c e2)" using keeps_uninstall [of "in_owner c" e2 c] k by (simp add: keeps_def)
  ultimately have "estep\<^sup>*\<^sup>* (uninstall c e2) e3 \<Longrightarrow> silent (in_owner c) e3" using keeps_run unfolding keeps_def by blast
  then show ?thesis by (auto simp: silent_def uninstall_running list_all_iff)
qed

section \<open>Witnesses\<close>

definition ex_effects :: "unit executor" where
  "ex_effects = snd (startConnection False (new_executor new_bridge))"

definition ex_answered :: "unit executor" where
  "ex_answered = jobSettled False 7 (Inr (Str (js ''page'')))
     (effectAsked (\<lambda>_ _. False) False ([], None) (js ''e1'') (js ''http'') (Obj []) ex_effects)"

lemmas executor_run = ex_answered_def ex_effects_def startConnection_def owned_def install_def new_executor_def new_bridge_def on_def
  onEffect_def effectAsked_def effect_def hear_def handle_def newJob_def setAbort_def jobSettled_def answer_def effectResult_def
  Bridge.answer_def jobOf_def js_def Let_def mhas_def

lemma ex_effects_reachable: "ereachable (new_executor new_bridge :: unit executor)" "ereachable ex_effects" "ereachable ex_answered"
  unfolding ex_answered_def ex_effects_def
  by (intro ereachable.run [OF _ estep.settling] ereachable.run [OF _ estep.asked] ereachable.run [OF _ estep.connecting]
      ereachable.constructed; simp add: new_bridge_def)+

theorem effect_ends_once_witness: "count_list (answersOf ex_answered (js ''e1'')) True = 1 \<and> \<not> mhas (e_running ex_answered) (js ''e1'')"
proof -
  have a: "count_list (e_asked ex_answered) (js ''e1'') = 1" by (simp add: executor_run)
  have "True \<in> set (answersOf ex_answered (js ''e1''))" by (simp add: executor_run answersOf_def)
  then have "0 < count_list (answersOf ex_answered (js ''e1'')) True" by (metis count_list_0_iff gr0I)
  then show ?thesis using effect_ends_once [OF ex_effects_reachable(3) a] by (auto split: if_splits)
qed

theorem uninstalled_connection_is_silent_witness:
  "map_of (e_running (uninstall (fst (startConnection False (new_executor (new_bridge :: unit bridge)))) ex_effects)) (js ''t'') = None"
proof -
  have r: "startConnection False (new_executor new_bridge) =
      (fst (startConnection False (new_executor (new_bridge :: unit bridge))), ex_effects)" by (simp add: ex_effects_def)
  have "e_running ex_effects = []" by (simp add: executor_run)
  then show ?thesis using uninstalled_connection_is_silent [OF ex_effects_reachable(1) r rtranclp.rtrancl_refl, of _ "js ''t''"]
    by simp
qed

end
