(* ===== verification/CallsSpec.thy ===== *)
theory CallsSpec
  imports Calls
begin

text \<open>
  What the registry of calls promises, over every run of its operations, completions,
  lookups and collections: the invariant \<open>wfr\<close> by rule induction on the step relation, and
  from it that an outcome is final, that a completion reaches every live handle, that a
  handle somebody awaits stays held until it settles, and that closing settles them all.
\<close>

section \<open>Lookups after an update\<close>

lemma map_of_filter_mok:
  "mok m \<Longrightarrow> map_of (filter P m) k = (case map_of m k of Some v \<Rightarrow> if P (k, v) then Some v else None | None \<Rightarrow> None)"
proof (induction m)
  case (Cons kv m)
  then show ?case by (cases kv) (auto simp: map_of_eq_None_iff split: option.splits)
qed simp

lemma onCall_simps [simp]:
  "dead (onCall h f r) = dead r" "routes (onCall h f r) = routes r" "active (onCall h f r) = active r"
  "looking (onCall h f r) = looking r" "Calls.closed (onCall h f r) = Calls.closed r" "over (onCall h f r) = over r"
  "length (store (onCall h f r)) = length (store r)"
  "i < length (store r) \<Longrightarrow> store (onCall h f r) ! i = (if i = h then f (store r ! h) else store r ! i)"
  by (auto simp: onCall_def nth_list_update)

lemma onCall_twice: "h < length (store r) \<Longrightarrow> onCall h g (onCall h f r) = onCall h (\<lambda>c. g (f c)) r"
  by (simp add: onCall_def)

lemma call_simps [simp]:
  "c_id (commit c) = c_id c" "c_id (rollBack c) = c_id c" "c_id (settleCall o' c) = c_id c"
  "c_lifecycle (settleCall o' c) = c_lifecycle c"
  "c_outcome (commit c) = c_outcome c" "c_outcome (rollBack c) = c_outcome c"
  "c_outcome (settleCall o' c) = (case c_outcome c of None \<Rightarrow> Some o' | Some x \<Rightarrow> Some x)"
  "c_lifecycle (commit c) = (if c_lifecycle c = Provisional then Committed else c_lifecycle c)"
  "c_lifecycle (rollBack c) = (if c_lifecycle c = Provisional then RolledBack else c_lifecycle c)"
  by (auto simp: commit_def rollBack_def settleCall_def)

lemma sweep_simps [simp]:
  "store (sweep r) = store r" "dead (sweep r) = dead r" "active (sweep r) = active r" "looking (sweep r) = looking r"
  "Calls.closed (sweep r) = Calls.closed r" "over (sweep r) = over r" "deref (sweep r) = deref r"
  by (simp_all add: sweep_def deref_def fun_eq_iff)

section \<open>The invariant\<close>

definition consistent :: "'v call_state \<Rightarrow> bool" where
  "consistent c = (c_status c =
     (case c_outcome c of
        None \<Rightarrow> if c_lifecycle c = RolledBack then FailedStatus else Pending
      | Some (Result _) \<Rightarrow> Succeeded | Some (Failure _) \<Rightarrow> FailedStatus)
    \<and> (c_lifecycle c = RolledBack \<longrightarrow> c_outcome c = None))"

text \<open>A route names a live-or-active, undecided handle by its own cid; closed, only a provisional one.\<close>

definition routed :: "'v registry \<Rightarrow> jsstr \<Rightarrow> nat \<Rightarrow> bool" where
  "routed r cid h =
     (h < length (store r) \<and> c_id (store r ! h) = cid \<and> c_lifecycle (store r ! h) \<noteq> RolledBack \<and> c_outcome (store r ! h) = None
      \<and> (Calls.closed r \<longrightarrow> c_lifecycle (store r ! h) = Provisional))"

definition held :: "'v registry \<Rightarrow> jsstr \<Rightarrow> nat \<Rightarrow> bool" where
  "held r cid h =
     (h \<notin> set (dead r) \<and> c_lifecycle (store r ! h) = Committed \<and> (\<exists>d. map_of (routes r) cid = Some (h, d)))"

definition undecided :: "'v registry \<Rightarrow> nat \<Rightarrow> bool" where
  "undecided r h =
     (h < length (store r) \<and> h \<notin> set (dead r) \<and> c_outcome (store r ! h) = None \<and> c_lifecycle (store r ! h) \<noteq> RolledBack)"

definition wfr :: "'v registry \<Rightarrow> bool" where
  "wfr r =
     (mok (routes r) \<and> mok (active r) \<and> distinct (map c_id (store r))
      \<and> (\<forall>cid h d. map_of (routes r) cid = Some (h, d) \<longrightarrow> routed r cid h)
      \<and> (\<forall>cid h. map_of (active r) cid = Some h \<longrightarrow> held r cid h)
      \<and> (\<forall>(cid, h) \<in> set (looking r). h < length (store r) \<and> c_id (store r ! h) = cid)
      \<and> (\<forall>h. undecided r h \<longrightarrow> (\<exists>d. map_of (routes r) (c_id (store r ! h)) = Some (h, d)))
      \<and> (Calls.closed r \<longrightarrow> active r = []) \<and> (over r \<longrightarrow> Calls.closed r \<and> routes r = [])
      \<and> list_all consistent (store r))"

lemma wfrD:
  assumes "wfr r"
  shows "mok (routes r)" "mok (active r)" "distinct (map c_id (store r))"
    "map_of (routes r) cid = Some (h, d) \<Longrightarrow> routed r cid h"
    "map_of (active r) cid = Some h \<Longrightarrow> held r cid h"
    "(cid, h) \<in> set (looking r) \<Longrightarrow> h < length (store r) \<and> c_id (store r ! h) = cid"
    "undecided r h \<Longrightarrow> \<exists>d. map_of (routes r) (c_id (store r ! h)) = Some (h, d)"
    "Calls.closed r \<Longrightarrow> active r = []" "over r \<Longrightarrow> Calls.closed r \<and> routes r = []"
    "i < length (store r) \<Longrightarrow> consistent (store r ! i)"
  using assms by (auto simp: wfr_def list_all_length)

lemma same_id:
  assumes "wfr r" "i < length (store r)" "j < length (store r)" "c_id (store r ! i) = c_id (store r ! j)"
  shows "i = j"
  using assms wfrD(3) [OF assms(1)] by (simp add: distinct_conv_nth) metis

lemma wfrI:
  assumes "mok (routes r)" "mok (active r)" "distinct (map c_id (store r))"
    "\<And>cid h d. map_of (routes r) cid = Some (h, d) \<Longrightarrow> routed r cid h"
    "\<And>cid h. map_of (active r) cid = Some h \<Longrightarrow> held r cid h"
    "\<forall>(cid, h) \<in> set (looking r). h < length (store r) \<and> c_id (store r ! h) = cid"
    "\<And>h. undecided r h \<Longrightarrow> \<exists>d. map_of (routes r) (c_id (store r ! h)) = Some (h, d)"
    "Calls.closed r \<Longrightarrow> active r = []" "over r \<Longrightarrow> Calls.closed r \<and> routes r = []" "list_all consistent (store r)"
  shows "wfr r"
  unfolding wfr_def using assms by blast

lemma wfr_start: "wfr (new_registry hl ok)"
  by (simp add: wfr_def new_registry_def undecided_def)

lemma sweep_routes:
  assumes "wfr r"
  shows "map_of (routes (sweep r)) cid = (case map_of (routes r) cid of
    Some (h, d) \<Rightarrow> if h \<notin> set (dead r) \<or> mhas (active r) cid then Some (h, d) else None | None \<Rightarrow> None)"
  using wfrD(1) [OF assms] by (auto simp: sweep_def map_of_filter_mok deref_def split: option.splits)

lemma wfr_sweep:
  assumes "wfr r"
  shows "wfr (sweep r)"
proof -
  note w = wfrD [OF assms] and s = sweep_routes [OF assms]
  have "mok (routes (sweep r))" using w(1) by (simp add: sweep_def mok_filter)
  moreover have "routed (sweep r) cid h" if "map_of (routes (sweep r)) cid = Some (h, d)" for cid h d
    using that w(4) by (auto simp: s routed_def split: option.splits if_splits)
  moreover have "held (sweep r) cid h" if "map_of (active r) cid = Some h" for cid h
    using w(5) [OF that] that by (auto simp: held_def s)
  moreover have "\<exists>d. map_of (routes (sweep r)) (c_id (store r ! h)) = Some (h, d)" if "undecided (sweep r) h" for h
    using w(7) [of h] that by (auto simp: undecided_def s)
  moreover have "over r \<Longrightarrow> routes (sweep r) = []" using w(9) by (simp add: sweep_def)
  ultimately show ?thesis
    using w by (auto simp: wfr_def list_all_length)
qed

text \<open>What is held is the handle its route names, so a target is that handle.\<close>

lemma target_route:
  assumes "wfr r"
  shows "target r cid = (case map_of (routes r) cid of None \<Rightarrow> None | Some (h, _) \<Rightarrow> if h \<in> set (dead r) then None else Some h)"
  using wfrD(5) [OF assms, of cid]
  by (cases "map_of (active r) cid") (auto simp: target_def held_def deref_def split: option.splits)

lemma wfr_decide:
  assumes wf: "wfr r" and rt: "map_of (routes r) cid = Some (h, d)"
    and f: "c_id (f (store r ! h)) = c_id (store r ! h)" "consistent (f (store r ! h))"
      "c_outcome (f (store r ! h)) \<noteq> None \<or> c_lifecycle (f (store r ! h)) = RolledBack"
  shows "wfr ((onCall h f r)\<lparr>routes := mdel cid (routes r), active := mdel cid (active r)\<rparr>)"
    (is "wfr ?r")
proof -
  note w = wfrD [OF wf]
  have h: "h < length (store r)" "c_id (store r ! h) = cid" using w(4) [OF rt] by (auto simp: routed_def)
  have other: "i \<noteq> h" if "map_of (routes r) k = Some (i, d')" "k \<noteq> cid" for i k d'
    using w(4) [OF that(1)] h that(2) by (auto simp: routed_def)
  have ids: "map c_id (store ?r) = map c_id (store r)"
    using f(1) h(1) by (simp add: onCall_def map_update list_update_same_conv)
  have "routed ?r k i" if "map_of (routes ?r) k = Some (i, d')" for k i d'
    using that other [of k i d'] w(4) [of k i d'] by (auto simp: routed_def map_simps split: if_splits)
  moreover have "held ?r k i" if "map_of (active ?r) k = Some i" for k i
  proof -
    have k: "k \<noteq> cid" "map_of (active r) k = Some i" using that by (auto simp: map_simps split: if_splits)
    then obtain d' where d': "map_of (routes r) k = Some (i, d')" using w(5) by (auto simp: held_def)
    then show ?thesis
      using w(5) [OF k(2)] other [OF d' k(1)] w(4) [OF d'] k(1) by (auto simp: held_def routed_def map_simps)
  qed
  moreover have "\<exists>d. map_of (routes ?r) (c_id (store ?r ! i)) = Some (i, d)" if u: "undecided ?r i" for i
  proof -
    have i: "i \<noteq> h" "undecided r i" using u f(3) by (auto simp: undecided_def split: if_splits)
    then have "c_id (store r ! i) \<noteq> cid" using same_id [OF wf, of i h] h by (auto simp: undecided_def)
    then show ?thesis using w(7) [OF i(2)] i h by (auto simp: map_simps undecided_def)
  qed
  moreover have "list_all consistent (store ?r)" using w(10) f(2) h by (auto simp: list_all_length)
  moreover have "mok (routes ?r)" "mok (active ?r)" using w by (simp_all add: map_simps)
  moreover have "over r \<Longrightarrow> routes ?r = []" using w(9) rt by simp
  moreover have "\<forall>(id, i) \<in> set (looking r). i < length (store ?r) \<and> c_id (store ?r ! i) = id"
    using w(6) f(1) by auto
  ultimately show ?thesis
    unfolding wfr_def using w ids by simp
qed

lemma consistent_settle: "consistent c \<Longrightarrow> c_lifecycle c \<noteq> RolledBack \<Longrightarrow> consistent (settleCall o' c)"
  by (auto simp: consistent_def settleCall_def split: option.splits outcome.splits)

lemma consistent_commit: "consistent c \<Longrightarrow> consistent (commit c)"
  by (auto simp: consistent_def commit_def split: option.splits outcome.splits if_splits)

lemma consistent_rollBack: "consistent c \<Longrightarrow> c_outcome c = None \<Longrightarrow> consistent (rollBack c)"
  by (auto simp: consistent_def rollBack_def split: option.splits outcome.splits if_splits)

lemma wfr_complete:
  assumes wf: "wfr r"
  shows "wfr (complete cid a r)"
proof (cases "target (sweep r) cid")
  case None
  then show ?thesis using wfr_sweep [OF wf] by (simp add: complete_def Let_def)
next
  case (Some h)
  note sw = wfr_sweep [OF wf]
  obtain d where rt: "map_of (routes (sweep r)) cid = Some (h, d)"
    using Some by (auto simp: target_route [OF sw] split: option.splits if_splits)
  let ?f = "\<lambda>c. settleCall (decoded (map_of (routes (sweep r)) cid) a) (commit c)"
  have h: "h < length (store r)" "c_lifecycle (store r ! h) \<noteq> RolledBack" "c_outcome (store r ! h) = None" "consistent (store r ! h)"
    using wfrD(4) [OF sw rt] wfrD(10) [OF sw, of h] by (auto simp: routed_def)
  show ?thesis
    using wfr_decide [OF sw rt, of ?f] h Some
    by (simp add: complete_def Let_def consistent_settle consistent_commit onCall_twice)
qed

lemma wfr_looking:
  assumes "wfr r" "set l \<subseteq> set (looking r)"
  shows "wfr (r\<lparr>looking := l\<rparr>)"
  using assms by (auto simp: wfr_def routed_def held_def undecided_def)

lemma wfr_unlook: "wfr r \<Longrightarrow> wfr (r\<lparr>looking := mdel cid (looking r)\<rparr>)"
  by (erule wfr_looking) (rule set_mdel_subset)

lemma wfr_lookupAnswered: "wfr r \<Longrightarrow> wfr (lookupAnswered cid c r)"
  by (cases c) (auto simp: lookupAnswered_def Let_def intro!: wfr_complete wfr_unlook)

lemma wfr_lookupFailed:
  assumes wf: "wfr r" and l: "map_of (looking r) cid = Some h"
  shows "wfr (lookupFailed cid h r)"
proof (cases "mhas (active r) cid")
  case False
  then show ?thesis using wf by (simp add: lookupFailed_def Let_def wfr_unlook)
next
  case True
  then obtain a where a: "map_of (active r) cid = Some a" by (auto simp: mhas_def)
  then obtain d where rt: "map_of (routes r) cid = Some (a, d)" using wfrD(5) [OF wf] by (auto simp: held_def)
  have ra: "routed r cid a" using wfrD(4) [OF wf rt] .
  have "a = h"
    using same_id [OF wf, of a h] wfrD(6) [OF wf map_of_SomeD [OF l]] ra by (simp add: routed_def)
  moreover have "consistent (store r ! a)" using wfrD(10) [OF wf] ra by (simp add: routed_def)
  ultimately have "wfr ((onCall h (settleCall observationFailed) r)\<lparr>routes := mdel cid (routes r), active := mdel cid (active r)\<rparr>)"
    using wfr_decide [OF wf rt, of "settleCall observationFailed"] ra by (auto simp: routed_def consistent_settle)
  from wfr_unlook [OF this, of cid] True show ?thesis
    by (simp add: lookupFailed_def Let_def)
qed

lemma provisional_inactive:
  assumes "wfr r" "map_of (routes r) cid = Some (h, d)" "c_lifecycle (store r ! h) = Provisional"
  shows "mdel cid (active r) = active r"
  using wfrD(5) [OF assms(1), of cid] assms(2,3) by (cases "map_of (active r) cid") (auto simp: held_def mdel_absent)

lemma wfr_commit:
  assumes wf: "wfr r" and rt: "map_of (routes r) cid = Some (h, d)" and open': "\<not> Calls.closed r"
  shows "wfr (onCall h commit r)"
proof -
  note w = wfrD [OF wf]
  have h: "h < length (store r)" using w(4) [OF rt] by (simp add: routed_def)
  have "map c_id (store (onCall h commit r)) = map c_id (store r)"
    using h by (simp add: onCall_def map_update list_update_same_conv)
  moreover have "routed (onCall h commit r) k i" if "map_of (routes r) k = Some (i, d')" for k i d'
    using w(4) [OF that] open' by (auto simp: routed_def)
  moreover have "held (onCall h commit r) k i" if "map_of (active r) k = Some i" for k i
    using w(5) [OF that] w(4) by (fastforce simp: held_def routed_def)
  moreover have "\<exists>d. map_of (routes r) (c_id (store (onCall h commit r) ! i)) = Some (i, d)" if "undecided (onCall h commit r) i" for i
    using that w(7) [of i] by (auto simp: undecided_def split: if_splits)
  moreover have "list_all consistent (store (onCall h commit r))" using w(10) h by (auto simp: list_all_length consistent_commit)
  moreover have "\<forall>(id, i) \<in> set (looking r). i < length (store r) \<and> c_id (store (onCall h commit r) ! i) = id" using w(6) by auto
  moreover have "\<not> over r" using w(9) open' by blast
  ultimately show ?thesis unfolding wfr_def using w open' by simp
qed

lemma wfr_transition:
  assumes wf: "wfr r"
  shows "wfr (transition cid committed r)"
proof -
  note sw = wfr_sweep [OF wf]
  show ?thesis
  proof (cases "map_of (routes (sweep r)) cid")
    case None
    then show ?thesis using sw by (simp add: transition_def Let_def)
  next
    case (Some hd)
    obtain h d where hd: "hd = (h, d)" by fastforce
    note rt = Some [unfolded hd]
    have ra: "h < length (store r)" "c_outcome (store r ! h) = None" "consistent (store r ! h)"
      using wfrD(4) [OF sw rt] wfrD(10) [OF sw, of h] by (auto simp: routed_def)
    show ?thesis
    proof (cases "deref r h = None \<or> c_lifecycle (store r ! h) \<noteq> Provisional")
      case True
      then show ?thesis using sw rt by (simp add: transition_def Let_def)
    next
      case False
      then have p: "c_lifecycle (store r ! h) = Provisional" by simp
      have act: "mdel cid (active r) = active r" using provisional_inactive [OF sw rt] p by simp
      have rec: "q\<lparr>routes := x, active := active r\<rparr> = q\<lparr>routes := x\<rparr>" if "active q = active r" for q :: "'a registry" and x
        using that by simp
      have dec: "wfr ((onCall h f (sweep r))\<lparr>routes := mdel cid (routes (sweep r))\<rparr>)"
        if "c_id (f (store r ! h)) = c_id (store r ! h)" "consistent (f (store r ! h))"
           "c_outcome (f (store r ! h)) \<noteq> None \<or> c_lifecycle (f (store r ! h)) = RolledBack" for f
        using wfr_decide [OF sw rt, of f] that act by (simp add: rec)
      have "wfr ((onCall h (\<lambda>c. settleCall clientClosed (commit c)) (sweep r))\<lparr>routes := mdel cid (routes (sweep r))\<rparr>)"
        using ra p by (intro dec) (auto simp: consistent_settle consistent_commit)
      moreover have "wfr ((onCall h rollBack (sweep r))\<lparr>routes := mdel cid (routes (sweep r))\<rparr>)"
        using ra p by (intro dec) (auto simp: consistent_rollBack)
      moreover have "\<not> Calls.closed r \<Longrightarrow> wfr (onCall h commit (sweep r))" using wfr_commit [OF sw rt] by simp
      ultimately show ?thesis
        using rt False ra by (auto simp: transition_def Let_def onCall_twice)
    qed
  qed
qed

lemma wfr_append:
  assumes wf: "wfr r" and c: "c_id c \<notin> c_id ` set (store r)" "consistent c" "c_outcome c \<noteq> None \<or> c_lifecycle c = RolledBack"
  shows "wfr (r\<lparr>store := store r @ [c]\<rparr>)" (is "wfr ?r")
proof -
  note w = wfrD [OF wf]
  have "routed ?r k i" if "map_of (routes r) k = Some (i, d)" for k i d
    using w(4) [OF that] by (auto simp: routed_def nth_append)
  moreover have "held ?r k i" if "map_of (active r) k = Some i" for k i
    using w(5) [OF that] w(4) by (fastforce simp: held_def routed_def nth_append)
  moreover have "\<exists>d. map_of (routes r) (c_id (store ?r ! i)) = Some (i, d)" if "undecided ?r i" for i
    using that w(7) [of i] c(3) by (auto simp: undecided_def nth_append less_Suc_eq split: if_splits)
  moreover have "\<forall>(k, i) \<in> set (looking r). i < length (store ?r) \<and> c_id (store ?r ! i) = k"
    using w(6) by (force simp: nth_append)
  moreover have "list_all consistent (store ?r)" using w(10) c(2) by (auto simp: list_all_length nth_append less_Suc_eq)
  moreover have "distinct (map c_id (store ?r))" using w(3) c(1) by simp
  ultimately show ?thesis unfolding wfr_def using w by simp
qed

lemma wfr_route:
  assumes wf: "wfr r" and c: "c_id c \<notin> c_id ` set (store r)" "consistent c" "c_outcome c = None" "c_lifecycle c \<noteq> RolledBack"
    and o: "\<not> over r" "Calls.closed r \<Longrightarrow> c_lifecycle c = Provisional"
  shows "wfr (r\<lparr>store := store r @ [c], routes := mput (c_id c) (length (store r), d) (routes r)\<rparr>)" (is "wfr ?r")
proof -
  note w = wfrD [OF wf]
  have fresh: "map_of (routes r) (c_id c) = None"
  proof (rule ccontr)
    assume "map_of (routes r) (c_id c) \<noteq> None"
    then obtain i d' where "map_of (routes r) (c_id c) = Some (i, d')" by auto
    from w(4) [OF this] have "i < length (store r)" "c_id (store r ! i) = c_id c" by (auto simp: routed_def)
    then show False using c(1) by (metis image_eqI nth_mem)
  qed
  have "routed ?r k i" if "map_of (routes ?r) k = Some (i, d')" for k i d'
    using that w(4) [of k i d'] c o(2) by (auto simp: routed_def nth_append map_simps split: if_splits)
  moreover have "held ?r k i" if "map_of (active r) k = Some i" for k i
    using w(5) [OF that] w(4) [of k i] fresh by (auto simp: held_def routed_def nth_append map_simps)
  moreover have "\<exists>d. map_of (routes ?r) (c_id (store ?r ! i)) = Some (i, d)" if u: "undecided ?r i" for i
  proof (cases "i = length (store r)")
    case False
    then have "undecided r i" using u by (auto simp: undecided_def nth_append less_Suc_eq)
    then have "\<exists>d. map_of (routes r) (c_id (store r ! i)) = Some (i, d)" using w(7) by blast
    then show ?thesis using fresh False u by (auto simp: nth_append map_simps undecided_def less_Suc_eq)
  qed (simp add: map_simps)
  moreover have "\<forall>(k, i) \<in> set (looking r). i < length (store ?r) \<and> c_id (store ?r ! i) = k"
    using w(6) by (force simp: nth_append)
  moreover have "list_all consistent (store ?r)" using w(10) c(2) by (auto simp: list_all_length nth_append less_Suc_eq)
  moreover have "distinct (map c_id (store ?r))" "mok (routes ?r)" using w(1,3) c(1) by (simp_all add: map_simps)
  ultimately show ?thesis unfolding wfr_def using w o by simp
qed

lemma wfr_register:
  assumes wf: "wfr r" and fresh: "cid \<notin> c_id ` set (store r)"
  shows "wfr (snd (register cid decode provisional r))"
proof (cases "supported r")
  case False
  then show ?thesis using wf by (simp add: register_def assertSupported_def)
next
  case True
  let ?c = "\<lparr>c_id = cid, c_status = Pending, c_lifecycle = (if provisional then Provisional else Committed), c_outcome = None\<rparr> :: 'a call_state"
  have sw: "wfr (sweep r)" using wf by (rule wfr_sweep)
  have "wfr ((sweep r)\<lparr>store := store (sweep r) @ [rollBack ?c]\<rparr>)" if provisional
    using that fresh by (intro wfr_append [OF sw]) (auto simp: rollBack_def consistent_def)
  moreover have "wfr ((sweep r)\<lparr>store := store (sweep r) @ [settleCall clientClosed ?c]\<rparr>)"
    using fresh by (intro wfr_append [OF sw]) (auto simp: settleCall_def clientClosed_def consistent_def)
  moreover have "wfr ((sweep r)\<lparr>store := store (sweep r) @ [?c], routes := mput cid (length (store (sweep r)), decode) (routes (sweep r))\<rparr>)"
    if "\<not> (provisional \<and> over r)" "\<not> (Calls.closed r \<and> \<not> provisional)"
  proof -
    have "\<not> over r" using that wfrD(9) [OF wf] by blast
    then show ?thesis using wfr_route [OF sw, of ?c decode] that fresh by (auto simp: consistent_def)
  qed
  ultimately show ?thesis using True by (auto simp: register_def assertSupported_def Let_def)
qed

lemma wfr_wait:
  assumes wf: "wfr r" and h: "h < length (store r)" "h \<notin> set (dead r)"
  shows "wfr (snd (wait h admitted r))"
proof (cases "c_lifecycle (store r ! h) = Committed \<and> c_outcome (store r ! h) = None \<and> admitted")
  case False
  then show ?thesis using wf by (auto simp: wait_def split: lifecycle.splits)
next
  case True
  note w = wfrD [OF wf]
  have u: "undecided r h" using True h by (simp add: undecided_def)
  then obtain d where d: "map_of (routes r) (c_id (store r ! h)) = Some (h, d)" using w(7) by blast
  have "\<not> Calls.closed r" using w(4) [OF d] True by (auto simp: routed_def)
  moreover have "held r (c_id (store r ! h)) h" using True h d by (auto simp: held_def)
  moreover have "held (activate h r) = held r" "routed (activate h r) = routed r" "undecided (activate h r) = undecided r"
    by (auto simp: fun_eq_iff held_def routed_def undecided_def activate_def Let_def)
  moreover have "set (looking (activate h r)) \<subseteq> insert (c_id (store r ! h), h) (set (looking r))"
    using set_mput_subset [of "c_id (store r ! h)" h "looking r"] by (auto simp: activate_def Let_def)
  moreover have "store (activate h r) = store r" "routes (activate h r) = routes r" "Calls.closed (activate h r) = Calls.closed r"
    "over (activate h r) = over r" "active (activate h r) = mput (c_id (store r ! h)) h (active r)"
    by (simp_all add: activate_def Let_def)
  ultimately have "wfr (activate h r)"
    unfolding wfr_def using w h by (auto simp: map_simps list_all_length)
  then show ?thesis using True by (simp add: wait_def)
qed

lemma wfr_collected:
  assumes wf: "wfr r" and "h \<notin> snd ` set (active r)"
  shows "wfr (r\<lparr>dead := h # dead r\<rparr>)"
proof -
  have "k \<noteq> h" if "map_of (active r) cid = Some k" for cid k
    using assms(2) map_of_SomeD [OF that] by force
  then show ?thesis
    using wf by (auto simp: wfr_def routed_def held_def undecided_def)
qed

text \<open>Closing, in closed form: a live, decided-by-commit handle settles and its route goes; a dead one's route goes.\<close>

definition closes :: "'v registry \<Rightarrow> nat \<Rightarrow> bool" where
  "closes r h = (h \<notin> set (dead r) \<and> c_lifecycle (store r ! h) \<noteq> Provisional)"

lemma closeRoute_eq:
  assumes "map_of (active r) cid = None \<or> map_of (active r) cid = Some h \<and> h \<notin> set (dead r)"
  shows "closeRoute r (cid, h, d) =
    (if h \<in> set (dead r) then r\<lparr>routes := mdel cid (routes r)\<rparr>
     else if closes r h then (onCall h (settleCall clientClosed) r)\<lparr>routes := mdel cid (routes r)\<rparr> else r)"
  using assms by (auto simp: closeRoute_def deref_def closes_def)

definition closable :: "'v registry \<Rightarrow> jsstr \<times> nat \<times> (jsv \<Rightarrow> 'v option) \<Rightarrow> bool" where
  "closable r = (\<lambda>(cid, h, _). h < length (store r) \<and>
     (map_of (active r) cid = None \<or> map_of (active r) cid = Some h \<and> h \<notin> set (dead r)))"

lemma foldl_closeRoute:
  assumes "\<forall>x \<in> set rs. closable r x"
  shows "let r' = foldl closeRoute r rs in
    dead r' = dead r \<and> active r' = active r \<and> looking r' = looking r \<and> Calls.closed r' = Calls.closed r \<and> over r' = over r
    \<and> length (store r') = length (store r)
    \<and> (\<forall>i < length (store r). store r' ! i =
         (if i \<in> fst ` snd ` set rs \<and> closes r i then settleCall clientClosed (store r ! i) else store r ! i))
    \<and> routes r' = filter (\<lambda>(cid, _). \<not> (\<exists>h d. (cid, h, d) \<in> set rs \<and> (h \<in> set (dead r) \<or> closes r h))) (routes r)"
  using assms
proof (induction rs arbitrary: r)
  case Nil
  then show ?case by (simp add: filter_True case_prod_beta)
next
  case (Cons x rs)
  obtain cid h d where x: "x = (cid, h, d)" by (cases x)
  have hp: "h < length (store r)" "map_of (active r) cid = None \<or> map_of (active r) cid = Some h \<and> h \<notin> set (dead r)"
    using Cons.prems x by (simp_all add: closable_def)
  let ?r = "closeRoute r (cid, h, d)"
  note ceq = closeRoute_eq [OF hp(2), of d]
  have same: "dead ?r = dead r" "active ?r = active r" "looking ?r = looking r" "Calls.closed ?r = Calls.closed r" "over ?r = over r"
      "length (store ?r) = length (store r)"
    using ceq by auto
  have cl: "closes ?r i = closes r i" if "i < length (store r)" for i
    using that ceq by (auto simp: closes_def)
  have st: "store ?r ! i = (if i = h \<and> closes r h then settleCall clientClosed (store r ! i) else store r ! i)" if "i < length (store r)" for i
    using that ceq by (auto simp: closes_def)
  have ro: "routes ?r = filter (\<lambda>(k, _). \<not> (k = cid \<and> (h \<in> set (dead r) \<or> closes r h))) (routes r)"
    using ceq by (auto simp: AList.delete_eq filter_True case_prod_beta intro!: filter_cong)
  have twice: "settleCall o' (settleCall o' c) = settleCall o' c" for o' and c :: "'a call_state"
    by (simp add: settleCall_def)
  have IH: "let r' = foldl closeRoute ?r rs in
    dead r' = dead ?r \<and> active r' = active ?r \<and> looking r' = looking ?r \<and> Calls.closed r' = Calls.closed ?r \<and> over r' = over ?r
    \<and> length (store r') = length (store ?r)
    \<and> (\<forall>i < length (store ?r). store r' ! i =
         (if i \<in> fst ` snd ` set rs \<and> closes ?r i then settleCall clientClosed (store ?r ! i) else store ?r ! i))
    \<and> routes r' = filter (\<lambda>(cid, _). \<not> (\<exists>h d. (cid, h, d) \<in> set rs \<and> (h \<in> set (dead ?r) \<or> closes ?r h))) (routes ?r)"
    using Cons.prems by (intro Cons.IH) (simp add: closable_def same x)
  have rsl: "i < length (store r)" if "(k, i, d') \<in> set rs" for k i d'
    using Cons.prems that by (fastforce simp: closable_def)
  show ?case
    unfolding Let_def x foldl_Cons
  proof (intro conjI allI impI)
    fix i assume i: "i < length (store r)"
    have IHs: "store (foldl closeRoute ?r rs) ! i =
      (if i \<in> fst ` snd ` set rs \<and> closes ?r i then settleCall clientClosed (store ?r ! i) else store ?r ! i)"
      using IH i same(6) by (simp add: Let_def)
    show "store (foldl closeRoute ?r rs) ! i =
      (if i \<in> fst ` snd ` set ((cid, h, d) # rs) \<and> closes r i then settleCall clientClosed (store r ! i) else store r ! i)"
      unfolding IHs using cl [OF i] st [OF i] by (auto simp: twice)
  next
    show "routes (foldl closeRoute ?r rs) =
      filter (\<lambda>(k, _). \<not> (\<exists>h' d'. (k, h', d') \<in> set ((cid, h, d) # rs) \<and> (h' \<in> set (dead r) \<or> closes r h'))) (routes r)"
    proof -
      have "routes (foldl closeRoute ?r rs) =
        filter (\<lambda>(cid, _). \<not> (\<exists>h d. (cid, h, d) \<in> set rs \<and> (h \<in> set (dead ?r) \<or> closes ?r h))) (routes ?r)"
        using IH unfolding Let_def by blast
      also have "\<dots> = filter (\<lambda>(k, _). \<not> (\<exists>h' d'. (k, h', d') \<in> set ((cid, h, d) # rs) \<and> (h' \<in> set (dead r) \<or> closes r h'))) (routes r)"
        unfolding ro filter_filter same
        by (rule filter_cong [OF refl]) (use cl rsl in \<open>auto split: prod.splits\<close>)
      finally show ?thesis .
    qed
  qed (use IH same in \<open>simp_all add: Let_def\<close>)
qed

lemma close_closed: "Calls.closed r \<Longrightarrow> close r = r"
  by (simp add: close_def)

lemma close_form:
  assumes wf: "wfr r" and op: "\<not> Calls.closed r"
  shows "dead (close r) = dead r" "looking (close r) = looking r" "Calls.closed (close r)" "over (close r) = over r" "active (close r) = []"
    "length (store (close r)) = length (store r)"
    "i < length (store r) \<Longrightarrow> store (close r) ! i =
       (if (\<exists>d. map_of (routes r) (c_id (store r ! i)) = Some (i, d)) \<and> closes r i then settleCall clientClosed (store r ! i) else store r ! i)"
    "routes (close r) = filter (\<lambda>(cid, h, _). \<not> (h \<in> set (dead r) \<or> closes r h)) (routes r)"
proof -
  note w = wfrD [OF wf]
  let ?q = "r\<lparr>closed := True\<rparr>"
  have c: "close r = (foldl closeRoute ?q (routes r))\<lparr>active := []\<rparr>" using op by (simp add: close_def)
  have mem: "(cid, h, d) \<in> set (routes r) \<longleftrightarrow> map_of (routes r) cid = Some (h, d)" for cid h d using w(1) by simp
  have "closable ?q (cid, h, d)" if "(cid, h, d) \<in> set (routes r)" for cid h d
    using that w(4) [of cid h d] w(5) [of cid]
    by (cases "map_of (active r) cid") (auto simp: mem routed_def held_def closable_def)
  then have pre: "\<forall>x \<in> set (routes r). closable ?q x" by (metis prod_cases3)
  have cl: "closes ?q = closes r" by (simp add: closes_def fun_eq_iff)
  note f = foldl_closeRoute [of "routes r" ?q, OF pre, unfolded Let_def cl]
  note g = f [THEN conjunct2] note h = g [THEN conjunct2] note j = h [THEN conjunct2] note k = j [THEN conjunct2]
  note l = k [THEN conjunct2] note n = l [THEN conjunct2]
  show "dead (close r) = dead r" using f [THEN conjunct1] by (simp add: c)
  show "looking (close r) = looking r" using h [THEN conjunct1] by (simp add: c)
  show "Calls.closed (close r)" using j [THEN conjunct1] by (simp add: c)
  show "over (close r) = over r" using k [THEN conjunct1] by (simp add: c)
  show "active (close r) = []" by (simp add: c)
  show "length (store (close r)) = length (store r)" using l [THEN conjunct1] by (simp add: c)
  have "i \<in> fst ` snd ` set (routes r) \<longleftrightarrow> (\<exists>d. map_of (routes r) (c_id (store r ! i)) = Some (i, d))" for i
  proof
    assume "i \<in> fst ` snd ` set (routes r)"
    then obtain cid d where "(cid, i, d) \<in> set (routes r)" by (auto simp: image_iff)
    then have "map_of (routes r) cid = Some (i, d)" by (simp only: mem)
    moreover from w(4) [OF this] have "c_id (store r ! i) = cid" by (simp add: routed_def)
    ultimately show "\<exists>d. map_of (routes r) (c_id (store r ! i)) = Some (i, d)" by blast
  next
    assume "\<exists>d. map_of (routes r) (c_id (store r ! i)) = Some (i, d)"
    then show "i \<in> fst ` snd ` set (routes r)" using map_of_SomeD by (force simp: image_iff)
  qed
  then show "i < length (store r) \<Longrightarrow> store (close r) ! i =
       (if (\<exists>d. map_of (routes r) (c_id (store r ! i)) = Some (i, d)) \<and> closes r i then settleCall clientClosed (store r ! i) else store r ! i)"
    using n [THEN conjunct1] by (simp add: c)
  have uniq: "h = h'" if "(cid, h, d) \<in> set (routes r)" "(cid, h', d') \<in> set (routes r)" for cid h d h' d'
    using that by (simp add: mem)
  show "routes (close r) = filter (\<lambda>(cid, h, _). \<not> (h \<in> set (dead r) \<or> closes r h)) (routes r)"
    using n [THEN conjunct2] unfolding c by (auto simp: case_prod_beta intro!: filter_cong dest: uniq)
qed

lemma close_routes:
  assumes "wfr r" "\<not> Calls.closed r"
  shows "map_of (routes (close r)) cid = (case map_of (routes r) cid of
    Some (h, d) \<Rightarrow> if h \<notin> set (dead r) \<and> c_lifecycle (store r ! h) = Provisional then Some (h, d) else None | None \<Rightarrow> None)"
  using wfrD(1) [OF assms(1)] by (auto simp: close_form(8) [OF assms] map_of_filter_mok closes_def split: option.splits)

lemma wfr_close:
  assumes wf: "wfr r"
  shows "wfr (close r)"
proof (cases "Calls.closed r")
  case True
  then show ?thesis using wf by (simp add: close_closed)
next
  case False
  note w = wfrD [OF wf] and c = close_form [OF wf False] and rt = close_routes [OF wf False]
  have ids: "c_id (store (close r) ! i) = c_id (store r ! i)" "c_lifecycle (store (close r) ! i) = c_lifecycle (store r ! i)"
    if "i < length (store r)" for i using c(7) [OF that] by auto
  have "map c_id (store (close r)) = map c_id (store r)" by (rule nth_equalityI) (simp_all add: c(6) ids)
  moreover have "routed (close r) cid h" if "map_of (routes (close r)) cid = Some (h, d)" for cid h d
    using that w(4) [of cid h d] c(6,7) by (auto simp: rt routed_def closes_def split: option.splits if_splits)
  moreover have "\<exists>d. map_of (routes (close r)) (c_id (store (close r) ! h)) = Some (h, d)" if u: "undecided (close r) h" for h
  proof -
    have h: "h < length (store r)" "h \<notin> set (dead r)" using u by (simp_all add: undecided_def c)
    then have n: "c_outcome (store r ! h) = None" "c_lifecycle (store r ! h) \<noteq> RolledBack"
      using u by (auto simp: undecided_def c(7) split: if_splits option.splits)
    then obtain d where d: "map_of (routes r) (c_id (store r ! h)) = Some (h, d)" using w(7) [of h] h by (auto simp: undecided_def)
    moreover have "\<not> closes r h" using u h d n by (auto simp: undecided_def c(7) split: if_splits)
    ultimately show ?thesis using h ids by (auto simp: rt closes_def)
  qed
  moreover have "list_all consistent (store (close r))"
    using w(10) w(4) by (auto simp: list_all_length c(6,7) routed_def intro!: consistent_settle)
  moreover have "mok (routes (close r))" using w(1) by (simp add: c(8) mok_filter)
  moreover have "\<not> over r" using w(9) False by blast
  moreover have "\<forall>(k, i) \<in> set (looking r). i < length (store r) \<and> c_id (store (close r) ! i) = k" using w(6) ids by fastforce
  ultimately show ?thesis
    using w(3) c(1-6) by (intro wfrI) simp_all
qed

lemma foldl_rollBack:
  fixes r :: "'v registry" and rs :: "(jsstr \<times> nat \<times> (jsv \<Rightarrow> 'v option)) list"
  shows "let r' = foldl (\<lambda>r (_, h, _). if deref r h = None then r else onCall h rollBack r) r rs in
    dead r' = dead r \<and> active r' = active r \<and> looking r' = looking r \<and> Calls.closed r' = Calls.closed r \<and> over r' = over r
    \<and> length (store r') = length (store r)
    \<and> (\<forall>i < length (store r). store r' ! i =
         (if i \<in> fst ` snd ` set rs \<and> i \<notin> set (dead r) then rollBack (store r ! i) else store r ! i))"
proof (induction rs arbitrary: r)
  case (Cons x rs)
  obtain cid h d where x: "x = (cid, h, d)" by (cases x)
  have twice: "rollBack (rollBack c) = rollBack c" for c :: "'v call_state" by (simp add: rollBack_def)
  show ?case
  proof (cases "h \<in> set (dead r)")
    case True
    then show ?thesis using Cons.IH [of r] by (auto simp: Let_def x deref_def)
  next
    case False
    then show ?thesis using Cons.IH [of "onCall h rollBack r"] by (auto simp: Let_def x deref_def twice)
  qed
qed simp

lemma wfr_ended:
  assumes wf: "wfr r"
  shows "wfr (ended r)" and "\<And>h. \<not> undecided (ended r) h"
proof -
  let ?q = "(close r)\<lparr>over := True\<rparr>"
  let ?e = "foldl (\<lambda>r (_, h, _). if deref r h = None then r else onCall h rollBack r) ?q (routes ?q)"
  note wq = wfrD [OF wfr_close [OF wf]]
  have cl: "Calls.closed (close r)" using close_form(3) [OF wf] by (cases "Calls.closed r") (simp_all add: close_closed)
  note f = foldl_rollBack [of ?q "routes ?q", unfolded Let_def]
  note g = f [THEN conjunct2] note h = g [THEN conjunct2] note j = h [THEN conjunct2] note k = j [THEN conjunct2]
  note l = k [THEN conjunct2] note n = l [THEN conjunct2]
  have e: "ended r = ?e\<lparr>routes := []\<rparr>" by (simp add: ended_def Let_def)
  have st: "store (ended r) ! i = (if i \<in> fst ` snd ` set (routes (close r)) \<and> i \<notin> set (dead (close r))
      then rollBack (store (close r) ! i) else store (close r) ! i)" if "i < length (store (close r))" for i
    using n that unfolding e by simp
  have len: "length (store (ended r)) = length (store (close r))" using l [THEN conjunct1] unfolding e by simp
  have dd: "dead (ended r) = dead (close r)" using f [THEN conjunct1] unfolding e by simp
  show none: "\<not> undecided (ended r) i" for i
  proof
    assume u: "undecided (ended r) i"
    then have i: "i < length (store (close r))" "i \<notin> set (dead (close r))" by (simp_all add: undecided_def len dd)
    then have "undecided (close r) i" using u st [OF i(1)] by (auto simp: undecided_def split: if_splits)
    then obtain d where d: "map_of (routes (close r)) (c_id (store (close r) ! i)) = Some (i, d)" using wq(7) by blast
    then have "i \<in> fst ` snd ` set (routes (close r))" using map_of_SomeD by (force simp: image_iff)
    moreover have "c_lifecycle (store (close r) ! i) = Provisional" using wq(4) [OF d] cl by (simp add: routed_def)
    ultimately show False using u st [OF i(1)] i(2) by (simp add: undecided_def)
  qed
  have ids: "c_id (store (ended r) ! i) = c_id (store (close r) ! i)" if "i < length (store (close r))" for i using st [OF that] by simp
  have "map c_id (store (ended r)) = map c_id (store (close r))" by (rule nth_equalityI) (simp_all add: len ids)
  moreover have "list_all consistent (store (ended r))"
  proof -
    have "consistent (store (ended r) ! i)" if i: "i < length (store (close r))" for i
    proof (cases "i \<in> fst ` snd ` set (routes (close r)) \<and> i \<notin> set (dead (close r))")
      case True
      then obtain cid d where "map_of (routes (close r)) cid = Some (i, d)" using wq(1) by (auto simp: image_iff)
      from wq(4) [OF this] wq(10) [OF i] show ?thesis using st [OF i] True by (simp add: routed_def consistent_rollBack)
    qed (use st [OF i] wq(10) [OF i] in auto)
    then show ?thesis by (simp add: list_all_length len)
  qed
  moreover have "\<forall>(cid, i) \<in> set (looking (close r)). i < length (store (close r)) \<and> c_id (store (ended r) ! i) = cid"
    using wq(6) ids by fastforce
  moreover have "looking (ended r) = looking (close r)" "active (ended r) = []" "Calls.closed (ended r)" "routes (ended r) = []"
    using g [THEN conjunct1] h [THEN conjunct1] j [THEN conjunct1] cl wq(8) unfolding e by simp_all
  ultimately show "wfr (ended r)"
    using wq(3) none by (intro wfrI) (simp_all add: len)
qed

lemma wfr_step: "step r r' \<Longrightarrow> wfr r \<Longrightarrow> wfr r'"
  by (induction rule: step.induct)
     (auto intro: wfr_register wfr_wait wfr_transition wfr_complete wfr_lookupAnswered wfr_lookupFailed wfr_close wfr_ended(1) wfr_collected)

lemma reachable_wfr: "reachable r \<Longrightarrow> wfr r"
  by (induction rule: reachable.induct) (auto intro: wfr_start wfr_step)

section \<open>What a handle keeps\<close>

definition later :: "'v call_state \<Rightarrow> 'v call_state \<Rightarrow> bool" where
  "later c c' = (c_id c' = c_id c \<and> (c_outcome c \<noteq> None \<longrightarrow> c_outcome c' = c_outcome c)
     \<and> (c_lifecycle c \<noteq> Provisional \<longrightarrow> c_lifecycle c' = c_lifecycle c))"

definition grows :: "'v registry \<Rightarrow> 'v registry \<Rightarrow> bool" where
  "grows r r' = (length (store r) \<le> length (store r') \<and> (\<forall>i < length (store r). later (store r ! i) (store r' ! i)))"

lemma later_intros [simp]: "later c c" "later c (commit c)" "later c (rollBack c)" "later c (settleCall o' c)"
  by (auto simp: later_def split: option.splits)

lemma later_trans: "later a b \<Longrightarrow> later b c \<Longrightarrow> later a c"
  by (auto simp: later_def)

lemma grows_refl [simp]: "grows r r"
  by (simp add: grows_def)

lemma grows_trans: "grows a b \<Longrightarrow> grows b c \<Longrightarrow> grows a c"
  by (auto simp: grows_def intro: later_trans order_trans)

lemma grows_upd [simp]:
  "grows r (x\<lparr>routes := a\<rparr>) = grows r x" "grows r (x\<lparr>active := c\<rparr>) = grows r x" "grows r (x\<lparr>looking := c\<rparr>) = grows r x"
  "grows (x\<lparr>closed := e\<rparr>) r = grows x r" "grows (x\<lparr>over := e\<rparr>) r = grows x r" "grows r (x\<lparr>dead := f\<rparr>) = grows r x"
  "grows r (sweep x) = grows r x"
  by (simp_all add: grows_def)

lemma grows_onCall: "(\<And>c. later c (f c)) \<Longrightarrow> grows r (onCall h f r)"
  by (cases "h < length (store r)") (auto simp: grows_def onCall_def nth_list_update)

lemma grows_onCall_trans: "grows a b \<Longrightarrow> (\<And>c. later c (f c)) \<Longrightarrow> grows a (onCall h f b)"
  using grows_trans grows_onCall by blast

lemma grows_register: "grows r (snd (register cid decode p r))"
  by (auto simp: register_def Let_def grows_def nth_append split: sum.splits)

lemma grows_wait: "grows r (snd (wait h a r))"
  by (auto simp: wait_def activate_def Let_def grows_def split: lifecycle.splits)

lemma grows_transition: "grows r (transition cid b r)"
  by (auto simp: transition_def Let_def grows_onCall_trans split: option.splits)

lemma grows_complete: "grows r (complete cid a r)"
  by (auto simp: complete_def Let_def grows_onCall_trans split: option.splits)

lemma grows_lookup: "grows r (lookupAnswered cid c r)" "grows r (lookupFailed cid h r)"
  by (auto simp: lookupAnswered_def lookupFailed_def Let_def grows_complete grows_onCall split: option.splits)

lemma grows_foldl: "(\<And>r x. grows r (f r x)) \<Longrightarrow> grows r (foldl f r xs)"
  by (induction xs arbitrary: r) (auto intro: grows_trans)

lemma grows_closeRoute: "grows r (closeRoute r x)"
  by (auto simp: closeRoute_def grows_onCall split: option.splits prod.splits)

lemma grows_close: "grows r (close r)"
  using grows_foldl [of closeRoute, OF grows_closeRoute, of "r\<lparr>closed := True\<rparr>" "routes r"] by (simp add: close_def)

lemma grows_ended: "grows r (ended r)"
proof -
  have "grows q (if deref q h = None then q else onCall h rollBack q)" for q :: "'a registry" and h
    using grows_onCall [of rollBack q h] by simp
  then have "grows ((close r)\<lparr>over := True\<rparr>) (foldl (\<lambda>r (_, h, _). if deref r h = None then r else onCall h rollBack r) ((close r)\<lparr>over := True\<rparr>)
      (routes ((close r)\<lparr>over := True\<rparr>)))"
    by (intro grows_foldl) (simp add: case_prod_beta)
  then have "grows (close r) (ended r)" by (simp add: ended_def Let_def)
  then show ?thesis using grows_close grows_trans by blast
qed

lemma grows_step: "step r r' \<Longrightarrow> grows r r'"
  by (induction rule: step.induct)
     (simp_all add: grows_register grows_wait grows_transition grows_complete grows_lookup grows_close grows_ended)

lemma grows_run: "rtranclp step r r' \<Longrightarrow> grows r r'"
  by (induction rule: rtranclp_induct) (auto intro: grows_trans grows_step)

lemma reachable_run: "rtranclp step r r' \<Longrightarrow> reachable r \<Longrightarrow> reachable r'"
  by (induction rule: rtranclp_induct) (auto intro: reachable.run)

text \<open>
  C16: An outcome is final and a rolled-back call never gets one: whatever the runtime, the
  backend and the collector do later, a settled handle keeps its outcome and its committed
  or rolled-back lifecycle, and a rolled-back one stays failed without an outcome.
\<close>

theorem call_outcome_is_final:
  assumes "reachable r" "rtranclp step r r'" "h < length (store r)"
  shows "c_id (store r' ! h) = c_id (store r ! h)
    \<and> (c_outcome (store r ! h) \<noteq> None \<longrightarrow> c_outcome (store r' ! h) = c_outcome (store r ! h) \<and> c_status (store r' ! h) = c_status (store r ! h))
    \<and> (c_lifecycle (store r ! h) = RolledBack \<longrightarrow> c_lifecycle (store r' ! h) = RolledBack \<and> c_outcome (store r' ! h) = None
          \<and> c_status (store r' ! h) = FailedStatus)"
proof -
  have g: "later (store r ! h) (store r' ! h)" "h < length (store r')"
    using grows_run [OF assms(2)] assms(3) by (auto simp: grows_def)
  have "consistent (store r ! h)" "consistent (store r' ! h)"
    using reachable_wfr [OF assms(1)] reachable_wfr [OF reachable_run [OF assms(2,1)]] assms(3) g(2) by (auto intro: wfrD(10))
  then show ?thesis using g(1) by (auto simp: later_def consistent_def)
qed

section \<open>Who waits is answered\<close>

definition kept :: "nat \<Rightarrow> 'v registry \<Rightarrow> bool" where
  "kept h r = (h < length (store r) \<and>
     (c_outcome (store r ! h) = None \<longrightarrow> map_of (active r) (c_id (store r ! h)) = Some h))"

lemma active_register: "active (snd (register cid d p r)) = active r"
  by (auto simp: register_def Let_def split: sum.splits)

lemma active_wait:
  assumes wf: "wfr r" and "h < length (store r)" and k: "map_of (active r) cid = Some i"
  shows "map_of (active (snd (wait h a r))) cid = Some i"
proof (cases "cid = c_id (store r ! h)")
  case True
  have "routed r cid i" using wfrD(5) [OF wf k] wfrD(4) [OF wf] by (auto simp: held_def)
  then have "i = h" using same_id [OF wf, of i h] assms(2) True by (auto simp: routed_def)
  then show ?thesis using k True by (auto simp: wait_def activate_def Let_def map_simps split: lifecycle.splits)
next
  case False
  then show ?thesis using k by (auto simp: wait_def activate_def Let_def map_simps split: lifecycle.splits)
qed

lemma active_transition: "active (transition cid b r) = active r"
  by (auto simp: transition_def Let_def split: option.splits prod.splits)

lemma complete_settles:
  assumes wf: "wfr r" and h: "undecided r h" "c_id (store r ! h) = cid"
  shows "c_outcome (store (complete cid a r) ! h) = Some (decoded (map_of (routes r) cid) a)"
proof -
  note sw = wfr_sweep [OF wf]
  obtain d where d: "map_of (routes r) cid = Some (h, d)" using wfrD(7) [OF wf h(1)] h(2) by blast
  have n: "h < length (store r)" "h \<notin> set (dead r)" "c_outcome (store r ! h) = None" using h by (auto simp: undecided_def)
  have d': "map_of (routes (sweep r)) cid = Some (h, d)" using d n by (simp add: sweep_routes [OF wf])
  then have "target (sweep r) cid = Some h" using n by (simp add: target_route [OF sw])
  then show ?thesis using d d' n by (simp add: complete_def Let_def onCall_twice)
qed

lemma kept_complete:
  assumes wf: "wfr r" and k: "kept h r"
  shows "kept h (complete cid a r)"
proof -
  have g: "later (store r ! h) (store (complete cid a r) ! h)" "h < length (store (complete cid a r))"
    using grows_complete [of r cid a] k by (auto simp: grows_def kept_def)
  show ?thesis
  proof (cases "c_outcome (store r ! h) = None")
    case False
    then show ?thesis using g by (auto simp: kept_def later_def)
  next
    case True
    have hd: "held r (c_id (store r ! h)) h" using wfrD(5) [OF wf] k True by (simp add: kept_def)
    show ?thesis
    proof (cases "c_id (store r ! h) = cid")
      case c: True
      have "undecided r h" using True hd k by (simp add: undecided_def held_def kept_def)
      from complete_settles [OF wf this c, of a] g show ?thesis by (simp add: kept_def)
    next
      case False
      have "map_of (active (complete cid a r)) (c_id (store r ! h)) = map_of (active r) (c_id (store r ! h))"
        using False by (auto simp: complete_def Let_def map_simps split: option.splits)
      then show ?thesis using g True k by (simp add: kept_def later_def)
    qed
  qed
qed

lemma keptI:
  assumes "kept h r" "grows r r'"
    and "c_outcome (store r ! h) = None \<Longrightarrow> map_of (active r) (c_id (store r ! h)) = Some h \<Longrightarrow>
      c_outcome (store r' ! h) = None \<Longrightarrow> map_of (active r') (c_id (store r ! h)) = Some h"
  shows "kept h r'"
  using assms by (cases "c_outcome (store r ! h)") (auto simp: kept_def grows_def later_def)

lemma kept_lookupFailed:
  assumes wf: "wfr r" and k: "kept h r" and l: "map_of (looking r) cid = Some i"
  shows "kept h (lookupFailed cid i r)"
proof (rule keptI [OF k grows_lookup(2)])
  assume a: "c_outcome (store r ! h) = None" "map_of (active r) (c_id (store r ! h)) = Some h"
    and n: "c_outcome (store (lookupFailed cid i r) ! h) = None"
  have h: "h < length (store r)" using k by (simp add: kept_def)
  have i: "i < length (store r)" "c_id (store r ! i) = cid" using wfrD(6) [OF wf map_of_SomeD [OF l]] by simp_all
  have "c_id (store r ! h) \<noteq> cid"
  proof
    assume c: "c_id (store r ! h) = cid"
    then have "i = h" using same_id [OF wf h, of i] i by simp
    then show False using n a c h by (simp add: lookupFailed_def Let_def mhas_def)
  qed
  then show "map_of (active (lookupFailed cid i r)) (c_id (store r ! h)) = Some h"
    using a by (simp add: lookupFailed_def Let_def map_simps)
qed

lemma close_settles:
  assumes wf: "wfr r" and h: "h < length (store r)" "h \<notin> set (dead r)" "c_lifecycle (store r ! h) = Committed"
  shows "c_outcome (store (close r) ! h) \<noteq> None"
proof (cases "Calls.closed r")
  case True
  show ?thesis
  proof
    assume "c_outcome (store (close r) ! h) = None"
    then have "undecided r h" using True h by (simp add: undecided_def close_closed)
    then obtain d where "map_of (routes r) (c_id (store r ! h)) = Some (h, d)" using wfrD(7) [OF wf] by blast
    from wfrD(4) [OF wf this] True h(3) show False by (simp add: routed_def)
  qed
next
  case False
  show ?thesis
  proof (cases "c_outcome (store r ! h)")
    case None
    then have "undecided r h" using h by (simp add: undecided_def)
    then have "\<exists>d. map_of (routes r) (c_id (store r ! h)) = Some (h, d)" using wfrD(7) [OF wf] by blast
    then show ?thesis using h None by (simp add: close_form(7) [OF wf False] closes_def)
  next
    case (Some o')
    then show ?thesis using grows_close [of r] h by (auto simp: grows_def later_def)
  qed
qed

lemma kept_settled:
  assumes "wfr r" "kept h r"
  shows "c_outcome (store (close r) ! h) \<noteq> None"
proof (cases "c_outcome (store r ! h)")
  case None
  then have "held r (c_id (store r ! h)) h" using wfrD(5) [OF assms(1)] assms(2) by (simp add: kept_def)
  then show ?thesis using close_settles [OF assms(1)] assms(2) by (simp add: kept_def held_def)
next
  case (Some o')
  then show ?thesis using grows_close [of r] assms(2) by (auto simp: grows_def later_def kept_def)
qed

lemma kept_step:
  assumes "step r r'" "wfr r" "kept h r"
  shows "kept h r'"
  using assms(1)
proof cases
  case (registered cid decode p)
  then show ?thesis using keptI [OF assms(3) grows_register] by (simp add: active_register)
next
  case (waited i a)
  then show ?thesis using keptI [OF assms(3) grows_wait, of i a] active_wait [OF assms(2)] by auto
next
  case (transitioned cid b)
  then show ?thesis using keptI [OF assms(3) grows_transition] by (simp add: active_transition)
next
  case (completed cid a)
  then show ?thesis using kept_complete assms by blast
next
  case (answered cid c)
  have "kept h (case c of None \<Rightarrow> r | Some (i, a) \<Rightarrow> complete i a r)"
    using assms by (auto simp: kept_complete split: option.splits)
  then show ?thesis unfolding answered(1) by (simp add: lookupAnswered_def Let_def kept_def)
next
  case (failed cid i)
  then show ?thesis using kept_lookupFailed assms by blast
next
  case closed
  have "kept h (close r)" by (rule keptI [OF assms(3) grows_close]) (use kept_settled [OF assms(2,3)] in simp)
  then show ?thesis by (simp only: closed)
next
  case ended
  have c: "c_outcome (store (close r) ! h) \<noteq> None" "h < length (store (close r))"
    using kept_settled [OF assms(2,3)] grows_close [of r] assms(3) by (auto simp: grows_def kept_def)
  have "grows (close r) (Calls.ended r)"
    using grows_foldl [of "\<lambda>r (_, h, _). if deref r h = None then r else onCall h rollBack r" "(close r)\<lparr>over := True\<rparr>" "routes (close r)"]
    by (simp add: ended_def Let_def grows_onCall split: prod.splits)
  then have "c_outcome (store (Calls.ended r) ! h) \<noteq> None" using c by (auto simp: grows_def later_def)
  then have "kept h (Calls.ended r)" by (intro keptI [OF assms(3) grows_ended]) simp
  then show ?thesis by (simp only: ended)
next
  case (collected i)
  then show ?thesis using assms(3) by (simp add: kept_def)
qed

lemma kept_run: "rtranclp step r r' \<Longrightarrow> reachable r \<Longrightarrow> kept h r \<Longrightarrow> kept h r'"
  by (induction rule: rtranclp_induct) (auto intro: kept_step reachable_wfr reachable_run)

text \<open>
  C30: Whoever awaits a call is answered: after \<open>wait\<close> gave its promise, in every later state
  the handle has its outcome or is held strongly under its own id, so that it cannot be
  collected, its completion settles it with the decoded result, and closing the client settles it.
\<close>

theorem waiter_is_answered:
  assumes "reachable r" "h < length (store r)" "h \<notin> set (dead r)" "wait h admitted r = (Promised, r1)" "rtranclp step r1 r2"
  shows "let cid = c_id (store r ! h) in
    c_outcome (store (close r2) ! h) \<noteq> None
    \<and> (c_outcome (store r2 ! h) = None \<longrightarrow>
         map_of (active r2) cid = Some h \<and> h \<notin> set (dead r2)
         \<and> (\<exists>d. map_of (routes r2) cid = Some (h, d)
              \<and> c_outcome (store (complete cid a r2) ! h) = Some (decoded (Some (h, d)) a)))"
proof -
  have r1: "reachable r1" using reachable.run [OF assms(1) step.waited [OF assms(2,3), of admitted]] assms(4) by simp
  have r2: "reachable r2" by (rule reachable_run [OF assms(5) r1])
  have g: "later (store r ! h) (store r2 ! h)" "h < length (store r2)"
  proof -
    have "grows r r1" using grows_wait [of r h admitted] assms(4) by simp
    then have "grows r r2" using grows_run [OF assms(5)] grows_trans by blast
    then show "later (store r ! h) (store r2 ! h)" "h < length (store r2)" using assms(2) by (auto simp: grows_def)
  qed
  have "kept h r1"
    using assms(2,4) by (auto simp: wait_def kept_def activate_def Let_def map_simps split: lifecycle.splits if_splits)
  then have k: "kept h r2" using kept_run assms(5) r1 by blast
  note wf = reachable_wfr [OF r2]
  have id: "c_id (store r2 ! h) = c_id (store r ! h)" using g by (simp add: later_def)
  have "held r2 (c_id (store r ! h)) h" "undecided r2 h" if "c_outcome (store r2 ! h) = None"
    using wfrD(5) [OF wf] k that id g(2) by (auto simp: kept_def undecided_def held_def)
  then show ?thesis
    unfolding Let_def using kept_settled [OF wf k] k id complete_settles [OF wf, of h]
    by (auto simp: held_def kept_def)
qed

lemma ended_decides:
  assumes wf: "wfr r" and "h < length (store r)" "h \<notin> set (dead r)"
  shows "c_outcome (store (ended r) ! h) \<noteq> None \<or> c_lifecycle (store (ended r) ! h) = RolledBack"
proof -
  have "dead (close r) = dead r" using close_form(1) [OF wf] by (cases "Calls.closed r") (simp_all add: close_closed)
  then have d: "dead (ended r) = dead r"
    using foldl_rollBack [of "(close r)\<lparr>over := True\<rparr>" "routes (close r)"] by (simp add: ended_def Let_def)
  have "h < length (store (ended r))" using grows_ended [of r] assms(2) by (simp add: grows_def)
  then show ?thesis using wfr_ended(2) [OF wf, of h] assms(3) d by (auto simp: undecided_def)
qed

text \<open>
  When the client closes, every committed handle that is still referenced has an
  outcome; when the runtime ends, every handle is decided: settled or rolled back.
\<close>

lemma close_decides_every_call:
  assumes "reachable r" "h < length (store r)" "h \<notin> set (dead r)"
  shows "(c_lifecycle (store r ! h) = Committed \<longrightarrow> c_outcome (store (close r) ! h) \<noteq> None)
    \<and> (c_outcome (store (ended r) ! h) \<noteq> None \<or> c_lifecycle (store (ended r) ! h) = RolledBack)"
  using ended_decides [OF reachable_wfr [OF assms(1)] assms(2,3)] close_settles [OF reachable_wfr [OF assms(1)] assms(2,3)] by blast

section \<open>Witnesses\<close>

definition oneCall :: "jsv registry" where
  "oneCall = snd (register (js ''c1'') Some False (new_registry True True))"

lemmas registry_run = oneCall_def register_def assertSupported_def new_registry_def sweep_def Let_def

lemma oneCall_reachable: "reachable oneCall"
  unfolding oneCall_def
  by (rule reachable.run [OF reachable.start step.registered]) (simp add: new_registry_def)

lemma oneCall_facts: "length (store oneCall) = 1" "dead oneCall = []" "c_id (store oneCall ! 0) = js ''c1''"
    "c_lifecycle (store oneCall ! 0) = Committed" "wait 0 True oneCall = (Promised, activate 0 oneCall)"
  by (simp_all add: registry_run wait_def)

theorem call_outcome_is_final_witness:
  "c_outcome (store (close (complete (js ''c1'') (AnswerOk Null) oneCall)) ! 0) = Some (Result Null)"
proof -
  let ?r = "complete (js ''c1'') (AnswerOk Null) oneCall"
  have r: "reachable ?r" by (rule reachable.run [OF oneCall_reachable step.completed])
  have o: "c_outcome (store ?r ! 0) = Some (Result Null)" "0 < length (store ?r)"
    by (simp_all add: complete_def target_def deref_def decoded_def onCall_def settleCall_def commit_def registry_run)
  have "rtranclp step ?r (close ?r)" by (rule r_into_rtranclp) (rule step.closed)
  from call_outcome_is_final [OF r this o(2)] o(1) show ?thesis by simp
qed

theorem waiter_is_answered_witness:
  "c_outcome (store (close (activate 0 oneCall)) ! 0) \<noteq> None"
  using waiter_is_answered [OF oneCall_reachable _ _ oneCall_facts(5) rtranclp.rtrancl_refl, of "AnswerOk Null"]
  by (simp add: oneCall_facts Let_def)

end
