(* ===== verification/SubscriptionsSpec.thy ===== *)
theory SubscriptionsSpec
  imports Subscriptions
begin

text \<open>
  What the Subscription handles promise: an identity has at most one open handle, a
  closed handle never changes again, and a listener has always been handed the status
  its handle shows.
\<close>

section \<open>Handles under the operations\<close>

abbreviation lastSeen :: "subs \<Rightarrow> nat \<Rightarrow> nat \<Rightarrow> sub_status option" where
  "lastSeen s r l \<equiv> map_of (rev (s_seen s)) (r, l)"

lemma onHandle_simps [simp]:
  "length (s_store (onHandle r f s)) = length (s_store s)"
  "s_handles (onHandle r f s) = s_handles s"
  "s_observers (onHandle r f s) = s_observers s"
  "s_closing (onHandle r f s) = s_closing s"
  "s_seen (onHandle r f s) = s_seen s"
  "r' < length (s_store s) \<Longrightarrow> handleAt (onHandle r f s) r' = (if r' = r then f (handleAt s r) else handleAt s r')"
  by (auto simp: onHandle_def)

lemma forget_simps [simp]:
  "s_store (forget r s) = s_store s"
  "s_observers (forget r s) = s_observers s"
  "s_closing (forget r s) = s_closing s"
  "s_seen (forget r s) = s_seen s"
  by (simp_all add: forget_def Let_def)

lemma deliver_simps [simp]:
  "s_store (deliver throws r l s) = s_store s"
  "s_handles (deliver throws r l s) = s_handles s"
  "s_observers (deliver throws r l s) = s_observers s"
  "s_closing (deliver throws r l s) = s_closing s"
  "s_seen (deliver throws r l s) = s_seen s @ [((r, l), h_status (handleAt s r))]"
  by (simp_all add: deliver_def Let_def)

lemma deliver_all_simps [simp]:
  "s_store (fold (deliver throws r) ls s) = s_store s"
  "s_handles (fold (deliver throws r) ls s) = s_handles s"
  "s_observers (fold (deliver throws r) ls s) = s_observers s"
  "s_closing (fold (deliver throws r) ls s) = s_closing s"
  "s_seen (fold (deliver throws r) ls s) = s_seen s @ map (\<lambda>l. ((r, l), h_status (handleAt s r))) ls"
  by (induction ls arbitrary: s) auto

lemma publish_simps:
  assumes "r < length (s_store s)"
  shows "length (s_store (publish throws r st w s)) = length (s_store s)"
    and "s_observers (publish throws r st w s) = s_observers s"
    and "s_closing (publish throws r st w s) = s_closing s"
    and "s_handles (publish throws r st w s) =
           (if w \<noteq> None \<and> map_of (s_handles s) (h_id (handleAt s r)) = Some r
            then mdel (h_id (handleAt s r)) (s_handles s) else s_handles s)"
    and "r' < length (s_store s) \<Longrightarrow> handleAt (publish throws r st w s) r' =
           (if r' \<noteq> r then handleAt s r'
            else (handleAt s r)\<lparr>h_status := st, h_closed := (if w = None then h_closed (handleAt s r) else w),
                               h_listeners := (if w = None then h_listeners (handleAt s r) else [])\<rparr>)"
    and "s_seen (publish throws r st w s) = s_seen s @ map (\<lambda>l. ((r, l), st)) (h_listeners (handleAt s r))"
  using assms by (auto simp: publish_def Let_def forget_def split: option.splits)

section \<open>The invariant\<close>

text \<open>Every cached handle is open, every open handle is cached, and listeners are up to date.\<close>

definition sub_wf :: "subs \<Rightarrow> bool" where
  "sub_wf s =
     (mok (s_handles s)
      \<and> (\<forall>i r. map_of (s_handles s) i = Some r \<longrightarrow> r < length (s_store s) \<and> h_id (handleAt s r) = i \<and> \<not> hasClosed s r)
      \<and> (\<forall>obs r. map_of (s_observers s) obs = Some r \<longrightarrow> r < length (s_store s))
      \<and> (\<forall>r < length (s_store s).
           (hasClosed s r \<longrightarrow> h_listeners (handleAt s r) = [])
           \<and> (\<not> hasClosed s r \<longrightarrow> map_of (s_handles s) (h_id (handleAt s r)) = Some r)
           \<and> (\<forall>l \<in> set (h_listeners (handleAt s r)). lastSeen s r l = Some (h_status (handleAt s r))))
      \<and> (\<forall>p \<in> set (s_seen s). fst (fst p) < length (s_store s)))"

lemma sub_wfD:
  assumes "sub_wf s"
  shows "mok (s_handles s)"
    and "map_of (s_handles s) i = Some r \<Longrightarrow> r < length (s_store s) \<and> h_id (handleAt s r) = i \<and> \<not> hasClosed s r"
    and "map_of (s_observers s) obs = Some r \<Longrightarrow> r < length (s_store s)"
    and "r < length (s_store s) \<Longrightarrow> hasClosed s r \<Longrightarrow> h_listeners (handleAt s r) = []"
    and "r < length (s_store s) \<Longrightarrow> \<not> hasClosed s r \<Longrightarrow> map_of (s_handles s) (h_id (handleAt s r)) = Some r"
    and "r < length (s_store s) \<Longrightarrow> l \<in> set (h_listeners (handleAt s r)) \<Longrightarrow> lastSeen s r l = Some (h_status (handleAt s r))"
    and "p \<in> set (s_seen s) \<Longrightarrow> fst (fst p) < length (s_store s)"
  using assms by (simp_all add: sub_wf_def)

lemma sub_wfI:
  assumes "mok (s_handles s)"
    and "\<And>i r. map_of (s_handles s) i = Some r \<Longrightarrow> r < length (s_store s) \<and> h_id (handleAt s r) = i \<and> \<not> hasClosed s r"
    and "\<And>obs r. map_of (s_observers s) obs = Some r \<Longrightarrow> r < length (s_store s)"
    and "\<And>r. r < length (s_store s) \<Longrightarrow> hasClosed s r \<Longrightarrow> h_listeners (handleAt s r) = []"
    and "\<And>r. r < length (s_store s) \<Longrightarrow> \<not> hasClosed s r \<Longrightarrow> map_of (s_handles s) (h_id (handleAt s r)) = Some r"
    and "\<And>r l. r < length (s_store s) \<Longrightarrow> l \<in> set (h_listeners (handleAt s r)) \<Longrightarrow> lastSeen s r l = Some (h_status (handleAt s r))"
    and "\<And>p. p \<in> set (s_seen s) \<Longrightarrow> fst (fst p) < length (s_store s)"
  shows "sub_wf s"
  unfolding sub_wf_def using assms by blast

lemma wf_new: "sub_wf new_subs"
  by (simp add: sub_wf_def new_subs_def)

lemma lastSeen_pushed:
  "map_of (rev (seen @ map (\<lambda>l. ((r, l), st)) ls)) (r', l) =
     (if r' = r \<and> l \<in> set ls then Some st else map_of (rev seen) (r', l))"
  by (induction ls rule: rev_induct) auto

lemma wf_publish:
  assumes "sub_wf s" and "r < length (s_store s)" and "\<not> hasClosed s r"
  shows "sub_wf (publish throws r st w s)"
proof -
  note d = sub_wfD [OF assms(1)]
  let ?t = "publish throws r st w s"
  note p = publish_simps [OF assms(2), where throws = throws and st = st and w = w]
  have c: "map_of (s_handles s) (h_id (handleAt s r)) = Some r" using d(5) assms(2,3) by blast
  have m: "mok (s_handles ?t)" using d(1) by (simp add: p map_simps)
  have get: "map_of (s_handles ?t) i = (if w \<noteq> None \<and> i = h_id (handleAt s r) then None else map_of (s_handles s) i)" for i
    by (simp add: p c map_simps)
  have 1: "r' < length (s_store ?t) \<and> h_id (handleAt ?t r') = i \<and> \<not> hasClosed ?t r'"
    if "map_of (s_handles ?t) i = Some r'" for i r'
  proof -
    from that have g: "map_of (s_handles s) i = Some r'" and n: "w = None \<or> i \<noteq> h_id (handleAt s r)"
      unfolding get by (auto split: if_splits)
    have "r' < length (s_store s)" "h_id (handleAt s r') = i" "\<not> hasClosed s r'" using d(2) [OF g] by auto
    then show ?thesis using n by (auto simp: p)
  qed
  note q = publish_simps [OF assms(2)]
  have id: "h_id (handleAt s r') \<noteq> h_id (handleAt s r)" if "r' < length (s_store s)" "\<not> hasClosed s r'" "r' \<noteq> r" for r'
    using d(5) [OF that(1,2)] c that(3) by auto
  show ?thesis
  proof (rule sub_wfI)
    fix r' assume "r' < length (s_store ?t)"
    then have r': "r' < length (s_store s)" by (simp add: q)
    show "h_listeners (handleAt ?t r') = []" if "hasClosed ?t r'"
      using that r' d(4) [OF r'] assms(3) by (auto simp: q split: if_splits)
    show "map_of (s_handles ?t) (h_id (handleAt ?t r')) = Some r'" if "\<not> hasClosed ?t r'"
    proof (cases "r' = r")
      case True
      then have "w = None" using that r' by (auto simp: q split: if_splits)
      then show ?thesis using True c assms(2) by (simp add: q)
    next
      case False
      then have n: "\<not> hasClosed s r'" "h_id (handleAt ?t r') = h_id (handleAt s r')" using that r' by (auto simp: q)
      then show ?thesis using id [OF r' n(1) False] d(5) [OF r' n(1)] unfolding get n(2) by simp
    qed
    show "lastSeen ?t r' l = Some (h_status (handleAt ?t r'))" if "l \<in> set (h_listeners (handleAt ?t r'))" for l
      using that r' d(6) [OF r', of l] by (auto simp: q lastSeen_pushed simp del: rev_append split: if_splits)
  next
    fix i r' assume "map_of (s_handles ?t) i = Some r'"
    then show "r' < length (s_store ?t) \<and> h_id (handleAt ?t r') = i \<and> \<not> hasClosed ?t r'" by (rule 1)
  qed (use m d(3,7) assms(2) in \<open>auto simp: q(1,2,6)\<close>)
qed

lemma wf_receive: "sub_wf s \<Longrightarrow> r < length (s_store s) \<Longrightarrow> sub_wf (receive throws r st terminal s)"
  by (simp add: receive_def wf_publish)

lemma wf_stop: "sub_wf s \<Longrightarrow> r < length (s_store s) \<Longrightarrow> sub_wf (stop throws r s)"
  by (simp add: stop_def wf_publish)

lemma length_stop [simp]: "r < length (s_store s) \<Longrightarrow> length (s_store (stop throws r s)) = length (s_store s)"
  by (simp add: stop_def publish_simps)

lemma wf_stop_all:
  "sub_wf s \<Longrightarrow> \<forall>r \<in> set rs. r < length (s_store s) \<Longrightarrow>
     sub_wf (fold (stop throws) rs s) \<and> length (s_store (fold (stop throws) rs s)) = length (s_store s)"
  by (induction rs arbitrary: s) (auto simp: wf_stop)

lemma wf_closing: "sub_wf (s\<lparr>s_closing := b\<rparr>) = sub_wf s"
  by (simp add: sub_wf_def)

lemma cached_in_store: "sub_wf s \<Longrightarrow> r \<in> set (map snd (s_handles s)) \<Longrightarrow> r < length (s_store s)"
  using sub_wfD(1,2) by (fastforce simp: map_of_mok_iff)

lemma closed_run:
  assumes "sub_wf s"
  shows "sub_wf (closedSubs throws s) \<and> length (s_store (closedSubs throws s)) = length (s_store s)"
proof -
  have "sub_wf (s\<lparr>s_closing := True\<rparr>)" using assms by (simp add: wf_closing)
  moreover have "\<forall>r \<in> set (map snd (s_handles s)). r < length (s_store (s\<lparr>s_closing := True\<rparr>))"
    using cached_in_store [OF assms] by simp
  ultimately show ?thesis unfolding closedSubs_def using wf_stop_all by fastforce
qed

lemma watch_simps:
  assumes "r < length (s_store s)"
  shows "length (s_store (watchStatus throws r l s)) = length (s_store s)"
    and "s_observers (watchStatus throws r l s) = s_observers s"
    and "s_handles (watchStatus throws r l s) = s_handles s"
    and "r' < length (s_store s) \<Longrightarrow> handleAt (watchStatus throws r l s) r' =
           (if r' \<noteq> r \<or> hasClosed s r then handleAt s r' else (handleAt s r)\<lparr>h_listeners := sadd l (h_listeners (handleAt s r))\<rparr>)"
    and "s_seen (watchStatus throws r l s) = s_seen s @ [((r, l), h_status (handleAt s r))]"
  using assms by (simp_all add: watchStatus_def)

lemma wf_watch:
  assumes "sub_wf s" and "r < length (s_store s)"
  shows "sub_wf (watchStatus throws r l s)"
proof -
  note d = sub_wfD [OF assms(1)]
  note w = watch_simps [OF assms(2), where throws = throws and l = l]
  let ?t = "watchStatus throws r l s"
  have same: "h_id (handleAt ?t r') = h_id (handleAt s r')" "h_closed (handleAt ?t r') = h_closed (handleAt s r')"
    "h_status (handleAt ?t r') = h_status (handleAt s r')" if "r' < length (s_store s)" for r'
    using that by (simp_all add: w)
  show ?thesis
  proof (rule sub_wfI)
    fix r' assume "r' < length (s_store ?t)"
    then have r': "r' < length (s_store s)" by (simp add: w)
    show "h_listeners (handleAt ?t r') = []" if "hasClosed ?t r'"
      using that same [OF r'] d(4) [OF r'] r' by (auto simp: w(4))
    show "map_of (s_handles ?t) (h_id (handleAt ?t r')) = Some r'" if "\<not> hasClosed ?t r'"
      using that same [OF r'] d(5) [OF r'] by (simp add: w(3))
    show "lastSeen ?t r' l' = Some (h_status (handleAt ?t r'))" if "l' \<in> set (h_listeners (handleAt ?t r'))" for l'
      using that r' d(6) [OF r', of l'] d(4) [OF r'] by (auto simp: w(4,5) split: if_splits)
  qed (use d(1,2,3,7) same assms(2) in \<open>auto simp: w\<close>)
qed

lemma unwatch_simps:
  assumes "r < length (s_store s)"
  shows "r' < length (s_store s) \<Longrightarrow> handleAt (unwatch r l s) r' =
           (if r' \<noteq> r then handleAt s r' else (handleAt s r)\<lparr>h_listeners := removeAll l (h_listeners (handleAt s r))\<rparr>)"
    and "length (s_store (unwatch r l s)) = length (s_store s)"
    and "s_handles (unwatch r l s) = s_handles s"
    and "s_observers (unwatch r l s) = s_observers s"
    and "s_seen (unwatch r l s) = s_seen s"
  using assms by (simp_all add: unwatch_def)

lemma wf_unwatch:
  assumes "sub_wf s" and "r < length (s_store s)"
  shows "sub_wf (unwatch r l s)"
proof -
  note d = sub_wfD [OF assms(1)]
  note u = unwatch_simps [OF assms(2), where l = l]
  have "h_id (handleAt (unwatch r l s) r') = h_id (handleAt s r')" "h_closed (handleAt (unwatch r l s) r') = h_closed (handleAt s r')"
    "h_status (handleAt (unwatch r l s) r') = h_status (handleAt s r')"
    "set (h_listeners (handleAt (unwatch r l s) r')) \<subseteq> set (h_listeners (handleAt s r'))" if "r' < length (s_store s)" for r'
    using that by (auto simp: u)
  note same = this
  show ?thesis
  proof (rule sub_wfI)
    fix r' assume "r' < length (s_store (unwatch r l s))"
    then have r': "r' < length (s_store s)" by (simp add: u)
    show "h_listeners (handleAt (unwatch r l s) r') = []" if "hasClosed (unwatch r l s) r'"
      using that same [OF r'] d(4) [OF r'] by auto
    show "map_of (s_handles (unwatch r l s)) (h_id (handleAt (unwatch r l s) r')) = Some r'" if "\<not> hasClosed (unwatch r l s) r'"
      using that same [OF r'] d(5) [OF r'] by (simp add: u)
    show "lastSeen (unwatch r l s) r' l' = Some (h_status (handleAt (unwatch r l s) r'))"
      if "l' \<in> set (h_listeners (handleAt (unwatch r l s) r'))" for l'
      using that same [OF r'] d(6) [OF r', of l'] by (auto simp: u(5))
  qed (use d(1,2,3,7) same in \<open>auto simp: u\<close>)
qed

lemma subscribed_simps:
  assumes "map_of (s_handles s) (ss_id st) = None"
  shows "subscribeSettled st obs s =
    (length (s_store s), s\<lparr>s_store := s_store s @ [newHandle st], s_handles := mput (ss_id st) (length (s_store s)) (s_handles s),
       s_observers := mput obs (length (s_store s)) (s_observers s)\<rparr>)"
  using assms by (simp add: subscribeSettled_def Let_def)

lemma wf_subscribed:
  assumes "sub_wf s"
  shows "sub_wf (snd (subscribeSettled st obs s))"
proof (cases "map_of (s_handles s) (ss_id st)")
  case (Some r)
  then show ?thesis using assms by (simp add: subscribeSettled_def)
next
  case None
  note d = sub_wfD [OF assms]
  let ?t = "snd (subscribeSettled st obs s)"
  have t: "s_store ?t = s_store s @ [newHandle st]" "s_handles ?t = mput (ss_id st) (length (s_store s)) (s_handles s)"
    "s_observers ?t = mput obs (length (s_store s)) (s_observers s)" "s_seen ?t = s_seen s"
    by (simp_all add: subscribed_simps [OF None])
  have id: "h_id (handleAt s r) \<noteq> ss_id st" if "r < length (s_store s)" "\<not> hasClosed s r" for r
    using d(5) [OF that] None by auto
  show ?thesis
  proof (rule sub_wfI)
    fix r assume r: "r < length (s_store ?t)"
    show "h_listeners (handleAt ?t r) = []" if "hasClosed ?t r"
      using that r d(4) by (auto simp: t nth_append newHandle_def less_Suc_eq)
    show "map_of (s_handles ?t) (h_id (handleAt ?t r)) = Some r" if "\<not> hasClosed ?t r"
      using that r d(5) [of r] id [of r] by (auto simp: t nth_append newHandle_def less_Suc_eq map_simps)
    show "lastSeen ?t r l = Some (h_status (handleAt ?t r))" if "l \<in> set (h_listeners (handleAt ?t r))" for l
      using that r d(6) [of r l] by (auto simp: t nth_append newHandle_def less_Suc_eq split: if_splits)
  next
    fix i r assume "map_of (s_handles ?t) i = Some r"
    then show "r < length (s_store ?t) \<and> h_id (handleAt ?t r) = i \<and> \<not> hasClosed ?t r"
      using d(2) [of i r] by (auto simp: t map_simps nth_append newHandle_def split: if_splits)
  next
    fix obs' r assume "map_of (s_observers ?t) obs' = Some r"
    then show "r < length (s_store ?t)" using d(3) [of obs' r] by (auto simp: t map_simps split: if_splits)
  qed (use d(1,7) in \<open>auto simp: t map_simps less_SucI\<close>)
qed

inductive_cases sub_stepE: "sub_step throws s s'"

lemma wf_step: "sub_step throws s s' \<Longrightarrow> sub_wf s \<Longrightarrow> sub_wf s'"
  by (elim sub_stepE) (simp_all add: wf_subscribed wf_receive sub_wfD(3) wf_watch wf_unwatch closed_run closeSubs_def wf_closing)

lemma wf_reachable: "sub_reachable throws s \<Longrightarrow> sub_wf s"
  by (induction rule: sub_reachable.induct) (auto simp: wf_new wf_step)

section \<open>Closed handles\<close>

text \<open>What a closed handle keeps: its record, and the status every later call of a listener carries.\<close>

definition settledHandle :: "nat \<Rightarrow> subs \<Rightarrow> subs \<Rightarrow> bool" where
  "settledHandle r s s' =
     (r < length (s_store s') \<and> handleAt s' r = handleAt s r
      \<and> (\<exists>new. s_seen s' = s_seen s @ new \<and> (\<forall>p \<in> set new. fst (fst p) = r \<longrightarrow> snd p = h_status (handleAt s r))))"

lemma settledHandle_refl: "r < length (s_store s) \<Longrightarrow> settledHandle r s s"
  by (simp add: settledHandle_def)

lemma settledHandle_trans: "settledHandle r s t \<Longrightarrow> settledHandle r t u \<Longrightarrow> settledHandle r s u"
  unfolding settledHandle_def by (elim conjE exE, intro conjI) (auto simp del: split_paired_All split_paired_Ex)

lemma settledHandle_lastSeen:
  assumes "settledHandle r s s'" and "lastSeen s r l = Some (h_status (handleAt s r))"
  shows "lastSeen s' r l = Some (h_status (handleAt s r))"
proof -
  obtain new where n: "s_seen s' = s_seen s @ new" "\<And>p. p \<in> set new \<Longrightarrow> fst (fst p) = r \<Longrightarrow> snd p = h_status (handleAt s r)"
    using assms(1) by (auto simp: settledHandle_def)
  show ?thesis
  proof (cases "map_of (rev new) (r, l)")
    case (Some st)
    then have "((r, l), st) \<in> set new" by (auto dest: map_of_SomeD)
    then show ?thesis using n(2) [of "((r, l), st)"] n(1) Some by (simp add: map_add_def)
  qed (simp add: n(1) assms(2) map_add_def)
qed

lemma settled_publish:
  assumes "r < length (s_store s)" and "r' < length (s_store s)" and "r' \<noteq> r"
  shows "settledHandle r s (publish throws r' st w s)"
  using assms publish_simps [OF assms(2), where throws = throws and st = st and w = w] by (auto simp: settledHandle_def)

lemma settled_stop:
  assumes "r < length (s_store s)" and "hasClosed s r" and "r' < length (s_store s)"
  shows "settledHandle r s (stop throws r' s)"
  using assms settledHandle_refl settled_publish [OF assms(1,3)] by (cases "r' = r") (auto simp: stop_def)

lemma settled_stop_all:
  "r < length (s_store s) \<Longrightarrow> hasClosed s r \<Longrightarrow> \<forall>r' \<in> set rs. r' < length (s_store s) \<Longrightarrow>
     settledHandle r s (fold (stop throws) rs s)"
proof (induction rs arbitrary: s)
  case (Cons r' rs)
  have st: "settledHandle r s (stop throws r' s)" using Cons.prems by (intro settled_stop) auto
  then have "settledHandle r (stop throws r' s) (fold (stop throws) rs (stop throws r' s))"
    using Cons.prems by (intro Cons.IH) (auto simp: settledHandle_def)
  then show ?case using settledHandle_trans [OF st] by simp
qed (simp add: settledHandle_refl)

lemma settled_closed:
  assumes "sub_wf s" and "r < length (s_store s)" and "hasClosed s r"
  shows "settledHandle r s (closedSubs throws s)"
  unfolding closedSubs_def
  using settled_stop_all [of r "s\<lparr>s_closing := True\<rparr>"] assms cached_in_store [OF assms(1)]
  by (auto simp: settledHandle_def)

lemma settled_step:
  assumes "sub_wf s" and "r < length (s_store s)" and "hasClosed s r" and "sub_step throws s s'"
  shows "settledHandle r s s'"
  using assms(4)
proof (cases rule: sub_step.cases)
  case (subscribed st obs)
  then show ?thesis using assms(2)
    by (auto simp: settledHandle_def subscribeSettled_def Let_def nth_append split: option.splits)
next
  case (snapshot obs r' st terminal)
  have r': "r' < length (s_store s)" using snapshot(2) sub_wfD(3) [OF assms(1)] by blast
  show ?thesis
    using snapshot(1) assms(2,3) settledHandle_refl settled_publish [OF assms(2) r'] by (cases "r' = r") (auto simp: receive_def)
next
  case (watched r' l)
  then show ?thesis using assms(2,3) watch_simps [OF watched(2), where throws = throws and l = l]
    by (auto simp: settledHandle_def)
next
  case (unwatched r' l)
  have "h_listeners (handleAt s r) = []" using sub_wfD(4) [OF assms(1)] assms(2,3) by blast
  then show ?thesis using assms(2) unwatch_simps [OF unwatched(2), where l = l] unwatched(1)
    by (auto simp: settledHandle_def)
next
  case closing
  then show ?thesis using assms(2) by (simp add: closeSubs_def settledHandle_def)
next
  case gone
  then show ?thesis using settled_closed [OF assms(1-3)] by simp
qed

lemma settled_run:
  "(sub_step throws)\<^sup>*\<^sup>* s s' \<Longrightarrow> sub_wf s \<Longrightarrow> r < length (s_store s) \<Longrightarrow> hasClosed s r \<Longrightarrow>
     sub_wf s' \<and> settledHandle r s s'"
proof (induction rule: rtranclp_induct)
  case (step t u)
  have t: "sub_wf t" "settledHandle r s t" using step by auto
  then have "r < length (s_store t)" "hasClosed t r" using step.prems by (auto simp: settledHandle_def)
  then show ?case using settled_step [OF t(1) _ _ step.hyps(2)] wf_step [OF step.hyps(2) t(1)] settledHandle_trans [OF t(2)] by blast
qed (simp add: settledHandle_refl)

section \<open>The end of the runtime\<close>

abbreviation stopped :: "sub_status \<Rightarrow> sub_status" where
  "stopped st \<equiv> st\<lparr>u_active := False, u_connection := Stopped\<rparr>"

lemma stop_open:
  assumes "r < length (s_store s)" and "\<not> hasClosed s r"
  shows "h_status (handleAt (stop throws r s) r) = stopped (h_status (handleAt s r))"
    and "hasClosed (stop throws r s) r"
    and "l \<in> set (h_listeners (handleAt s r)) \<Longrightarrow> lastSeen (stop throws r s) r l = Some (stopped (h_status (handleAt s r)))"
  using assms by (simp_all add: stop_def publish_simps lastSeen_pushed del: rev_append)

lemma stop_other:
  assumes "r < length (s_store s)" and "r' < length (s_store s)" and "r' \<noteq> r"
  shows "handleAt (stop throws r s) r' = handleAt s r'"
  using assms by (simp add: stop_def publish_simps)

lemma stop_all_open:
  "r \<in> set rs \<Longrightarrow> \<forall>r' \<in> set rs. r' < length (s_store s) \<Longrightarrow> \<not> hasClosed s r \<Longrightarrow> t = fold (stop throws) rs s \<Longrightarrow>
     hasClosed t r \<and> h_status (handleAt t r) = stopped (h_status (handleAt s r))
     \<and> (\<forall>l \<in> set (h_listeners (handleAt s r)). lastSeen t r l = Some (h_status (handleAt t r)))"
proof (induction rs arbitrary: s)
  case (Cons r' rs)
  let ?s = "stop throws r' s"
  have len: "r < length (s_store s)" "r' < length (s_store s)" "\<forall>x \<in> set rs. x < length (s_store ?s)" using Cons.prems by auto
  show ?case
  proof (cases "r' = r")
    case True
    have o: "hasClosed ?s r" "h_status (handleAt ?s r) = stopped (h_status (handleAt s r))"
      using stop_open(1,2) [OF len(1) Cons.prems(3), where throws = throws] True by simp_all
    then have "settledHandle r ?s t" using settled_stop_all [of r ?s rs throws] len True Cons.prems(4) by simp
    note f = this
    have t: "handleAt t r = handleAt ?s r" using f by (simp add: settledHandle_def)
    have "lastSeen t r l = Some (h_status (handleAt t r))" if "l \<in> set (h_listeners (handleAt s r))" for l
      using stop_open(3) [OF len(1) Cons.prems(3) that, where throws = throws] settledHandle_lastSeen [OF f] True o(2) t by simp
    then show ?thesis using o t by simp
  next
    case False
    then have same: "handleAt ?s r = handleAt s r" using stop_other [OF len(2,1)] by simp
    have "r \<in> set rs" using Cons.prems(1) False by simp
    from Cons.IH [OF this len(3)] show ?thesis using Cons.prems(3,4) same by simp
  qed
qed simp

lemma open_is_cached: "sub_wf s \<Longrightarrow> r < length (s_store s) \<Longrightarrow> \<not> hasClosed s r \<Longrightarrow> r \<in> set (map snd (s_handles s))"
  using sub_wfD(5) map_of_SomeD by force

lemma closed_stops_open:
  assumes "sub_wf s" and "r < length (s_store s)" and "\<not> hasClosed s r" and "t = closedSubs throws s"
  shows "hasClosed t r \<and> h_status (handleAt t r) = stopped (h_status (handleAt s r))
     \<and> (\<forall>l \<in> set (h_listeners (handleAt s r)). lastSeen t r l = Some (h_status (handleAt t r)))"
  using stop_all_open [where s = "s\<lparr>s_closing := True\<rparr>"] open_is_cached [OF assms(1-3)] cached_in_store [OF assms(1)]
    assms(3,4) unfolding closedSubs_def by simp

lemma closed_all:
  assumes "sub_wf s" and "r < length (s_store s)"
  shows "hasClosed (closedSubs throws s) r"
proof (cases "hasClosed s r")
  case True
  then show ?thesis using settled_closed [OF assms True, of throws] by (auto simp: settledHandle_def)
next
  case False
  then show ?thesis using closed_stops_open [OF assms False refl] by blast
qed

section \<open>Properties\<close>

text \<open>
  C17: An identity has at most one open handle, and a subscribe that commits to the identity
  answers that handle and changes nothing.
\<close>

theorem one_open_handle:
  assumes "sub_reachable throws s"
    and "r < length (s_store s)" and "\<not> hasClosed s r" and "r' < length (s_store s)" and "\<not> hasClosed s r'"
    and "h_id (handleAt s r') = h_id (handleAt s r)" and "ss_id st = h_id (handleAt s r)"
  shows "r' = r \<and> subscribeSettled st obs s = (r, s)"
proof -
  have wf: "sub_wf s" using assms(1) by (rule wf_reachable)
  show ?thesis using sub_wfD(5) [OF wf assms(2,3)] sub_wfD(5) [OF wf assms(4,5)] assms(6,7) by (simp add: subscribeSettled_def)
qed

text \<open>
  Whatever follows, a closed handle keeps its record, and every later call of a listener
  through it carries the status it ended with.
\<close>

lemma closed_handle_is_final:
  assumes "sub_reachable throws s" and "r < length (s_store s)" and "hasClosed s r" and "(sub_step throws)\<^sup>*\<^sup>* s s'"
  shows "handleAt s' r = handleAt s r
     \<and> (\<exists>new. s_seen s' = s_seen s @ new \<and> (\<forall>p \<in> set new. fst (fst p) = r \<longrightarrow> snd p = h_status (handleAt s r)))"
  using settled_run [OF assms(4) wf_reachable [OF assms(1)] assms(2,3)] unfolding settledHandle_def by blast

text \<open>
  A watching listener has always been handed the status its handle shows; when the
  runtime is gone every handle is closed, and those it had not ended show the stopped status
  that their listeners were handed last.
\<close>

lemma watchers_see_status:
  assumes "sub_reachable throws s" and "r < length (s_store s)"
  shows "(\<forall>l \<in> set (h_listeners (handleAt s r)). lastSeen s r l = Some (h_status (handleAt s r)))
     \<and> hasClosed (closedSubs throws s) r
     \<and> (\<not> hasClosed s r \<longrightarrow>
          h_status (handleAt (closedSubs throws s) r) = stopped (h_status (handleAt s r))
          \<and> (\<forall>l \<in> set (h_listeners (handleAt s r)). lastSeen (closedSubs throws s) r l = Some (stopped (h_status (handleAt s r)))))"
proof (cases "hasClosed s r")
  case True
  have wf: "sub_wf s" using assms(1) by (rule wf_reachable)
  have "handleAt (closedSubs throws s) r = handleAt s r"
    using settled_closed [OF wf assms(2) True, of throws] by (simp add: settledHandle_def)
  then show ?thesis using True sub_wfD(4) [OF wf assms(2) True] by simp
next
  case False
  have wf: "sub_wf s" using assms(1) by (rule wf_reachable)
  show ?thesis using closed_stops_open [OF wf assms(2) False refl, of throws] sub_wfD(6) [OF wf assms(2)] False by simp
qed

section \<open>Witnesses\<close>

definition ex_sub :: subs where
  "ex_sub = watchStatus (\<lambda>_ _. False) 0 7 (snd (subscribeSettled \<lparr>ss_stream = js ''s'', ss_id = 3, ss_start = None\<rparr> (js ''o'') new_subs))"

lemma ex_sub_reachable: "sub_reachable (\<lambda>_ _. False) ex_sub"
  unfolding ex_sub_def
  by (intro sub_reachable.run [OF _ sub_step.watched] sub_reachable.run [OF sub_reachable.start sub_step.subscribed])
     (simp add: subscribeSettled_def new_subs_def)

lemma ex_sub_simps:
  "length (s_store ex_sub) = 1" "h_closed (handleAt ex_sub 0) = None" "h_id (handleAt ex_sub 0) = 3" "h_listeners (handleAt ex_sub 0) = [7]"
  by (simp_all add: ex_sub_def watchStatus_def deliver_def onHandle_def subscribeSettled_def new_subs_def newHandle_def sadd_def Let_def)

theorem one_open_handle_witness:
  "subscribeSettled \<lparr>ss_stream = js ''s'', ss_id = 3, ss_start = Some 0\<rparr> (js ''p'') ex_sub = (0, ex_sub)"
  using one_open_handle [OF ex_sub_reachable, of 0 0 "\<lparr>ss_stream = js ''s'', ss_id = 3, ss_start = Some 0\<rparr>" "js ''p''"]
  by (simp add: ex_sub_simps)

end
