(* ===== verification/ClientSpec.thy ===== *)
theory ClientSpec
  imports Client ExecutorSpec CallsSpec SubscriptionsSpec
begin

text \<open>
  What the client promises: at most one connection has its effects installed, none of a
  connection that failed, was closed or was refused is ever running, and a client whose
  close resolved has ended everything.
\<close>

section \<open>The executor under the client\<close>

lemma hold_effects [simp]: "b_effects (hold b) = b_effects b"
  by (simp add: hold_def Let_def)

lemma submitRouted_effects [simp]: "b_effects (snd (submitRouted g envelope hook refuse b)) = b_effects b"
  by (auto simp: submitRouted_def route_def Let_def settleRoute_def dropCallbacks_def settleWith_def registerCallback_def
      split: option.splits registers.splits prod.splits)

lemma task_effects [simp]: "b_effects (snd (task cmd hook refuse b)) = b_effects b"
  by (simp add: task_def)

lemma transaction_effects [simp]: "b_effects (snd (transaction refuse b)) = b_effects b"
  by (simp add: transaction_def)

lemma close_effects [simp]: "b_effects (Bridge.close refused b) = b_effects b"
  by (simp add: Bridge.close_def Let_def)

text \<open>Steps that install nothing.\<close>

definition calm :: "'x executor \<Rightarrow> 'x executor \<Rightarrow> bool" where
  "calm e e' = (e_handlers e' = e_handlers e
     \<and> (\<forall>kind n. map_of (b_effects (e_bridge e')) kind = Some n \<longrightarrow> map_of (b_effects (e_bridge e)) kind = Some n))"

lemma calm_dull: "dull e e' \<Longrightarrow> calm e e'"
  by (simp add: calm_def dull_def)

lemma calm_trans: "calm e e' \<Longrightarrow> calm e' e'' \<Longrightarrow> calm e e''"
  by (simp add: calm_def)

lemma calm_handle: "calm e (handle refused opened owner h i op e)"
proof -
  let ?e = "\<lambda>j. newJob i j (e\<lparr>e_running := mput i \<lparr>en_owner = owner, en_abort = None\<rparr> (e_running e), e_asked := e_asked e @ [i]\<rparr>)"
  have k: "calm e (?e j)" for j by (simp add: calm_def newJob_def)
  have f: "calm e (fold (socketEvent refused i) (fst opened) (?e j))" for j
    by (rule calm_trans [OF k calm_dull [OF dull_fold]]) (rule dull_socketEvent)
  show ?thesis unfolding handle_def Let_def
    by (cases h; cases "snd opened")
      (simp_all add: k calm_trans [OF k calm_dull [OF dull_setAbort]] calm_trans [OF f calm_dull [OF dull_setAbort]]
        calm_trans [OF f calm_dull [OF dull_answer]])
qed

lemma work_step: "work e e' \<Longrightarrow> estep e e' \<and> calm e e'"
proof (induction rule: work.induct)
  case (asked e throws refused opened i kind op)
  have "calm e (e\<lparr>e_bridge := effect throws refused i (AskOther kind op) (e_bridge e)\<rparr>)" by (simp add: calm_def)
  from this calm_trans [OF this calm_handle] have "calm e (effectAsked throws refused opened i kind op e)"
    by (simp add: effectAsked_def Let_def split: option.splits)
  then show ?case using estep.asked by blast
next
  case (cancelling e throws i ev)
  have "calm e (e\<lparr>e_bridge := dispatch throws False (CancelEffect i ev) (e_bridge e)\<rparr>)" by (simp add: calm_def cancelCallback_def)
  from calm_trans [OF this calm_dull [OF dull_cancel]] show ?case using estep.cancelling by (auto simp: effectCancelled_def)
next
  case (settling e refused n r)
  have "calm e (e\<lparr>e_jobs := js\<rparr>)" for js by (simp add: calm_def)
  then have "calm e (jobSettled refused n r e)"
    by (simp add: jobSettled_def calm_trans [OF _ calm_dull [OF dull_answer]] calm_dull [OF dull_refl] split: option.splits job.splits)
  then show ?case using estep.settling by blast
next
  case (hearing e refused n ev)
  have "calm e (socketHeard refused n ev e)"
    by (simp add: socketHeard_def calm_dull [OF dull_socketEvent] calm_dull [OF dull_refl] split: option.splits job.splits)
  then show ?case using estep.hearing by blast
next
  case (elsewhere b e)
  then show ?case using estep.elsewhere by (auto simp: calm_def)
qed

lemma calm_uninstall: "calm e (uninstall c e)"
proof -
  let ?b = "case in_listener c of None \<Rightarrow> fold (\<lambda>(kind, n). offEffect kind n) (in_kinds c) (e_bridge e)
       | Some l \<Rightarrow> off (js ''report'') l (fold (\<lambda>(kind, n). offEffect kind n) (in_kinds c) (e_bridge e))"
  have "calm e (e\<lparr>e_bridge := ?b\<rparr>)" by (auto simp: calm_def offEffects_effects split: option.splits)
  then show ?thesis unfolding uninstall_def abort_def Let_def by (rule calm_trans) (rule calm_dull [OF dull_cancels])
qed

lemma uninstall_silent: "bound (in_owner c) e \<subseteq> set (in_kinds c) \<Longrightarrow> silent (in_owner c) (uninstall c e)"
  unfolding silent_def uninstall_bound by (auto simp: uninstall_running dest: map_of_SomeD split: if_splits)

section \<open>Connections of a client\<close>

definition network :: "jsstr set" where
  "network = {js ''http'', js ''socket'', js ''refreshAuth''}"

abbreviation ownerAt :: "('x, 'v) client \<Rightarrow> nat \<Rightarrow> nat" where
  "ownerAt c k \<equiv> in_owner (cl_conns c ! k)"

definition idle :: "('x, 'v) client \<Rightarrow> nat \<Rightarrow> bool" where
  "idle c k = (k < length (cl_conns c) \<and> cl_connecting c \<noteq> Some k \<and> cl_connection c \<noteq> Some k)"

definition conn_inv :: "('x, 'v) client \<Rightarrow> bool" where
  "conn_inv c =
     ((\<forall>k < length (cl_conns c). ownerAt c k < e_fresh (cl_executor c)
         \<and> bound (ownerAt c k) (cl_executor c) \<subseteq> set (in_kinds (cl_conns c ! k)))
      \<and> (\<forall>k. idle c k \<longrightarrow> silent (ownerAt c k) (cl_executor c))
      \<and> (\<forall>k. cl_connecting c = Some k \<longrightarrow> k < length (cl_conns c) \<and> cl_connection c = None)
      \<and> (\<forall>k. cl_connection c = Some k \<longrightarrow> k < length (cl_conns c))
      \<and> (\<forall>kind \<in> network. \<forall>n. map_of (b_effects (bridgeOf c)) kind = Some n \<longrightarrow>
           (\<exists>k < length (cl_conns c). (kind, n) \<in> bound (ownerAt c k) (cl_executor c)))
      \<and> (cl_closing c \<in> {AwaitBridge, ClosedNow} \<longrightarrow> cl_connecting c = None \<and> cl_connection c = None))"

lemma conn_invD:
  assumes "conn_inv c"
  shows "k < length (cl_conns c) \<Longrightarrow> ownerAt c k < e_fresh (cl_executor c)"
    and "k < length (cl_conns c) \<Longrightarrow> bound (ownerAt c k) (cl_executor c) \<subseteq> set (in_kinds (cl_conns c ! k))"
    and "idle c k \<Longrightarrow> silent (ownerAt c k) (cl_executor c)"
    and "cl_connecting c = Some k \<Longrightarrow> k < length (cl_conns c) \<and> cl_connection c = None"
    and "cl_connection c = Some k \<Longrightarrow> k < length (cl_conns c)"
    and "kind \<in> network \<Longrightarrow> map_of (b_effects (bridgeOf c)) kind = Some n \<Longrightarrow>
      \<exists>k < length (cl_conns c). (kind, n) \<in> bound (ownerAt c k) (cl_executor c)"
    and "cl_closing c \<in> {AwaitBridge, ClosedNow} \<Longrightarrow> cl_connecting c = None \<and> cl_connection c = None"
  using assms unfolding conn_inv_def by blast+

text \<open>The invariant under a change of the executor that installs nothing, and under changes elsewhere.\<close>

lemma conn_inv_calm:
  assumes inv: "conn_inv c" and st: "estep (cl_executor c) e" and calm: "calm (cl_executor c) e"
  shows "conn_inv (c\<lparr>cl_executor := e\<rparr>)"
proof -
  have k: "keeps (ownerAt c k) (cl_executor c) e" if "k < length (cl_conns c)" for k
    by (rule keeps_step [OF st conn_invD(1) [OF inv that]])
  have "\<exists>k < length (cl_conns c). (kind, n) \<in> bound (ownerAt c k) e"
    if "kind \<in> network" "map_of (b_effects (e_bridge e)) kind = Some n" for kind n
    using conn_invD(6) [OF inv that(1)] calm that(2) unfolding calm_def bound_def by fastforce
  then show ?thesis using conn_invD [OF inv] k unfolding conn_inv_def idle_def keeps_def by simp (meson subset_trans)
qed

lemma conn_inv_else:
  assumes "conn_inv c" and "cl_executor c' = cl_executor c" "cl_conns c' = cl_conns c" "cl_connecting c' = cl_connecting c"
    "cl_connection c' = cl_connection c" "cl_closing c' \<in> {AwaitBridge, ClosedNow} \<Longrightarrow> cl_connecting c = None \<and> cl_connection c = None"
  shows "conn_inv c'"
  using assms unfolding conn_inv_def idle_def by simp

lemma onBridge_form: "snd (onBridge f c) = c\<lparr>cl_executor := (cl_executor c)\<lparr>e_bridge := snd (f (bridgeOf c))\<rparr>\<rparr>"
  by (simp add: onBridge_def case_prod_beta)

lemma conn_inv_bridge:
  assumes "conn_inv c" and "\<And>b. b_effects (snd (f b)) = b_effects b"
  shows "conn_inv (snd (onBridge f c))"
  unfolding onBridge_form using assms by (intro conn_inv_calm estep.elsewhere) (simp_all add: calm_def)

lemma conn_inv_halt:
  assumes inv: "conn_inv c" and k: "k < length (cl_conns c)" and "cl_connecting c \<noteq> Some k"
  shows "conn_inv (halt k c)"
proof -
  let ?e = "uninstall (cl_conns c ! k) (cl_executor c)"
  have i: "conn_inv (c\<lparr>cl_executor := ?e\<rparr>)" by (rule conn_inv_calm [OF inv estep.uninstalling calm_uninstall])
  have s: "silent (ownerAt c k) ?e" by (rule uninstall_silent [OF conn_invD(2) [OF inv k]])
  have "silent (ownerAt c j) ?e" if "idle (halt k c) j" for j
    using that s conn_invD(3) [OF i, of j] by (cases "j = k") (auto simp: idle_def halt_def split: if_splits)
  then show ?thesis using conn_invD [OF i] unfolding conn_inv_def by (auto simp: halt_def)
qed

lemma conn_inv_settled:
  assumes inv: "conn_inv c"
  shows "conn_inv (connectSettled ok c)"
proof (cases "cl_connecting c")
  case (Some k)
  let ?e = "uninstall (cl_conns c ! k) (cl_executor c)"
  have k: "k < length (cl_conns c)" "cl_connection c = None" using conn_invD(4) [OF inv Some] by auto
  have n: "cl_closing c \<notin> {AwaitBridge, ClosedNow}" using conn_invD(7) [OF inv] Some by auto
  have i: "conn_inv (c\<lparr>cl_executor := ?e\<rparr>)" by (rule conn_inv_calm [OF inv estep.uninstalling calm_uninstall])
  have s: "silent (ownerAt c k) ?e" by (rule uninstall_silent [OF conn_invD(2) [OF inv k(1)]])
  have "idle c j" if "idle (c\<lparr>cl_connecting := None, cl_connection := Some k\<rparr>) j" for j
    using that Some k by (auto simp: idle_def)
  then have "conn_inv (c\<lparr>cl_connecting := None, cl_connection := Some k\<rparr>)"
    using conn_invD [OF inv] k n unfolding conn_inv_def by auto
  moreover have "silent (ownerAt c j) ?e" if "idle (c\<lparr>cl_connecting := None, cl_executor := ?e\<rparr>) j" for j
    using that s conn_invD(3) [OF i, of j] Some k by (cases "j = k") (auto simp: idle_def)
  then have "conn_inv (c\<lparr>cl_connecting := None, cl_executor := ?e\<rparr>)"
    using conn_invD [OF i] k n unfolding conn_inv_def by auto
  ultimately show ?thesis using Some by (simp add: connectSettled_def)
qed (use inv in \<open>simp add: connectSettled_def\<close>)

lemma no_network:
  assumes "conn_inv c" and "cl_connecting c = None" "cl_connection c = None" and "kind \<in> network"
  shows "map_of (b_effects (bridgeOf c)) kind = None"
proof (rule ccontr)
  assume "map_of (b_effects (bridgeOf c)) kind \<noteq> None"
  then obtain n k where "k < length (cl_conns c)" "(kind, n) \<in> bound (ownerAt c k) (cl_executor c)"
    using conn_invD(6) [OF assms(1,4)] by blast
  moreover from this have "idle c k" using assms(2,3) by (simp add: idle_def)
  ultimately show False using conn_invD(3) [OF assms(1)] by (simp add: silent_def)
qed

lemma startConnection_network:
  assumes "startConnection refreshAuth e = (inst, e')" and "kind \<in> network" and "map_of (b_effects (e_bridge e')) kind = Some n"
    and "map_of (b_effects (e_bridge e)) kind = None"
  shows "(kind, n) \<in> bound (in_owner inst) e'"
  using assms unfolding bound_def network_def
  by (auto simp: startConnection_def owned_def install_def onEffect_def map_simps split: if_splits)

lemma conn_inv_start:
  assumes inv: "conn_inv c" and iss: "issued (cl_executor c)" and free: "cl_connecting c = None" "cl_connection c = None"
    and open': "cl_closing c = NotClosing" and st: "startConnection refreshAuth (cl_executor c) = (inst, e)"
  shows "conn_inv (c\<lparr>cl_executor := e, cl_conns := cl_conns c @ [inst], cl_connecting := Some (length (cl_conns c))\<rparr>)" (is "conn_inv ?c")
proof -
  have es: "estep (cl_executor c) e" using estep.connecting [of "cl_executor c" refreshAuth] st by simp
  note sb = started_bound [OF iss st]
  have k: "keeps (ownerAt c k) (cl_executor c) e" if "k < length (cl_conns c)" for k
    by (rule keeps_step [OF es conn_invD(1) [OF inv that]])
  have own: "ownerAt ?c k < e_fresh e \<and> bound (ownerAt ?c k) e \<subseteq> set (in_kinds (cl_conns ?c ! k))"
    if "k < length (cl_conns ?c)" for k
  proof (cases "k < length (cl_conns c)")
    case True
    then show ?thesis using k [OF True] conn_invD(2) [OF inv True] by (auto simp: keeps_def nth_append)
  next
    case False
    then show ?thesis using sb that by (simp add: nth_append less_Suc_eq)
  qed
  have sil: "silent (ownerAt ?c k) e" if "idle ?c k" for k
  proof -
    have "idle c k" "k < length (cl_conns c)" using that free by (auto simp: idle_def less_Suc_eq)
    then show ?thesis using conn_invD(3) [OF inv] k by (simp add: keeps_def nth_append)
  qed
  have net: "\<exists>k < length (cl_conns ?c). (kind, n) \<in> bound (ownerAt ?c k) e"
    if "kind \<in> network" "map_of (b_effects (e_bridge e)) kind = Some n" for kind n
    using startConnection_network [OF st that no_network [OF inv free that(1)]]
    by (intro exI [of _ "length (cl_conns c)"]) simp
  show ?thesis unfolding conn_inv_def
  proof (intro conjI allI impI ballI)
    show "\<exists>k < length (cl_conns ?c). (kind, n) \<in> bound (ownerAt ?c k) (cl_executor ?c)"
      if "kind \<in> network" "map_of (b_effects (bridgeOf ?c)) kind = Some n" for kind n
      using net [OF that(1)] that(2) by simp
    show "silent (ownerAt ?c k) (cl_executor ?c)" if "idle ?c k" for k using sil [OF that] by simp
  qed (use own free open' in simp_all)
qed

lemma conn_inv_closing:
  assumes inv: "conn_inv c"
  shows "conn_inv (closeClient refused c)" "conn_inv (closeStarted refused c)" "conn_inv (closeDone throws c)"
proof -
  have b: "conn_inv (snd (onBridge (\<lambda>b. ((), Bridge.close refused b)) c'))" if "conn_inv c'" for c' :: "('a, 'b) client"
    by (rule conn_inv_bridge [OF that]) simp
  have one: "conn_inv (c\<lparr>cl_actions := r, cl_subs := s\<rparr>)" for r s by (rule conn_inv_else [OF inv]) (use conn_invD(7) [OF inv] in simp_all)
  then have told: "conn_inv (c\<lparr>cl_actions := r, cl_subs := s, cl_closing := AwaitStarted t\<rparr>)" for r s t
    by (rule conn_inv_else) simp_all
  have "conn_inv ((snd (onBridge (\<lambda>b. ((), Bridge.close refused b)) (c\<lparr>cl_actions := r, cl_subs := s\<rparr>)))\<lparr>cl_closing := AwaitStarted t\<rparr>)" for r s t
    by (rule conn_inv_else [OF b [OF one]]) simp_all
  then show "conn_inv (closeClient refused c)" using one told by (simp add: closeClient_def Let_def)
  show "conn_inv (closeDone throws c)"
    unfolding closeDone_def using inv conn_invD(7) [OF inv]
    by (auto split: closing.splits intro!: conn_inv_else [OF inv])
  show "conn_inv (closeStarted refused c)"
  proof (cases "\<exists>told. cl_closing c = AwaitStarted told \<and> cl_connecting c = None")
    case True
    then obtain t where t: "cl_closing c = AwaitStarted t" "cl_connecting c = None" by blast
    define c1 where "c1 = (case cl_connection c of None \<Rightarrow> c | Some k \<Rightarrow> halt k c)"
    have i1: "conn_inv c1" unfolding c1_def using inv t conn_inv_halt [OF inv] conn_invD(5) [OF inv] by (simp split: option.splits)
    have f1: "cl_connecting c1 = None" "cl_connection c1 = None" unfolding c1_def using t by (auto simp: halt_def split: option.splits)
    define c2 where "c2 = (if t then c1 else snd (onBridge (\<lambda>b. ((), Bridge.close refused b)) c1))"
    have c2: "conn_inv c2" "cl_connecting c2 = None" "cl_connection c2 = None" unfolding c2_def using i1 f1 b by (simp_all add: onBridge_form)
    have "conn_inv (c2\<lparr>cl_closing := AwaitBridge\<rparr>)" by (rule conn_inv_else [OF c2(1)]) (simp_all add: c2)
    moreover have "closeStarted refused c = c2\<lparr>cl_closing := AwaitBridge\<rparr>" using t by (simp add: closeStarted_def c1_def c2_def Let_def)
    ultimately show ?thesis by simp
  qed (use inv in \<open>auto simp: closeStarted_def split: closing.splits\<close>)
qed

section \<open>All clients\<close>

lemma estep_bridge: "(\<And>b. b_effects (snd (f b)) = b_effects b) \<Longrightarrow> estep (cl_executor c) (cl_executor (snd (onBridge f c)))"
  unfolding onBridge_form using estep.elsewhere [of "snd (f (bridgeOf c))" "cl_executor c"] by simp

lemma taskOf_form: "snd (taskOf inside cmd hook refuse c) \<in> {c, snd (onBridge (task cmd hook refuse) c)}"
  by (auto simp: taskOf_def split: prod.splits sum.splits)

lemma cstep_conn:
  assumes "cstep throws c c'" and "conn_inv c" and "ereachable (cl_executor c)"
  shows "conn_inv c' \<and> ereachable (cl_executor c')"
  using assms
proof (induction rule: cstep.induct)
  case (working c e)
  then show ?case using work_step conn_inv_calm ereachable.run by fastforce
next
  case (tasks c inside cmd hook refuse)
  have "conn_inv (snd (onBridge (task cmd hook refuse) c))" "ereachable (cl_executor (snd (onBridge (task cmd hook refuse) c)))"
    using tasks by (auto intro: conn_inv_bridge ereachable.run [OF _ estep_bridge])
  then show ?case using taskOf_form [of inside cmd hook refuse c] tasks by auto
next
  case (transacting c inside refuse)
  let ?c = "c\<lparr>cl_transactions := Suc (cl_transactions c)\<rparr>"
  let ?d = "snd (onBridge (transaction refuse) ?c)"
  have c: "conn_inv ?c" by (rule conn_inv_else [OF transacting(1)]) (use conn_invD(7) [OF transacting(1)] in simp_all)
  have d: "conn_inv ?d" by (rule conn_inv_bridge [OF c]) simp
  have d': "conn_inv (?d\<lparr>cl_transactions := n\<rparr>)" for n by (rule conn_inv_else [OF d]) (use conn_invD(7) [OF d] in simp_all)
  have "ereachable (cl_executor ?d)" using ereachable.run [OF transacting(2)] estep_bridge [of "transaction refuse" ?c] by simp
  then show ?case using transacting d d' by (auto simp: transactionStart_def split: prod.splits sum.splits)
next
  case (transacted c)
  have "conn_inv (transactionSettled c)" unfolding transactionSettled_def
    by (rule conn_inv_else [OF transacted(1)]) (use conn_invD(7) [OF transacted(1)] in simp_all)
  then show ?case using transacted by (simp add: transactionSettled_def)
next
  case (connecting c inside server timeout refreshAuth threw refuse)
  obtain inst e where st: "startConnection refreshAuth (cl_executor c) = (inst, e)" by fastforce
  let ?c = "c\<lparr>cl_executor := e, cl_conns := cl_conns c @ [inst], cl_connecting := Some (length (cl_conns c))\<rparr>"
  have e: "ereachable e" using ereachable.run [OF connecting(2) estep.connecting [of _ refreshAuth]] st by simp
  have "conn_inv ?c" if "cl_connecting c = None" "cl_connection c = None" "cl_closing c = NotClosing"
    by (rule conn_inv_start [OF connecting(1) ereachable_issued [OF connecting(2)] that st])
  then have "conn_inv (snd (onBridge (task cmd None refuse) ?c)) \<and> ereachable (cl_executor (snd (onBridge (task cmd None refuse) ?c)))"
    if "cl_connecting c = None" "cl_connection c = None" "cl_closing c = NotClosing" for cmd
    using that ereachable.run [OF e] estep_bridge [of "task cmd None refuse" ?c] by (auto intro: conn_inv_bridge)
  then show ?case using connecting st by (auto simp: connectStart_def Let_def split: option.splits)
next
  case (connected c ok)
  have "ereachable (cl_executor (connectSettled ok c))"
    using connected ereachable.run [OF connected(2) estep.uninstalling] by (auto simp: connectSettled_def split: option.splits)
  then show ?case using conn_inv_settled [OF connected(1)] by simp
next
  case (controlled k c event inside refuse)
  let ?d = "snd (onBridge (task (connectionCommand event) None refuse) c)"
  have "conn_inv ?d" "ereachable (cl_executor ?d)" using controlled by (auto intro: conn_inv_bridge ereachable.run [OF _ estep_bridge])
  then show ?case using controlled taskOf_form [of inside "connectionCommand event" None refuse c]
    by (auto simp: control_def split: prod.splits sum.splits)
next
  case (disconnected c k inside refuse)
  let ?d = "snd (onBridge (task (connectionCommand ''stop'') None refuse) (halt k c))"
  have h: "conn_inv (halt k c)" using disconnected by (intro conn_inv_halt)
  have he: "ereachable (cl_executor (halt k c))" using ereachable.run [OF disconnected(4) estep.uninstalling] by (simp add: halt_def)
  have "conn_inv ?d" "ereachable (cl_executor ?d)" using h he by (auto intro: conn_inv_bridge ereachable.run [OF _ estep_bridge])
  then show ?case using disconnected by (auto simp: closeConnection_def split: prod.splits sum.splits)
next
  case (reported c k hasOnError d)
  have "ereachable (cl_executor (halt k c))" using ereachable.run [OF reported(2) estep.uninstalling] by (simp add: halt_def)
  moreover have "conn_inv (halt k c)" if "cl_connection c = Some k"
    using that conn_inv_halt [OF reported(1)] conn_invD(4,5) [OF reported(1)] by force
  ultimately have "conn_inv (halt k c) \<and> ereachable (cl_executor (halt k c))" if "cl_connection c = Some k" using that by blast
  then show ?case using reported by (auto simp: reportHeard_def split: diagnostic.splits)
next
  case (calls c r)
  have "conn_inv (c\<lparr>cl_actions := r\<rparr>)" by (rule conn_inv_else [OF calls(2)]) (use conn_invD(7) [OF calls(2)] in simp_all)
  then show ?case using calls by simp
next
  case (handles c s)
  have "conn_inv (c\<lparr>cl_subs := s\<rparr>)" by (rule conn_inv_else [OF handles(2)]) (use conn_invD(7) [OF handles(2)] in simp_all)
  then show ?case using handles by simp
next
  case (closing c refused)
  have "ereachable (cl_executor (closeClient refused c))"
    using closing ereachable.run [OF closing(2) estep.elsewhere] by (auto simp: closeClient_def Let_def onBridge_form)
  then show ?case using conn_inv_closing [OF closing(1)] by simp
next
  case (started c refused)
  have h: "ereachable (cl_executor (case cl_connection c of None \<Rightarrow> c | Some k \<Rightarrow> halt k c))"
    using started(2) ereachable.run [OF started(2) estep.uninstalling] by (auto simp: halt_def split: option.splits)
  then have "ereachable (cl_executor (closeStarted refused c))"
    using started(2) ereachable.run [OF h estep.elsewhere] by (auto simp: closeStarted_def Let_def onBridge_form split: closing.splits)
  then show ?case using conn_inv_closing [OF started(1)] by simp
next
  case (finished c)
  then show ?case using conn_inv_closing [OF finished(1)] by (auto simp: closeDone_def split: closing.splits)
qed

lemma creachable_inv: "creachable throws c \<Longrightarrow> conn_inv c \<and> ereachable (cl_executor c)"
proof (induction rule: creachable.induct)
  case (opened b exact required)
  have n: "map_of (b_effects (bridgeOf (new_client exact required b))) kind = None" if "kind \<in> network" for kind
    using that opened
    by (auto simp: new_client_def prerequisites_def new_executor_def owned_def install_def onEffect_def network_def js_def)
  have "ereachable (snd (prerequisites required (new_executor b)))"
    by (rule ereachable.run [OF ereachable.constructed [OF opened] estep.prerequisite])
  then show ?case using n by (simp add: conn_inv_def idle_def) (simp add: new_client_def)
qed (use cstep_conn in blast)

lemma onBridge_keeps [simp]:
  "cl_actions (snd (onBridge f c)) = cl_actions c" "cl_subs (snd (onBridge f c)) = cl_subs c"
  by (simp_all add: onBridge_form)

lemma halt_keeps [simp]: "cl_actions (halt k c) = cl_actions c" "cl_subs (halt k c) = cl_subs c"
  by (simp_all add: halt_def)

lemma taskOf_keeps [simp]:
  "cl_actions (snd (taskOf inside cmd hook refuse c)) = cl_actions c" "cl_subs (snd (taskOf inside cmd hook refuse c)) = cl_subs c"
  using taskOf_form [of inside cmd hook refuse c] by auto

lemma bridge_keeps:
  "onBridge f c = (r, c') \<Longrightarrow> cl_actions c' = cl_actions c" "onBridge f c = (r, c') \<Longrightarrow> cl_subs c' = cl_subs c"
  using onBridge_keeps [of f c] by simp_all

lemma task_keeps:
  "taskOf inside cmd hook refuse c = (r, c') \<Longrightarrow> cl_actions c' = cl_actions c"
  "taskOf inside cmd hook refuse c = (r, c') \<Longrightarrow> cl_subs c' = cl_subs c"
  using taskOf_keeps [of inside cmd hook refuse c] by simp_all

lemma cstep_parts:
  "cstep throws c c' \<Longrightarrow> Calls.step\<^sup>*\<^sup>* (cl_actions c) (cl_actions c') \<and> (sub_step throws)\<^sup>*\<^sup>* (cl_subs c) (cl_subs c')"
proof (induction rule: cstep.induct)
  case (transacting c inside refuse)
  show ?case by (auto simp: transactionStart_def bridge_keeps split: prod.splits sum.splits)
next
  case (connecting c inside server timeout refreshAuth threw refuse)
  show ?case by (simp add: connectStart_def Let_def split: option.splits prod.splits)
next
  case (connected c ok)
  show ?case by (simp add: connectSettled_def split: option.splits)
next
  case (controlled k c event inside refuse)
  show ?case by (auto simp: control_def task_keeps split: prod.splits sum.splits)
next
  case (disconnected c k inside refuse)
  show ?case by (auto simp: closeConnection_def bridge_keeps split: prod.splits sum.splits)
next
  case (reported c k hasOnError d)
  show ?case by (simp add: reportHeard_def split: diagnostic.splits)
next
  case (closing c refused)
  show ?case by (simp add: closeClient_def Let_def r_into_rtranclp [of Calls.step, OF Calls.step.closed]
        r_into_rtranclp [of "sub_step throws", OF sub_step.closing])
next
  case (started c refused)
  show ?case by (auto simp: closeStarted_def Let_def split: closing.splits option.splits)
next
  case (finished c)
  show ?case
    by (simp add: closeDone_def r_into_rtranclp [of Calls.step, OF Calls.step.ended] r_into_rtranclp [of "sub_step throws", OF sub_step.gone] split: closing.splits)
qed (auto simp: transactionSettled_def)

lemma sub_run: "(sub_step throws)\<^sup>*\<^sup>* s s' \<Longrightarrow> sub_reachable throws s \<Longrightarrow> sub_reachable throws s'"
  by (induction rule: rtranclp_induct) (auto intro: sub_reachable.run)

lemma creachable_parts: "creachable throws c \<Longrightarrow> reachable (cl_actions c) \<and> sub_reachable throws (cl_subs c)"
proof (induction rule: creachable.induct)
  case (opened b exact required)
  show ?case by (simp add: new_client_def reachable.start sub_reachable.start)
next
  case (run c c')
  then show ?case using cstep_parts [OF run.hyps(2)] reachable_run sub_run by blast
qed

section \<open>Properties\<close>


text \<open>
  C39: When the close of a client resolves, no connection is left, no network effect is installed
  and none of any connection is running; every call whose handle is still referenced is decided,
  and every Subscription handle is closed. A later connect is refused.
\<close>

theorem closed_client_is_over:
  assumes "creachable throws c" and "cl_closing c = AwaitBridge" and "b_closeDone (bridgeOf c)"
  shows "cl_connecting (closeDone throws c) = None \<and> cl_connection (closeDone throws c) = None
     \<and> (\<forall>kind \<in> network. map_of (b_effects (bridgeOf (closeDone throws c))) kind = None)
     \<and> (\<forall>k i en. k < length (cl_conns c) \<longrightarrow> map_of (e_running (cl_executor (closeDone throws c))) i = Some en \<longrightarrow>
          en_owner en \<noteq> in_owner (cl_conns c ! k))
     \<and> (\<forall>h < length (store (cl_actions c)). h \<notin> set (dead (cl_actions c)) \<longrightarrow>
          c_outcome (store (cl_actions (closeDone throws c)) ! h) \<noteq> None \<or> c_lifecycle (store (cl_actions (closeDone throws c)) ! h) = RolledBack)
     \<and> (\<forall>r < length (s_store (cl_subs c)). hasClosed (cl_subs (closeDone throws c)) r)
     \<and> fst (connectStart inside server timeout refreshAuth threw refuse (closeDone throws c)) = Inl ClosedClient"
proof -
  have inv: "conn_inv c" using creachable_inv [OF assms(1)] by blast
  have free: "cl_connecting c = None" "cl_connection c = None" using conn_invD(7) [OF inv] assms(2) by auto
  have parts: "reachable (cl_actions c)" "sub_reachable throws (cl_subs c)" using creachable_parts [OF assms(1)] by auto
  have d: "closeDone throws c = c\<lparr>cl_closing := ClosedNow, cl_subs := closedSubs throws (cl_subs c), cl_actions := ended (cl_actions c)\<rparr>"
    using assms(2,3) by (simp add: closeDone_def)
  have "silent (ownerAt c k) (cl_executor c)" if "k < length (cl_conns c)" for k
    using conn_invD(3) [OF inv] free that by (simp add: idle_def)
  moreover have "c_outcome (store (ended (cl_actions c)) ! h) \<noteq> None \<or> c_lifecycle (store (ended (cl_actions c)) ! h) = RolledBack"
    if "h < length (store (cl_actions c))" "h \<notin> set (dead (cl_actions c))" for h
    using ended_decides [OF reachable_wfr [OF parts(1)] that] .
  moreover have "hasClosed (closedSubs throws (cl_subs c)) r" if "r < length (s_store (cl_subs c))" for r
    using closed_all [OF wf_reachable [OF parts(2)] that] .
  ultimately show ?thesis using no_network [OF inv free] free by (simp add: d silent_def connectStart_def)
qed

section \<open>Witnesses\<close>

definition ex_server :: jsv where
  "ex_server = Obj [(js ''url'', Str (js ''http://h'')), (js ''token'', Str (js ''t''))]"

definition ex_client :: "(unit, jsv) client" where
  "ex_client = connectSettled True (snd (connectStart False ex_server Undefined False None None (new_client True [] new_bridge)))"

lemma ex_client_reachable: "creachable (\<lambda>_ _. False) ex_client"
  unfolding ex_client_def
  by (rule creachable.run [OF creachable.run [OF creachable.opened cstep.connecting] cstep.connected]) (simp add: new_bridge_def)

lemmas client_run = ex_client_def connectSettled_def connectStart_def guard_def new_client_def validServer_def ex_server_def directTimeout_def
  MAX_DELAY_def safe_int_def startConnection_def owned_def install_def prerequisites_def new_executor_def new_bridge_def on_def onEffect_def
  onBridge_def task_def submitRouted_def route_def hold_def registerCallback_def Let_def js_def


definition ex_closing :: "(unit, jsv) client" where
  "ex_closing = (let c = closeStarted False (closeClient False ex_client) in
     c\<lparr>cl_executor := (cl_executor c)\<lparr>e_bridge := terminate (bridgeOf c)\<rparr>\<rparr>)"

lemma terminate_effects [simp]: "b_effects (terminate b) = b_effects b"
  by (simp add: terminate_def Let_def)

lemma ex_closing_reachable: "creachable (\<lambda>_ _. False) ex_closing"
proof -
  let ?c = "closeStarted False (closeClient False ex_client)"
  have c: "creachable (\<lambda>_ _. False) ?c"
    by (intro creachable.run [OF _ cstep.started] creachable.run [OF _ cstep.closing] ex_client_reachable)
  have w: "work (cl_executor ?c) ((cl_executor ?c)\<lparr>e_bridge := terminate (bridgeOf ?c)\<rparr>)" by (rule work.elsewhere) simp
  show ?thesis unfolding ex_closing_def Let_def by (rule creachable.run [OF c cstep.working [OF w]])
qed

theorem closed_client_is_over_witness:
  "cl_connection (closeDone (\<lambda>_ _. False) ex_closing) = None
   \<and> fst (connectStart False ex_server Undefined False None None (closeDone (\<lambda>_ _. False) ex_closing)) = Inl ClosedClient"
proof -
  have "cl_closing ex_closing = AwaitBridge" "b_closeDone (bridgeOf ex_closing)"
    by (simp_all add: ex_closing_def closeStarted_def closeClient_def halt_def uninstall_def abort_def off_def offEffect_def client_run Bridge.close_def
        terminate_def)
  from closed_client_is_over [OF ex_closing_reachable this] show ?thesis by blast
qed

end
