(* ===== verification/Invocation.thy ===== *)
theory Invocation
  imports Calls
begin

text \<open>
  The direct calls of \<^verbatim>\<open>packages/frontend/client-js/api/runtime.mts\<close>: a Query and a Model Fetch, whose
  task answers an outcome or fails, and how each failure is named to the caller.

  What is read of a task's error: what \<open>actionError\<close> reads, its message, the \<open>code\<close>,
  \<open>message\<close> and \<open>status\<close> of its details, and whether it has a cause. A \<open>CallError\<close> is
  modelled with the cause it carries. The messages and codes are the runtime's, none of which
  names a property of every object.
\<close>

section \<open>Errors\<close>

record task_error =
  te_thrown :: thrown
  te_message :: "string option"
  te_code :: "string option"
  te_detail :: "string option"
  te_status :: "int option"
  te_cause :: bool

text \<open>The cause a call's error keeps: none, the task's error, its own cause, or what the call failed on.\<close>

datatype cause = NoCause | TheError | ItsCause | Direct string "int option"

datatype failing = Failing call_error cause | Engine task_error

definition directCause :: "task_error \<Rightarrow> cause" where
  "directCause e = (case te_detail e of None \<Rightarrow> TheError | Some m \<Rightarrow> Direct m (te_status e))"

definition INVOKE_CODES :: "(string, execution) jsmap" where
  "INVOKE_CODES = [(''action.unavailable'', Unknown), (''action.execution_unknown'', Unknown),
     (''action.observation_failed'', Unknown), (''action.invalid_options'', Rejected)]"

definition invokeError :: "task_error \<Rightarrow> failing" where
  "invokeError e =
     (case te_message e of
        None \<Rightarrow> Engine e
      | Some m \<Rightarrow>
          if m = ''client_closed'' then Failing (callError ''action.unavailable'' Unknown) TheError
          else (case map_of INVOKE_CODES m of
                  Some ex \<Rightarrow> Failing (callError m ex) (directCause e)
                | None \<Rightarrow> Engine e))"

text \<open>\<open>actionError\<close> of what \<open>invokeError\<close> answered.\<close>

definition named :: "failing \<Rightarrow> call_error \<times> cause" where
  "named f = (case f of Failing c k \<Rightarrow> (c, k) | Engine e \<Rightarrow> (actionError (te_thrown e), TheError))"

definition FETCH_REJECTED :: "string list" where
  "FETCH_REJECTED = [''fetch.invalid_options'']"

definition fetchError :: "task_error \<Rightarrow> failing" where
  "fetchError e =
     (case th_callError (te_thrown e) of
        Some c \<Rightarrow> Failing c NoCause
      | None \<Rightarrow>
          (case te_code e of
             Some c \<Rightarrow>
               if take 6 c = ''fetch.''
               then Failing (callError c (if c \<in> set FETCH_REJECTED then Rejected else Unknown)) (if te_cause e then ItsCause else directCause e)
               else if te_message e = Some ''transaction_active'' then Failing (actionError (te_thrown e)) TheError
               else Engine e
           | None \<Rightarrow>
               if te_message e = Some ''transaction_active'' then Failing (actionError (te_thrown e)) TheError else Engine e))"

section \<open>Outcomes\<close>

record direct_outcome =
  do_status :: string
  do_result :: jsv
  do_code :: "string option"
  do_execution :: "string option"

definition decodeOutcome :: "(jsv \<Rightarrow> 'a option) \<Rightarrow> direct_outcome option \<Rightarrow> (call_error, 'a) res" where
  "decodeOutcome decode outcome =
     (case outcome of
        None \<Rightarrow> Inl (callError ''action.observation_failed'' Unknown)
      | Some d \<Rightarrow>
          if do_status d = ''failed''
          then Inl (callError (case do_code d of None \<Rightarrow> ''action.failed'' | Some c \<Rightarrow> c)
                     (if do_execution d = Some ''rejected'' then Rejected else Unknown))
          else (case decode (do_result d) of
                  None \<Rightarrow> Inl (callError ''action.observation_failed'' Unknown)
                | Some v \<Rightarrow> Inr v))"

section \<open>Calls\<close>

text \<open>The error the guard throws, as \<open>actionError\<close> and \<open>fetchError\<close> read it.\<close>

definition transactionActive :: task_error where
  "transactionActive = \<lparr>te_thrown = \<lparr>th_callError = None, th_code = None, th_active = True, th_rejected = False\<rparr>,
     te_message = Some ''transaction_active'', te_code = None, te_detail = None, te_status = None, te_cause = False\<rparr>"

definition invokeCommand :: "jsstr \<Rightarrow> nat \<Rightarrow> jsv \<Rightarrow> jsv \<Rightarrow> jsv" where
  "invokeCommand name version args st =
     Obj ([(js ''kind'', Str (js ''invoke'')), (js ''name'', Str name), (js ''version'', Num (JsInt (int version))), (js ''args'', args)]
          @ (if st = Undefined then [] else [(js ''store'', st)]))"

text \<open>
  \<open>invokeQuery\<close>: \<open>inside\<close> is what the guard finds and \<open>task\<close> what the task of a command
  answers; the command sent, if one was, and the answer.
\<close>

definition invokeQuery ::
  "bool \<Rightarrow> (jsv \<Rightarrow> (task_error, direct_outcome option) res) \<Rightarrow> jsstr \<Rightarrow> nat \<Rightarrow> jsv \<Rightarrow> (jsv \<Rightarrow> 'a option) \<Rightarrow> jsv \<Rightarrow>
   jsv option \<times> (call_error, 'a) res" where
  "invokeQuery inside task name version args decode options =
     (case assertQueryOptions options of
        Inl e \<Rightarrow> (None, Inl e)
      | Inr _ \<Rightarrow>
          if inside then (None, Inl (fst (named (Engine transactionActive))))
          else
            let command = invokeCommand name version args (field options (js ''store'')) in
            (Some command,
             case task command of
               Inl e \<Rightarrow> Inl (fst (named (invokeError e)))
             | Inr outcome \<Rightarrow> decodeOutcome decode outcome))"

definition invalidFetch :: call_error where
  "invalidFetch = callError ''fetch.invalid_options'' Rejected"

text \<open>An object with no key but \<open>store\<close>; the keys of an array are its indices.\<close>

definition fetchOptions :: "jsv \<Rightarrow> bool" where
  "fetchOptions options =
     (case options of
        Arr vs \<Rightarrow> vs = []
      | _ \<Rightarrow> plainObject options \<and> list_all (\<lambda>k. k = js ''store'') (keys options))"

definition fetchStore :: "jsv \<Rightarrow> (call_error, (jsstr \<times> jsv) list) res" where
  "fetchStore options =
     (if options = Undefined then Inr []
      else if \<not> fetchOptions options then Inl invalidFetch
      else Inr (if field options (js ''store'') = Undefined then [] else [(js ''store'', field options (js ''store''))]))"

definition fetchCommand :: "jsstr \<Rightarrow> nat \<Rightarrow> jsv \<Rightarrow> (jsstr \<times> jsv) list \<Rightarrow> jsv" where
  "fetchCommand model version identity st =
     Obj ([(js ''kind'', Str (js ''fetch'')), (js ''model'', Str model), (js ''version'', Num (JsInt (int version))), (js ''identity'', identity)]
          @ st)"

datatype 'a fetched = Fetched "'a option" | FetchFailed call_error | FetchThrew task_error

definition fetchModel ::
  "bool \<Rightarrow> (jsv \<Rightarrow> (task_error, direct_outcome option) res) \<Rightarrow> jsstr \<Rightarrow> nat \<Rightarrow> jsv \<Rightarrow> (jsv \<Rightarrow> 'a option) \<Rightarrow> jsv \<Rightarrow>
   jsv option \<times> 'a fetched" where
  "fetchModel inside task model version identity decode options =
     (let failed = (\<lambda>e. case fetchError e of Failing c _ \<Rightarrow> FetchFailed c | Engine e' \<Rightarrow> FetchThrew e') in
      if inside then (None, failed transactionActive)
      else case fetchStore options of
             Inl e \<Rightarrow> (None, FetchFailed e)
           | Inr st \<Rightarrow>
               let command = fetchCommand model version identity st in
               (Some command,
                case task command of
                  Inl e \<Rightarrow> failed e
                | Inr outcome \<Rightarrow>
                    (case decodeOutcome (\<lambda>v. if v = Null then Some None else map_option Some (decode v)) outcome of
                       Inl e \<Rightarrow> FetchFailed e
                     | Inr r \<Rightarrow> Fetched r)))"

section \<open>Properties\<close>

text \<open>A task's error that says the call was refused before it ran.\<close>

definition refusedBefore :: "task_error \<Rightarrow> bool" where
  "refusedBefore e =
     (te_message e = Some ''action.invalid_options''
      \<or> (case th_callError (te_thrown e) of
           Some c \<Rightarrow> ce_execution c = Rejected
         | None \<Rightarrow> th_rejected (te_thrown e) \<or> th_code (te_thrown e) = Some ''transaction_active'' \<or> th_active (te_thrown e)))"

definition refusedOutcome :: "direct_outcome option \<Rightarrow> bool" where
  "refusedOutcome d = (\<exists>x. d = Some x \<and> do_status x = ''failed'' \<and> do_execution x = Some ''rejected'')"

lemma actionError_rejected: "ce_execution (actionError t) = Rejected \<Longrightarrow>
    (case th_callError t of
       Some c \<Rightarrow> ce_execution c = Rejected
     | None \<Rightarrow> th_rejected t \<or> th_code t = Some ''transaction_active'' \<or> th_active t)"
  by (auto simp: actionError_def Let_def split: option.splits if_splits)

lemma named_rejected: "ce_execution (fst (named (invokeError e))) = Rejected \<Longrightarrow> refusedBefore e"
  using actionError_rejected [of "te_thrown e"]
  by (auto simp: named_def invokeError_def refusedBefore_def INVOKE_CODES_def split: option.splits if_splits)

lemma decodeOutcome_rejected: "decodeOutcome decode d = Inl c \<Longrightarrow> ce_execution c = Rejected \<Longrightarrow> refusedOutcome d"
  by (auto simp: decodeOutcome_def refusedOutcome_def split: option.splits if_splits)

lemma unsent_rejected:
  "assertQueryOptions options = Inl e \<Longrightarrow> ce_execution e = Rejected"
  by (auto simp: assertQueryOptions_def invalidOptions_def split: if_splits jsv.splits)

text \<open>
  C40: A Query that failed is reported as rejected only when it is certain that it did not run:
  when it was never sent, which is always reported so, or when the runtime's error or outcome
  says so. A value that could not be decoded, a missing outcome and a closed client leave its
  execution unknown.
\<close>

theorem query_rejection_is_certain:
  assumes "invokeQuery inside task name version args decode options = (sent, Inl e)"
  shows "(sent = None \<longrightarrow> ce_execution e = Rejected)
     \<and> (\<forall>command. sent = Some command \<and> ce_execution e = Rejected \<longrightarrow>
          (\<exists>x. task command = Inl x \<and> refusedBefore x) \<or> (\<exists>d. task command = Inr d \<and> refusedOutcome d))"
proof (cases sent)
  case None
  then have "ce_execution e = Rejected" using assms
    by (auto simp: invokeQuery_def named_def actionError_def transactionActive_def Let_def unsent_rejected split: sum.splits if_splits)
  then show ?thesis using None by simp
next
  case (Some command)
  then have "task command = Inl x \<Longrightarrow> e = fst (named (invokeError x))" "task command = Inr d \<Longrightarrow> decodeOutcome decode d = Inl e" for x d
    using assms by (auto simp: invokeQuery_def Let_def split: sum.splits if_splits)
  then show ?thesis using Some named_rejected decodeOutcome_rejected by (cases "task command") auto
qed

theorem query_rejection_is_certain_witness:
  "refusedOutcome (Some \<lparr>do_status = ''failed'', do_result = Null, do_code = Some ''denied'', do_execution = Some ''rejected''\<rparr>)
   \<and> (\<exists>command. fst (invokeQuery False (\<lambda>_. Inr (Some \<lparr>do_status = ''failed'', do_result = Null, do_code = Some ''denied'', do_execution = Some ''rejected''\<rparr>))
        (js ''q'') 1 Null (\<lambda>v. Some v) Undefined) = Some command)"
proof -
  let ?d = "Some \<lparr>do_status = ''failed'', do_result = Null, do_code = Some ''denied'', do_execution = Some ''rejected''\<rparr>"
  have "invokeQuery False (\<lambda>_. Inr ?d) (js ''q'') 1 Null (\<lambda>v. Some v) Undefined =
      (Some (invokeCommand (js ''q'') 1 Null Undefined), Inl (callError ''denied'' Rejected))"
    by (simp add: invokeQuery_def assertQueryOptions_def decodeOutcome_def)
  from query_rejection_is_certain [OF this] this show ?thesis by simp
qed

end
