(* ===== verification/Watch.thy ===== *)
theory Watch
  imports JsValue
begin

text \<open>
  \<^verbatim>\<open>packages/frontend/client-js/api/model-watch.mts\<close>: the cache of a Model watch. The runtime
  publishes full rows or the splices from one version to the next; \<open>receive\<close> replays
  them. \<open>decode\<close> and \<open>copy\<close> are the functions the watch is constructed with and may throw.

  The result is that the cache never diverges: whatever deliveries are lost, repeated or
  reordered, at a version the rows are those the runtime had at that version.
\<close>

section \<open>The receiver\<close>

datatype 'e werr = InvalidSnapshot | InvalidRows | Thrown 'e

record 'a watch =
  w_rows :: "'a list"
  w_version :: "int option"
  w_recovering :: bool

definition new_watch :: "'a watch" where
  "new_watch = \<lparr>w_rows = [], w_version = None, w_recovering = False\<rparr>"

text \<open>\<open>key in snapshot\<close>\<close>

definition has :: "jsv \<Rightarrow> jsstr \<Rightarrow> bool" where
  "has v k = (k \<in> set (keys v))"

text \<open>\<open>integer(value, minimum)\<close>, with the value read as a number when it holds.\<close>

definition integer :: "jsv \<Rightarrow> int \<Rightarrow> int option" where
  "integer v minimum = (case v of Num (JsInt n) \<Rightarrow> if safe_int n \<and> minimum \<le> n then Some n else None | _ \<Rightarrow> None)"

definition recover :: "'a watch \<Rightarrow> bool \<times> 'a watch" where
  "recover w = (if w_recovering w then (False, w) else (True, w\<lparr>w_recovering := True\<rparr>))"

definition decodeRows :: "(jsv \<Rightarrow> ('e, 'a) res) \<Rightarrow> jsv \<Rightarrow> ('e werr, 'a list) res" where
  "decodeRows decode rows =
     (case rows of
        Arr vs \<Rightarrow>
          if list_all plainObject vs
          then (case traverse decode vs of Inl e \<Rightarrow> Inl (Thrown e) | Inr xs \<Rightarrow> Inr xs)
          else Inl InvalidRows
      | _ \<Rightarrow> Inl InvalidRows)"

text \<open>\<open>Array.prototype.splice\<close>\<close>

definition jsSplice :: "nat \<Rightarrow> nat \<Rightarrow> 'a list \<Rightarrow> 'a list \<Rightarrow> 'a list" where
  "jsSplice start del ins xs =
     (let s = min start (length xs); d = min del (length xs - s) in take s xs @ ins @ drop (s + d) xs)"

definition applySplice :: "(jsv \<Rightarrow> ('e, 'a) res) \<Rightarrow> 'a list \<Rightarrow> jsv \<Rightarrow> ('e werr, 'a list) res" where
  "applySplice decode xs sp =
     (case (integer (field sp (js ''index'')) 0, integer (field sp (js ''deleteCount'')) 0) of
        (Some i, Some d) \<Rightarrow>
          if \<not> plainObject sp \<or> int (length xs) < i \<or> int (length xs) - i < d then Inl InvalidSnapshot
          else bind_res (decodeRows decode (field sp (js ''rows''))) (\<lambda>inserted.
            Inr (if length inserted \<le> 1 then jsSplice (nat i) (nat d) inserted xs
                 else take (nat i) xs @ inserted @ drop (nat i + nat d) xs))
      | _ \<Rightarrow> Inl InvalidSnapshot)"

text \<open>The version and rows a snapshot asks for.\<close>

definition nextRows :: "(jsv \<Rightarrow> ('e, 'a) res) \<Rightarrow> jsv \<Rightarrow> 'a watch \<Rightarrow> ('e werr, int option \<times> 'a list) res" where
  "nextRows decode snapshot w =
     (if field snapshot (js ''kind'') \<noteq> Str (js ''watch'') then Inl InvalidSnapshot
      else if field snapshot (js ''protocol'') = Undefined then
        if has snapshot (js ''splices'') \<or> has snapshot (js ''version'') \<or> has snapshot (js ''baseVersion'') then Inl InvalidSnapshot
        else bind_res (decodeRows decode (field snapshot (js ''rows''))) (\<lambda>xs. Inr (None, xs))
      else
        case integer (field snapshot (js ''version'')) 1 of
          None \<Rightarrow> Inl InvalidSnapshot
        | Some version \<Rightarrow>
            if field snapshot (js ''protocol'') \<noteq> Str (js ''splice-v1'') then Inl InvalidSnapshot
            else if has snapshot (js ''rows'') then
              if has snapshot (js ''splices'') \<or> has snapshot (js ''baseVersion'')
                 \<or> (case w_version w of None \<Rightarrow> False | Some v \<Rightarrow> version \<le> v)
              then Inl InvalidSnapshot
              else bind_res (decodeRows decode (field snapshot (js ''rows''))) (\<lambda>xs. Inr (Some version, xs))
            else
              (case (w_version w, integer (field snapshot (js ''baseVersion'')) 1, field snapshot (js ''splices'')) of
                 (Some v, Some base, Arr splices) \<Rightarrow>
                   if base \<noteq> v \<or> version \<noteq> base + 1 then Inl InvalidSnapshot
                   else bind_res (foldM (applySplice decode) (w_rows w) splices) (\<lambda>xs. Inr (Some version, xs))
               | _ \<Rightarrow> Inl InvalidSnapshot))"

definition receive ::
  "(jsv \<Rightarrow> ('e, 'a) res) \<Rightarrow> ('a \<Rightarrow> ('e, 'a) res) \<Rightarrow> jsv \<Rightarrow> 'a watch \<Rightarrow> ('e werr, 'a list option) res \<times> 'a watch" where
  "receive decode copy snapshot w =
     (if field snapshot (js ''closed'') = Bool True then (Inr None, w)
      else if w_recovering w \<and> \<not> has snapshot (js ''rows'') then (Inr None, w)
      else case nextRows decode snapshot w of
             Inl e \<Rightarrow> (Inl e, w)
           | Inr (version, next) \<Rightarrow>
               (case traverse copy next of
                  Inl e \<Rightarrow> (Inl (Thrown e), w)
                | Inr delivered \<Rightarrow> (Inr (Some delivered), \<lparr>w_rows = next, w_version = version, w_recovering = False\<rparr>)))"

section \<open>The runtime's deliveries\<close>

record edit =
  ed_index :: nat
  ed_delete :: nat
  ed_rows :: "jsv list"

definition applyEdit :: "jsv list \<Rightarrow> edit \<Rightarrow> jsv list" where
  "applyEdit xs e = take (ed_index e) xs @ ed_rows e @ drop (ed_index e + ed_delete e) xs"

datatype delivery = FullRows nat | Splices nat | LegacyRows nat

definition num :: "nat \<Rightarrow> jsv" where
  "num n = Num (JsInt (int n))"

definition editValue :: "edit \<Rightarrow> jsv" where
  "editValue e = Obj [(js ''index'', num (ed_index e)), (js ''deleteCount'', num (ed_delete e)), (js ''rows'', Arr (ed_rows e))]"

text \<open>\<open>history v\<close> is what the runtime holds at version \<open>v\<close>, \<open>edits v\<close> how it went from there to the next.\<close>

fun message :: "(nat \<Rightarrow> jsv list) \<Rightarrow> (nat \<Rightarrow> edit list) \<Rightarrow> delivery \<Rightarrow> jsv" where
  "message history edits (FullRows v) =
     Obj [(js ''kind'', Str (js ''watch'')), (js ''protocol'', Str (js ''splice-v1'')), (js ''version'', num v), (js ''rows'', Arr (history v))]"
| "message history edits (Splices v) =
     Obj [(js ''kind'', Str (js ''watch'')), (js ''protocol'', Str (js ''splice-v1'')), (js ''version'', num (Suc v)),
          (js ''baseVersion'', num v), (js ''splices'', Arr (map editValue (edits v)))]"
| "message history edits (LegacyRows v) = Obj [(js ''kind'', Str (js ''watch'')), (js ''rows'', Arr (history v))]"

definition evolves :: "(nat \<Rightarrow> jsv list) \<Rightarrow> (nat \<Rightarrow> edit list) \<Rightarrow> bool" where
  "evolves history edits = (\<forall>v. history (Suc v) = foldl applyEdit (history v) (edits v))"

text \<open>A client that receives deliveries and starts a recovery when one fails, as the watch does.\<close>

definition deliver ::
  "(jsv \<Rightarrow> ('e, 'a) res) \<Rightarrow> ('a \<Rightarrow> ('e, 'a) res) \<Rightarrow> jsv \<Rightarrow> 'a watch \<Rightarrow> 'a watch" where
  "deliver decode copy snapshot w =
     (case receive decode copy snapshot w of (Inl _, w') \<Rightarrow> snd (recover w') | (Inr _, w') \<Rightarrow> w')"

section \<open>The cache never diverges\<close>

lemma receive_atomic: "fst (receive decode copy snapshot w) = Inl e \<Longrightarrow> snd (receive decode copy snapshot w) = w"
  by (auto simp: receive_def split: if_splits sum.splits prod.splits)

lemma jsSplice_in_range:
  "i \<le> length xs \<Longrightarrow> d \<le> length xs - i \<Longrightarrow> jsSplice i d ins xs = take i xs @ ins @ drop (i + d) xs"
  by (simp add: jsSplice_def Let_def)

text \<open>A decoder that accepts every row.\<close>

definition decodes :: "(jsv \<Rightarrow> ('e, 'a) res) \<Rightarrow> (jsv \<Rightarrow> 'a) \<Rightarrow> bool" where
  "decodes decode dec = (\<forall>v. decode v = Inr (dec v))"

lemma decodeRows_map:
  "decodes decode dec \<Longrightarrow> decodeRows decode (Arr vs) = (if list_all plainObject vs then Inr (map dec vs) else Inl InvalidRows)"
  by (simp add: decodes_def decodeRows_def traverse_all_Inr [where g = dec])

lemma integer_num [simp]: "integer (num n) m = (if safe_int (int n) \<and> m \<le> int n then Some (int n) else None)"
  by (simp add: integer_def num_def)

lemma field_editValue [simp]:
  "field (editValue e) (js ''index'') = num (ed_index e)" "field (editValue e) (js ''deleteCount'') = num (ed_delete e)"
  "field (editValue e) (js ''rows'') = Arr (ed_rows e)" "plainObject (editValue e)"
  by (simp_all add: editValue_def)

lemma applySplice_edit:
  assumes dc: "decodes decode dec" and "applySplice decode (map dec xs) (editValue e) = Inr ys"
  shows "ys = map dec (applyEdit xs e)"
proof -
  have i: "ed_index e \<le> length xs" "ed_delete e \<le> length xs - ed_index e" and ys: "ys =
    (if length (ed_rows e) \<le> 1 then jsSplice (ed_index e) (ed_delete e) (map dec (ed_rows e)) (map dec xs)
     else take (ed_index e) (map dec xs) @ map dec (ed_rows e) @ drop (ed_index e + ed_delete e) (map dec xs))"
    using assms(2) by (auto simp: applySplice_def decodeRows_map [OF dc] split: if_splits)
  then show ?thesis by (auto simp: jsSplice_in_range applyEdit_def take_map drop_map split: if_splits)
qed

lemma applySplices_edits:
  "decodes decode dec \<Longrightarrow> foldM (applySplice decode) (map dec xs) (map editValue es) = Inr ys \<Longrightarrow> ys = map dec (foldl applyEdit xs es)"
proof (induction es arbitrary: xs)
  case (Cons e es)
  then obtain zs where z: "applySplice decode (map dec xs) (editValue e) = Inr zs"
    "foldM (applySplice decode) zs (map editValue es) = Inr ys" by (auto simp: res_simps)
  from applySplice_edit [OF Cons.prems(1) z(1)] Cons.IH Cons.prems(1) z(2) show ?case by simp
qed simp

definition faithful :: "(jsv \<Rightarrow> 'a) \<Rightarrow> (nat \<Rightarrow> jsv list) \<Rightarrow> 'a watch \<Rightarrow> bool" where
  "faithful dec history w = (\<forall>v. w_version w = Some (int v) \<longrightarrow> w_rows w = map dec (history v))"

lemma nextRows_faithful:
  assumes dc: "decodes decode dec" and "evolves history edits" "faithful dec history w"
    and "nextRows decode (message history edits d) w = Inr (version, xs)"
  shows "\<forall>v. version = Some (int v) \<longrightarrow> xs = map dec (history v)"
proof (cases d)
  case (FullRows v)
  with assms(4) show ?thesis
    by (auto simp: nextRows_def has_def decodeRows_map [OF dc] res_simps split: if_splits option.splits)
next
  case (LegacyRows v)
  with assms(4) show ?thesis
    by (auto simp: nextRows_def has_def decodeRows_map [OF dc] res_simps split: if_splits)
next
  case (Splices v)
  with assms(4) have "w_version w = Some (int v)" "version = Some (int (Suc v))"
    "foldM (applySplice decode) (w_rows w) (map editValue (edits v)) = Inr xs"
    by (auto simp: nextRows_def has_def res_simps split: if_splits option.splits)
  moreover have "int (Suc v) = int u \<longleftrightarrow> u = Suc v" for u by auto
  ultimately show ?thesis
    using assms(2,3) applySplices_edits [OF dc, of "history v" "edits v" xs] by (auto simp: faithful_def evolves_def simp del: of_nat_Suc)
qed

lemma deliver_faithful:
  assumes "decodes decode dec" "evolves history edits" "faithful dec history w"
  shows "faithful dec history (deliver decode copy (message history edits d) w)"
proof -
  have "faithful dec history (snd (receive decode copy (message history edits d) w))"
    using assms nextRows_faithful [OF assms, of d]
    by (auto simp: receive_def faithful_def split: if_splits sum.splits prod.splits)
  moreover have "faithful dec history (snd (recover x)) = faithful dec history x" for x
    by (simp add: recover_def faithful_def)
  ultimately show ?thesis by (cases "receive decode copy (message history edits d) w"; cases "fst (receive decode copy (message history edits d) w)")
      (simp_all add: deliver_def)
qed

text \<open>
  A watch never diverges from the runtime: after any sequence of its deliveries, some of
  them lost, repeated or out of order, the rows the watch holds at version \<open>v\<close> are the
  rows the runtime had at \<open>v\<close>.
\<close>

lemma watch_never_diverges:
  assumes "decodes decode dec" and "evolves history edits"
    and "w = foldl (\<lambda>w d. deliver decode copy (message history edits d) w) new_watch ds"
  shows "\<forall>v. w_version w = Some (int v) \<longrightarrow> w_rows w = map dec (history v)"
proof -
  have "faithful dec history (foldl (\<lambda>w d. deliver decode copy (message history edits d) w) w0 ds)"
    if "faithful dec history w0" for w0
    using that by (induction ds arbitrary: w0) (auto intro: deliver_faithful [OF assms(1,2)])
  then show ?thesis using assms(3) by (simp add: faithful_def new_watch_def)
qed

end
