(* ===== verification/Observe.thy ===== *)
theory Observe
  imports Watch
begin

text \<open>
  The observers of \<^verbatim>\<open>packages/frontend/client-js/api/runtime.mts\<close> (\<open>#observe\<close>), which \<open>watch\<close>, \<open>watchSql\<close> and the
  views of unsent work share: a registration, the delivery of what the runtime publishes for
  it, and its end.

  \<open>pick\<close> and \<open>recover\<close> (\<open>again\<close>) are the functions an observer is made with; they have a state of their
  own. Both may throw or call the returned stop function from the application's callbacks:
  \<open>threw\<close> is what a listener threw, and \<open>stops\<close> says that a callback stopped the observer. \<open>ob_asked\<close>
  are the tasks it submitted, and \<open>ob_over\<close> says that the runtime's last snapshot ended it.
\<close>

section \<open>An observer\<close>

datatype observer_task = Register | Unwatch jsstr | Resnapshot jsstr

record ('s, 'v, 'e) observer =
  ob_stopped :: bool
  ob_over :: bool
  ob_id :: "jsstr option"
  ob_attached :: bool
  ob_receiver :: 's
  ob_delivered :: "'v list"
  ob_errors :: "'e list"
  ob_asked :: "observer_task list"

definition new_observer :: "'s \<Rightarrow> ('s, 'v, 'e) observer" where
  "new_observer s = \<lparr>ob_stopped = False, ob_over = False, ob_id = None, ob_attached = False, ob_receiver = s, ob_delivered = [],
     ob_errors = [], ob_asked = [Register]\<rparr>"

definition unwatch :: "('s, 'v, 'e) observer \<Rightarrow> ('s, 'v, 'e) observer" where
  "unwatch o' = (case ob_id o' of None \<Rightarrow> o' | Some i \<Rightarrow> o'\<lparr>ob_asked := ob_asked o' @ [Unwatch i]\<rparr>)"

text \<open>The function the caller gets.\<close>

definition stop :: "('s, 'v, 'e) observer \<Rightarrow> ('s, 'v, 'e) observer" where
  "stop o' = (if ob_stopped o' then o' else unwatch (o'\<lparr>ob_stopped := True\<rparr>))"

definition fail :: "bool \<Rightarrow> 'e \<Rightarrow> ('s, 'v, 'e) observer \<Rightarrow> ('s, 'v, 'e) observer" where
  "fail stops e o' = (let o1 = o'\<lparr>ob_errors := ob_errors o' @ [e]\<rparr> in if stops then stop o1 else o1)"

text \<open>The \<open>settled\<close> hook of the registration; a registration settles once.\<close>

definition registered :: "jsstr \<Rightarrow> ('s, 'v, 'e) observer \<Rightarrow> ('s, 'v, 'e) observer" where
  "registered i o' =
     (let o1 = o'\<lparr>ob_id := Some i, ob_attached := True\<rparr> in if ob_stopped o' then unwatch o1 else o1)"

definition taskFailed :: "bool \<Rightarrow> 'e \<Rightarrow> ('s, 'v, 'e) observer \<Rightarrow> ('s, 'v, 'e) observer" where
  "taskFailed stops e o' = (if ob_stopped o' then o' else fail stops e o')"

definition snapshotHeard ::
  "(jsv \<Rightarrow> 's \<Rightarrow> ('e, 'v option) res \<times> 's) \<Rightarrow> ('s \<Rightarrow> bool \<times> 's) \<Rightarrow> bool \<Rightarrow> 'e option \<Rightarrow> jsv \<Rightarrow>
   ('s, 'v, 'e) observer \<Rightarrow> ('s, 'v, 'e) observer" where
  "snapshotHeard pick again stops threw snap o' =
     (if ob_stopped o' then o'
      else if truthy (field snap (js ''closed'')) then o'\<lparr>ob_stopped := True, ob_over := True, ob_attached := False\<rparr>
      else case pick snap (ob_receiver o') of
             (Inl e, s) \<Rightarrow>
               (case again s of
                  (asks, s') \<Rightarrow>
                    let o1 = fail stops e (o'\<lparr>ob_receiver := s'\<rparr>) in
                    (case ob_id o1 of
                       Some i \<Rightarrow> if asks \<and> \<not> ob_stopped o1 then o1\<lparr>ob_asked := ob_asked o1 @ [Resnapshot i]\<rparr> else o1
                     | None \<Rightarrow> o1))
           | (Inr None, s) \<Rightarrow> o'\<lparr>ob_receiver := s\<rparr>
           | (Inr (Some v), s) \<Rightarrow>
               let o1 = o'\<lparr>ob_receiver := s, ob_delivered := ob_delivered o' @ [v]\<rparr>;
                   o2 = (if stops then stop o1 else o1) in
               (case threw of None \<Rightarrow> o2 | Some e \<Rightarrow> fail False e o2))"

text \<open>The unwatch settled: nothing follows.\<close>

definition detached :: "('s, 'v, 'e) observer \<Rightarrow> ('s, 'v, 'e) observer" where
  "detached o' = o'\<lparr>ob_attached := False\<rparr>"

section \<open>Runs\<close>

inductive ostep ::
  "(jsv \<Rightarrow> 's \<Rightarrow> ('e, 'v option) res \<times> 's) \<Rightarrow> ('s \<Rightarrow> bool \<times> 's) \<Rightarrow> (jsv \<Rightarrow> bool) \<Rightarrow>
   ('s, 'v, 'e) observer \<Rightarrow> ('s, 'v, 'e) observer \<Rightarrow> bool" for pick again published where
  settles: "ob_id o' = None \<Longrightarrow> ostep pick again published o' (registered i o')"
| fails: "ostep pick again published o' (taskFailed stops e o')"
| hears: "ob_attached o' \<Longrightarrow> published snap \<Longrightarrow> ostep pick again published o' (snapshotHeard pick again stops threw snap o')"
| stops: "ostep pick again published o' (stop o')"
| detaches: "ostep pick again published o' (detached o')"

inductive oreachable ::
  "(jsv \<Rightarrow> 's \<Rightarrow> ('e, 'v option) res \<times> 's) \<Rightarrow> ('s \<Rightarrow> bool \<times> 's) \<Rightarrow> (jsv \<Rightarrow> bool) \<Rightarrow> 's \<Rightarrow> ('s, 'v, 'e) observer \<Rightarrow> bool"
  for pick again published s where
  made: "oreachable pick again published s (new_observer s)"
| run: "oreachable pick again published s o' \<Longrightarrow> ostep pick again published o' o'' \<Longrightarrow> oreachable pick again published s o''"

section \<open>The end of an observer\<close>

definition unwatched :: "('s, 'v, 'e) observer \<Rightarrow> nat" where
  "unwatched o' = length (filter (\<lambda>t. case t of Unwatch _ \<Rightarrow> True | _ \<Rightarrow> False) (ob_asked o'))"

text \<open>
  The runtime is told once, when the observer is registered and its caller stopped it, and
  not when the runtime ended it itself.
\<close>

definition told :: "('s, 'v, 'e) observer \<Rightarrow> bool" where
  "told o' = (unwatched o' = (if ob_stopped o' \<and> \<not> ob_over o' \<and> ob_id o' \<noteq> None then 1 else 0)
     \<and> (ob_over o' \<longrightarrow> ob_stopped o' \<and> ob_id o' \<noteq> None) \<and> (ob_attached o' \<longrightarrow> ob_id o' \<noteq> None)
     \<and> (\<forall>i. Unwatch i \<in> set (ob_asked o') \<longrightarrow> ob_id o' = Some i))"

lemma told_unwatch:
  assumes "told o'" and "\<not> ob_stopped o'"
  shows "told (unwatch (o'\<lparr>ob_stopped := True\<rparr>))"
  using assms by (auto simp: told_def unwatch_def unwatched_def split: option.splits)

lemma told_stop: "told o' \<Longrightarrow> told (stop o')"
  by (simp add: stop_def told_unwatch)

lemma told_errors [simp]: "told (o'\<lparr>ob_errors := es\<rparr>) = told o'" "told (o'\<lparr>ob_receiver := s\<rparr>) = told o'"
    "told (o'\<lparr>ob_receiver := s, ob_delivered := vs\<rparr>) = told o'"
  by (simp_all add: told_def unwatched_def)

lemma told_fail: "told o' \<Longrightarrow> told (fail stops e o')"
  by (simp add: fail_def Let_def told_stop)

lemma told_resnapshot: "told o' \<Longrightarrow> told (o'\<lparr>ob_asked := ob_asked o' @ [Resnapshot i]\<rparr>)"
  by (auto simp: told_def unwatched_def)

lemma told_heard:
  assumes t: "told o'" and a: "ob_attached o'"
  shows "told (snapshotHeard pick again stops threw snap o')"
proof -
  have "told (o'\<lparr>ob_stopped := True, ob_over := True, ob_attached := False\<rparr>)" if "\<not> ob_stopped o'"
    using t a that by (auto simp: told_def unwatched_def)
  then show ?thesis using t
    by (auto simp: snapshotHeard_def Let_def told_fail told_stop told_resnapshot split: prod.splits sum.splits option.splits)
qed

lemma told_registered: "told o' \<Longrightarrow> ob_id o' = None \<Longrightarrow> told (registered i o')"
  by (auto simp: told_def registered_def unwatch_def unwatched_def Let_def filter_empty_conv split: observer_task.splits)

lemma told_reachable: "oreachable pick again published s o' \<Longrightarrow> told o'"
proof (induction rule: oreachable.induct)
  case made
  show ?case by (simp add: told_def new_observer_def unwatched_def)
next
  case (run o' o'')
  from run.hyps(2) run.IH show ?case
  proof (induction rule: ostep.induct)
    case (fails o' stops e)
    then show ?case by (simp add: taskFailed_def told_fail)
  next
    case (detaches o')
    then show ?case by (simp add: detached_def told_def unwatched_def)
  qed (simp_all add: told_registered told_heard told_stop)
qed

lemma stopped_step:
  "ostep pick again published o' o'' \<Longrightarrow> ob_stopped o' \<Longrightarrow>
     ob_stopped o'' \<and> ob_delivered o'' = ob_delivered o' \<and> ob_errors o'' = ob_errors o'"
proof (induction rule: ostep.induct)
  case (settles o' i)
  then show ?case by (simp add: registered_def unwatch_def Let_def)
qed (simp_all add: taskFailed_def snapshotHeard_def stop_def detached_def)

lemma stopped_run:
  "(ostep pick again published)\<^sup>*\<^sup>* o' o'' \<Longrightarrow> ob_stopped o' \<Longrightarrow>
     ob_stopped o'' \<and> ob_delivered o'' = ob_delivered o' \<and> ob_errors o'' = ob_errors o'"
  by (induction rule: rtranclp_induct) (auto dest: stopped_step)

text \<open>
  An observer that was stopped - by its caller, from inside a callback, or by the runtime's
  last snapshot - delivers nothing and reports nothing any more, whatever still arrives. When
  its caller stopped it, before or after its registration settled, the runtime is told exactly
  once to end that registration; an observer nobody stopped is not ended.
\<close>

lemma stopped_observer_is_silent:
  assumes "oreachable pick again published s o'"
  shows "((ostep pick again published)\<^sup>*\<^sup>* o' o'' \<longrightarrow> ob_stopped o' \<longrightarrow>
       ob_delivered o'' = ob_delivered o' \<and> ob_errors o'' = ob_errors o')
     \<and> unwatched o' = (if ob_stopped o' \<and> \<not> ob_over o' \<and> ob_id o' \<noteq> None then 1 else 0)
     \<and> (\<forall>i. Unwatch i \<in> set (ob_asked o') \<longrightarrow> ob_id o' = Some i)"
  using stopped_run told_reachable [OF assms] unfolding told_def by blast

section \<open>Recovery\<close>

definition resnapshots :: "('s, 'v, 'e) observer \<Rightarrow> nat" where
  "resnapshots o' = length (filter (\<lambda>t. case t of Resnapshot _ \<Rightarrow> True | _ \<Rightarrow> False) (ob_asked o'))"

text \<open>
  What an observer relies on when it asks for a new snapshot: a failed snapshot leaves the
  receiver as it was, a recovery is asked for only when none is under way, and only a delivery
  ends it.
\<close>

locale receiver =
  fixes pick :: "jsv \<Rightarrow> 's \<Rightarrow> ('e, 'v option) res \<times> 's"
    and again :: "'s \<Rightarrow> bool \<times> 's"
    and recovering :: "'s \<Rightarrow> bool"
  assumes pick_failed: "pick snap s = (Inl e, s') \<Longrightarrow> recovering s' = recovering s"
    and pick_silent: "pick snap s = (Inr None, s') \<Longrightarrow> recovering s' = recovering s"
    and pick_delivers: "pick snap s = (Inr (Some v), s') \<Longrightarrow> \<not> recovering s'"
    and again_once: "again s = (b, s') \<Longrightarrow> b = (\<not> recovering s) \<and> recovering s'"
begin

definition bounded :: "('s, 'v, 'e) observer \<Rightarrow> bool" where
  "bounded o' = (resnapshots o' \<le> length (ob_delivered o') + (if recovering (ob_receiver o') then 1 else 0))"

lemma bounded_stop [simp]: "bounded (stop o') = bounded o'"
  by (auto simp: bounded_def stop_def unwatch_def resnapshots_def split: option.splits)

lemma bounded_fail [simp]: "bounded (fail stops e o') = bounded o'"
proof -
  have "bounded (o'\<lparr>ob_errors := es\<rparr>) = bounded o'" for es by (simp add: bounded_def resnapshots_def)
  then show ?thesis by (simp add: fail_def Let_def)
qed

lemma fail_fields [simp]:
  "ob_receiver (fail stops e o') = ob_receiver o'" "ob_delivered (fail stops e o') = ob_delivered o'"
  "resnapshots (fail stops e o') = resnapshots o'"
  by (auto simp: fail_def stop_def unwatch_def resnapshots_def Let_def split: option.splits)

lemma bounded_heard:
  assumes b: "bounded o'"
  shows "bounded (snapshotHeard pick again stops threw snap o')"
proof (cases "ob_stopped o' \<or> truthy (field snap (js ''closed''))")
  case True
  then show ?thesis using b by (auto simp: snapshotHeard_def bounded_def resnapshots_def)
next
  case False
  obtain r s where p: "pick snap (ob_receiver o') = (r, s)" by (cases "pick snap (ob_receiver o')")
  show ?thesis
  proof (cases r)
    case (Inl e)
    obtain asks s' where a: "again s = (asks, s')" by (cases "again s")
    let ?o = "fail stops e (o'\<lparr>ob_receiver := s'\<rparr>)"
    have rec: "asks = (\<not> recovering (ob_receiver o'))" "recovering s'" using again_once [OF a] pick_failed p Inl by auto
    have n: "resnapshots ?o = resnapshots o'" "ob_delivered ?o = ob_delivered o'" "ob_receiver ?o = s'"
      by (simp_all add: resnapshots_def [of "o'\<lparr>ob_receiver := s'\<rparr>"] resnapshots_def [of o'])
    have "bounded ?o" using b n rec by (simp add: bounded_def split: if_splits)
    moreover have "bounded (?o\<lparr>ob_asked := ob_asked ?o @ [Resnapshot i]\<rparr>)" if asks for i
      using b n rec that by (simp add: bounded_def resnapshots_def split: if_splits)
    ultimately show ?thesis using False p Inl a by (simp add: snapshotHeard_def Let_def split: option.splits)
  next
    case (Inr v)
    show ?thesis
    proof (cases v)
      case None
      then show ?thesis using False p Inr b pick_silent by (simp add: snapshotHeard_def bounded_def resnapshots_def)
    next
      case (Some x)
      have "bounded (o'\<lparr>ob_receiver := s, ob_delivered := ob_delivered o' @ [x]\<rparr>)"
        using b pick_delivers p Inr Some by (simp add: bounded_def resnapshots_def split: if_splits)
      then show ?thesis using False p Inr Some by (simp add: snapshotHeard_def Let_def split: option.splits)
    qed
  qed
qed

lemma bounded_reachable: "oreachable pick again published s o' \<Longrightarrow> bounded o'"
proof (induction rule: oreachable.induct)
  case made
  show ?case by (simp add: bounded_def new_observer_def resnapshots_def)
next
  case (run o' o'')
  from run.hyps(2) run.IH show ?case
  proof (induction rule: ostep.induct)
    case (settles o' i)
    then show ?case by (auto simp: registered_def unwatch_def bounded_def resnapshots_def Let_def)
  next
    case (fails o' stops e)
    then show ?case by (simp add: taskFailed_def)
  next
    case (detaches o')
    then show ?case by (simp add: detached_def bounded_def resnapshots_def)
  qed (simp_all add: bounded_heard)
qed

end

text \<open>The cache of a Model watch keeps these laws.\<close>

interpretation mw: receiver "receive decode copy" recover w_recovering for decode copy
proof unfold_locales
  show "w_recovering w' = w_recovering w" if "receive decode copy snap w = (Inl e, w')" for snap w e w'
    using receive_atomic [of decode copy snap w e] that by simp
  show "w_recovering w' = w_recovering w" if "receive decode copy snap w = (Inr None, w')" for snap w w'
    using that by (auto simp: receive_def split: if_splits sum.splits prod.splits)
  show "\<not> w_recovering w'" if "receive decode copy snap w = (Inr (Some v), w')" for snap w v w'
    using that by (auto simp: receive_def split: if_splits sum.splits prod.splits)
  show "b = (\<not> w_recovering w) \<and> w_recovering w'" if "recover w = (b, w')" for w b w'
    using that by (auto simp: recover_def split: if_splits)
qed

section \<open>Model watches\<close>

text \<open>What the runtime publishes for a watch: full rows, splices, or its end.\<close>

definition publishes :: "(nat \<Rightarrow> jsv list) \<Rightarrow> (nat \<Rightarrow> edit list) \<Rightarrow> jsv \<Rightarrow> bool" where
  "publishes history edits snap = ((\<exists>d. snap = message history edits d) \<or> truthy (field snap (js ''closed'')))"

definition true_rows :: "(jsv \<Rightarrow> 'a) \<Rightarrow> (nat \<Rightarrow> jsv list) \<Rightarrow> ('a watch, 'a list, 'e) observer \<Rightarrow> bool" where
  "true_rows dec history o' = (faithful dec history (ob_receiver o') \<and> (\<forall>rows \<in> set (ob_delivered o'). \<exists>v. rows = map dec (history v)))"

lemma nextRows_published:
  assumes dc: "decodes decode dec" and "evolves history edits" "faithful dec history w"
    and "nextRows decode (message history edits d) w = Inr (version, xs)"
  shows "\<exists>v. xs = map dec (history v)"
proof (cases d)
  case (LegacyRows v)
  then show ?thesis using assms(4) by (auto simp: nextRows_def has_def decodeRows_map [OF dc] res_simps split: if_splits)
next
  case (FullRows v)
  then show ?thesis using assms(4)
    by (auto simp: nextRows_def has_def decodeRows_map [OF dc] res_simps split: if_splits option.splits)
next
  case (Splices v)
  then have "version = Some (int (Suc v))" using assms(4) by (auto simp: nextRows_def has_def res_simps split: if_splits option.splits)
  then show ?thesis using nextRows_faithful [OF assms] by blast
qed

lemma receive_delivers:
  assumes dc: "decodes decode dec" and ev: "evolves history edits" and fa: "faithful dec history w"
    and r: "receive decode Inr (message history edits d) w = (Inr (Some rows), w')"
  shows "(\<exists>v. rows = map dec (history v)) \<and> faithful dec history w'"
proof -
  obtain version xs where n: "nextRows decode (message history edits d) w = Inr (version, xs)"
    and x: "rows = xs" "w' = \<lparr>w_rows = xs, w_version = version, w_recovering = False\<rparr>"
    using r by (auto simp: receive_def traverse_all_Inr [where g = "\<lambda>x. x"] split: if_splits sum.splits prod.splits)
  then show ?thesis using nextRows_published [OF dc ev fa n] nextRows_faithful [OF dc ev fa n] by (simp add: faithful_def)
qed

lemma recover_faithful: "recover w = (b, w') \<Longrightarrow> faithful dec history w' = faithful dec history w"
  by (auto simp: recover_def faithful_def split: if_splits)

lemma receive_same: "receive decode copy snap w = (Inl e, w') \<Longrightarrow> w' = w" "receive decode copy snap w = (Inr None, w') \<Longrightarrow> w' = w"
  by (auto simp: receive_def split: if_splits sum.splits prod.splits)

lemma true_rows_stop [simp]: "true_rows dec history (stop o') = true_rows dec history o'"
  by (auto simp: true_rows_def stop_def unwatch_def split: option.splits)

lemma true_rows_fail [simp]: "true_rows dec history (fail stops e o') = true_rows dec history o'"
proof -
  have "true_rows dec history (o'\<lparr>ob_errors := es\<rparr>) = true_rows dec history o'" for es by (simp add: true_rows_def)
  then show ?thesis by (simp add: fail_def Let_def)
qed

lemma true_rows_asked [simp]: "true_rows dec history (o'\<lparr>ob_asked := ts\<rparr>) = true_rows dec history o'"
  by (simp add: true_rows_def)

lemma true_rows_heard:
  assumes dc: "decodes decode dec" and ev: "evolves history edits" and p: "publishes history edits snap" and t: "true_rows dec history o'"
  shows "true_rows dec history (snapshotHeard (receive decode Inr) recover stops threw snap o')"
proof (cases "ob_stopped o' \<or> truthy (field snap (js ''closed''))")
  case True
  then show ?thesis using t by (auto simp: snapshotHeard_def true_rows_def)
next
  case False
  then obtain d where d: "snap = message history edits d" using p by (auto simp: publishes_def)
  have fa: "faithful dec history (ob_receiver o')" using t by (simp add: true_rows_def)
  obtain r w where r: "receive decode Inr snap (ob_receiver o') = (r, w)" by (cases "receive decode Inr snap (ob_receiver o')")
  show ?thesis
  proof (cases r)
    case (Inl e)
    obtain b w' where b: "recover w = (b, w')" by (cases "recover w")
    have "w = ob_receiver o'" using receive_same(1) [of decode Inr snap "ob_receiver o'" e w] r Inl by simp
    then have "true_rows dec history (o'\<lparr>ob_receiver := w'\<rparr>)"
      using t recover_faithful [OF b, of dec history] by (simp add: true_rows_def)
    then show ?thesis using False r Inl b by (simp add: snapshotHeard_def Let_def split: option.splits)
  next
    case (Inr v)
    show ?thesis
    proof (cases v)
      case None
      then show ?thesis using False r Inr t receive_same(2) [of decode Inr snap "ob_receiver o'" w] by (simp add: snapshotHeard_def true_rows_def)
    next
      case (Some rows)
      have "(\<exists>v. rows = map dec (history v)) \<and> faithful dec history w" using receive_delivers [OF dc ev fa] r Inr Some d by blast
      then have "true_rows dec history (o'\<lparr>ob_receiver := w, ob_delivered := ob_delivered o' @ [rows]\<rparr>)" using t by (auto simp: true_rows_def)
      then show ?thesis using False r Inr Some by (simp add: snapshotHeard_def Let_def split: option.splits)
    qed
  qed
qed

lemma true_rows_reachable:
  assumes "decodes decode dec" and "evolves history edits"
  shows "oreachable (receive decode Inr) recover (publishes history edits) new_watch o' \<Longrightarrow> true_rows dec history o'"
proof (induction rule: oreachable.induct)
  case made
  show ?case by (simp add: true_rows_def new_observer_def faithful_def new_watch_def)
next
  case (run o' o'')
  from run.hyps(2) run.IH show ?case
  proof (induction rule: ostep.induct)
    case (settles o' i)
    then show ?case by (auto simp: registered_def unwatch_def true_rows_def Let_def)
  next
    case (fails o' stops e)
    then show ?case by (simp add: taskFailed_def)
  next
    case (detaches o')
    then show ?case by (simp add: detached_def true_rows_def)
  qed (simp_all add: true_rows_heard [OF assms])
qed


section \<open>Witnesses\<close>

definition ex_rows :: "nat \<Rightarrow> jsv list" where
  "ex_rows v = replicate v (Obj [])"

definition ex_edits :: "nat \<Rightarrow> edit list" where
  "ex_edits v = [\<lparr>ed_index = v, ed_delete = 0, ed_rows = [Obj []]\<rparr>]"

definition ex_watch :: "(jsv watch, jsv list, unit werr) observer" where
  "ex_watch = stop (snapshotHeard (receive Inr Inr) recover False None (message ex_rows ex_edits (Splices 3))
     (snapshotHeard (receive Inr Inr) recover False None (message ex_rows ex_edits (FullRows 2))
       (registered (js ''w'') (new_observer new_watch))))"

lemma published_message: "publishes history edits (message history edits d)"
  by (auto simp: publishes_def)

lemma ex_watch_reachable: "oreachable (receive Inr Inr) recover (publishes ex_rows ex_edits) new_watch ex_watch"
  unfolding ex_watch_def
proof (intro oreachable.run [OF _ ostep.stops] oreachable.run [OF _ ostep.hears] oreachable.run [OF oreachable.made ostep.settles]
    published_message)
qed (simp add: new_observer_def, code_simp, code_simp)

lemma ex_watch_run:
  "ob_delivered ex_watch = [ex_rows 2]" "ob_stopped ex_watch" "\<not> ob_over ex_watch" "ob_id ex_watch = Some (js ''w'')"
  by code_simp+


end
