(* ===== verification/LiveSocket.thy ===== *)
theory LiveSocket
  imports Effects
begin

text \<open>
  A client's side of the wire: \<^verbatim>\<open>packages/frontend/client-js/bindings/transport.mts\<close> (headers,
  routes and errors of the HTTP transport) and the live connection of
  \<^verbatim>\<open>packages/frontend/client-js/bindings/live.mts\<close> and
  \<^verbatim>\<open>packages/frontend/client-react-native/bindings/live.mts\<close>, whose frame buffer hands frames to
  the runtime one at a time and drops what it holds when it is full.

  The socket, the token function and the worker that takes a frame are outside; what they
  answer are operations of their own. \<open>handed\<close> and \<open>reported\<close> record the calls of \<open>on\<close>.
\<close>

section \<open>HTTP transport\<close>

definition ROUTES :: "(jsstr, jsstr) jsmap" where
  "ROUTES = map (map_prod js js)
     [(''handshake'', ''handshake''), (''materialize'', ''materialize''), (''push'', ''mutations''), (''pull'', ''pull''),
      (''action'', ''actions''), (''fetch'', ''fetch'')]"

definition lineTerminator :: "nat \<Rightarrow> bool" where
  "lineTerminator c = (c = 10 \<or> c = 13 \<or> c = 8232 \<or> c = 8233)"

text \<open>\<open>/^(authorization|content-type|content-length|host|connection|upgrade|sec-websocket-.*)$/i\<close>\<close>

definition RESERVED :: "jsstr \<Rightarrow> bool" where
  "RESERVED name =
     (let n = map lowerAscii name in
      n \<in> set (map js [''authorization'', ''content-type'', ''content-length'', ''host'', ''connection'', ''upgrade''])
      \<or> take 14 n = js ''sec-websocket-'' \<and> \<not> list_ex lineTerminator (drop 14 n))"

datatype terror =
    ReservedHeader jsstr | HeaderNotString jsstr | UnknownRoute jsstr | ConnectionClosed
  | ResponseError jsstr nat jsstr "jsstr option"

definition clientHeaders :: "(jsstr \<times> jsv) list \<Rightarrow> (terror, (jsstr, jsstr) jsmap) res" where
  "clientHeaders headers =
     foldM (\<lambda>checked (name, v).
       if RESERVED name then Inl (ReservedHeader name)
       else case v of Str s \<Rightarrow> Inr (mput name s checked) | _ \<Rightarrow> Inl (HeaderNotString name)) [] headers"

text \<open>The status and text of a non-2xx answer; a refused admission also carries its body.\<close>

definition responseError :: "jsstr \<Rightarrow> nat \<Rightarrow> jsstr \<Rightarrow> bool \<Rightarrow> terror" where
  "responseError what status text refused = ResponseError what status text (if refused then Some text else None)"

record request =
  q_url :: jsstr
  q_headers :: "(jsstr, jsstr) jsmap"
  q_body :: jsstr

record response =
  p_status :: nat
  p_text :: jsstr
  p_refused :: bool

definition dropSlash :: "jsstr \<Rightarrow> jsstr" where
  "dropSlash url = (if url \<noteq> [] \<and> last url = 47 then butlast url else url)"

text \<open>\<open>fetch\<close> is a parameter; \<open>response.ok\<close> is a status from 200 to 299.\<close>

definition httpTransport ::
  "jsstr \<Rightarrow> (jsstr, jsstr) jsmap \<Rightarrow> jsstr \<Rightarrow> bool \<Rightarrow> (request \<Rightarrow> response) \<Rightarrow> jsstr \<Rightarrow> jsstr \<Rightarrow> (terror, jsstr) res" where
  "httpTransport url headers token aborted fetch kind body =
     (case map_of ROUTES kind of
        None \<Rightarrow> Inl (UnknownRoute kind)
      | Some route \<Rightarrow>
          if aborted then Inl ConnectionClosed
          else
            let r = fetch \<lparr>q_url = dropSlash url @ js ''/sync/'' @ route,
                           q_headers = mput (js ''content-type'') (js ''application/json'')
                                         (mput (js ''authorization'') (js ''Bearer '' @ token) headers),
                           q_body = body\<rparr> in
            if 200 \<le> p_status r \<and> p_status r \<le> 299 then Inr (p_text r)
            else Inl (responseError kind (p_status r) (p_text r) (p_refused r)))"

section \<open>The live connection\<close>

definition BUFFERED_FRAMES :: nat where "BUFFERED_FRAMES = 64"

datatype 'f handed = Message 'f | Overflowed

record ('f, 'e) live =
  v_frames :: "'f list"
  v_overflowed :: bool
  v_draining :: bool
  v_ended :: bool
  v_socket :: bool
  v_sent :: bool
  v_handed :: "'f handed list"
  v_reported :: "'e list"

definition new_live :: "('f, 'e) live" where
  "new_live = \<lparr>v_frames = [], v_overflowed = False, v_draining = False, v_ended = False, v_socket = False, v_sent = False,
     v_handed = [], v_reported = []\<rparr>"

text \<open>\<open>finish\<close>; \<open>None\<close> is an abort. React Native also empties the buffer.\<close>

definition finishLive :: "bool \<Rightarrow> 'e option \<Rightarrow> ('f, 'e) live \<Rightarrow> ('f, 'e) live" where
  "finishLive rn e v =
     (if v_ended v then v
      else v\<lparr>v_ended := True, v_frames := (if rn then [] else v_frames v),
             v_reported := v_reported v @ (case e of None \<Rightarrow> [] | Some x \<Rightarrow> [x])\<rparr>)"

text \<open>The loop of \<open>drain\<close> up to its next \<open>await\<close>, or to its end.\<close>

definition pump :: "('f, 'e) live \<Rightarrow> ('f, 'e) live" where
  "pump v =
     (if v_ended v then v\<lparr>v_draining := False\<rparr>
      else if v_overflowed v then v\<lparr>v_overflowed := False, v_handed := v_handed v @ [Overflowed]\<rparr>
      else case v_frames v of
             [] \<Rightarrow> v\<lparr>v_draining := False\<rparr>
           | f # fs \<Rightarrow> v\<lparr>v_frames := fs, v_handed := v_handed v @ [Message f]\<rparr>)"

definition drain :: "('f, 'e) live \<Rightarrow> ('f, 'e) live" where
  "drain v = (if v_draining v \<or> v_ended v then v else pump (v\<lparr>v_draining := True\<rparr>))"

text \<open>A message event; on React Native \<open>invalid\<close> is the error of one that is not a bounded string.\<close>

definition onMessage :: "bool \<Rightarrow> 'e option \<Rightarrow> 'f \<Rightarrow> ('f, 'e) live \<Rightarrow> ('f, 'e) live" where
  "onMessage rn invalid f v =
     (if v_ended v then v
      else case (if rn then invalid else None) of
             Some e \<Rightarrow> finishLive rn (Some e) v
           | None \<Rightarrow>
               let v' = (if length (v_frames v) = BUFFERED_FRAMES then v\<lparr>v_frames := [], v_overflowed := True\<rparr> else v) in
               drain (v'\<lparr>v_frames := v_frames v' @ [f]\<rparr>))"

text \<open>The worker's promise settled: the loop goes on, or the connection ends.\<close>

definition handlerDone :: "('f, 'e) live \<Rightarrow> ('f, 'e) live" where
  "handlerDone v = (if v_draining v then pump v else v)"

definition handlerFailed :: "bool \<Rightarrow> 'e \<Rightarrow> ('f, 'e) live \<Rightarrow> ('f, 'e) live" where
  "handlerFailed rn e v = (if v_draining v then (finishLive rn (Some e) v)\<lparr>v_draining := False\<rparr> else v)"

text \<open>The token arrived and the socket is created; it opened and the subscribe frame is sent.\<close>

definition tokenArrived :: "('f, 'e) live \<Rightarrow> ('f, 'e) live" where
  "tokenArrived v = (if v_ended v then v else v\<lparr>v_socket := True\<rparr>)"

definition socketOpened :: "('f, 'e) live \<Rightarrow> ('f, 'e) live" where
  "socketOpened v = (if v_ended v \<or> \<not> v_socket v then v else v\<lparr>v_sent := True\<rparr>)"

text \<open>A run; the \<open>n\<close>th message carries \<open>n\<close>.\<close>

datatype 'e live_event = Arrives "'e option" | Done | Refused 'e | Token | Opens | Ends "'e option"

fun liveStep :: "bool \<Rightarrow> nat \<times> (nat, 'e) live \<Rightarrow> 'e live_event \<Rightarrow> nat \<times> (nat, 'e) live" where
  "liveStep rn (n, v) (Arrives invalid) = (Suc n, onMessage rn invalid n v)"
| "liveStep rn (n, v) Done = (n, handlerDone v)"
| "liveStep rn (n, v) (Refused e) = (n, handlerFailed rn e v)"
| "liveStep rn (n, v) Token = (n, tokenArrived v)"
| "liveStep rn (n, v) Opens = (n, socketOpened v)"
| "liveStep rn (n, v) (Ends e) = (n, finishLive rn e v)"

definition liveRun :: "bool \<Rightarrow> 'e live_event list \<Rightarrow> nat \<times> (nat, 'e) live" where
  "liveRun rn es = foldl (liveStep rn) (0, new_live) es"

section \<open>What the worker sees\<close>

text \<open>
  The reading of a log of calls: the next message expected, and whether an overflow has
  announced a gap since the last one. \<open>None\<close> is a silent gap or a repetition.
\<close>

fun follow :: "nat \<times> bool \<Rightarrow> nat handed list \<Rightarrow> (nat \<times> bool) option" where
  "follow s [] = Some s"
| "follow (nx, gap) (Overflowed # hs) = follow (nx, True) hs"
| "follow (nx, gap) (Message i # hs) = (if i = nx \<or> gap \<and> nx \<le> i then follow (Suc i, False) hs else None)"

lemma follow_append: "follow s (hs @ hs') = Option.bind (follow s hs) (\<lambda>s'. follow s' hs')"
proof (induction hs arbitrary: s)
  case (Cons h hs)
  show ?case using Cons.IH by (cases s; cases h) simp_all
qed simp

definition buffered :: "nat \<Rightarrow> (nat, 'e) live \<Rightarrow> bool" where
  "buffered n v =
     (length (v_frames v) \<le> BUFFERED_FRAMES
      \<and> length (v_reported v) \<le> (if v_ended v then 1 else 0)
      \<and> (\<exists>nx gap. follow (0, False) (v_handed v) = Some (nx, gap) \<and> nx \<le> n
           \<and> (\<not> v_ended v \<longrightarrow>
                (\<exists>m \<le> n. v_frames v = [m..<n] \<and> nx \<le> m \<and> (v_overflowed v \<or> gap \<or> m = nx)))))"

lemma buffered_draining [simp]: "buffered n (v\<lparr>v_draining := b\<rparr>) = buffered n v"
  and buffered_socket [simp]: "buffered n (v\<lparr>v_socket := b\<rparr>) = buffered n v"
  and buffered_sent [simp]: "buffered n (v\<lparr>v_sent := b\<rparr>) = buffered n v"
  by (simp_all add: buffered_def)

lemma buffered_new: "buffered 0 new_live"
  by (auto simp: buffered_def new_live_def intro: exI [of _ False])

lemma buffered_pump:
  assumes "buffered n v"
  shows "buffered n (pump v)"
proof (cases "v_ended v")
  case True
  then show ?thesis using assms by (simp add: buffered_def pump_def)
next
  case False
  obtain nx gap m where f: "follow (0, False) (v_handed v) = Some (nx, gap)" "nx \<le> n" "m \<le> n"
    "v_frames v = [m..<n]" "nx \<le> m" "v_overflowed v \<or> gap \<or> m = nx" and b: "n - m \<le> BUFFERED_FRAMES" "v_reported v = []"
    using assms False by (auto simp: buffered_def)
  show ?thesis
  proof (cases "v_overflowed v")
    case True
    then show ?thesis using f b False by (auto simp: buffered_def pump_def follow_append)
  next
    case n: False
    show ?thesis
    proof (cases "m < n")
      case True
      then show ?thesis using f b False n by (auto simp: buffered_def pump_def follow_append upt_conv_Cons intro: exI [of _ "Suc m"])
    next
      case False
      then show ?thesis using f b n \<open>\<not> v_ended v\<close> by (auto simp: buffered_def pump_def intro: exI [of _ n])
    qed
  qed
qed

lemma buffered_drain: "buffered n v \<Longrightarrow> buffered n (drain v)"
  by (simp add: drain_def buffered_pump)

lemma buffered_finish: "buffered n v \<Longrightarrow> buffered n (finishLive rn e v)"
proof (cases "v_ended v")
  case False
  assume b: "buffered n v"
  have "v_reported v = []" using b False by (simp add: buffered_def)
  then show ?thesis using b False by (cases e) (auto simp: buffered_def finishLive_def)
qed (simp add: finishLive_def)

lemma buffered_Suc_ended: "buffered n v \<Longrightarrow> v_ended v \<Longrightarrow> buffered (Suc n) v"
  by (auto simp: buffered_def)

lemma buffered_arrives:
  assumes "buffered n v"
  shows "buffered (Suc n) (onMessage rn invalid n v)"
proof (cases "v_ended v")
  case True
  then show ?thesis using assms by (simp add: onMessage_def buffered_Suc_ended)
next
  case False
  obtain nx gap m where f: "follow (0, False) (v_handed v) = Some (nx, gap)" "nx \<le> n" "m \<le> n"
    "v_frames v = [m..<n]" "nx \<le> m" "v_overflowed v \<or> gap \<or> m = nx" and b: "n - m \<le> BUFFERED_FRAMES" "v_reported v = []"
    using assms False by (auto simp: buffered_def)
  show ?thesis
  proof (cases "if rn then invalid else None")
    case (Some e)
    have "buffered n (finishLive rn (Some e) v)" using assms by (rule buffered_finish)
    then have "buffered (Suc n) (finishLive rn (Some e) v)" using False by (intro buffered_Suc_ended) (auto simp: finishLive_def)
    then show ?thesis using Some False by (simp add: onMessage_def)
  next
    case None
    let ?v = "if length (v_frames v) = BUFFERED_FRAMES then v\<lparr>v_frames := [], v_overflowed := True\<rparr> else v"
    have "buffered (Suc n) (?v\<lparr>v_frames := v_frames ?v @ [n]\<rparr>)"
    proof (cases "n - m = BUFFERED_FRAMES")
      case True
      then show ?thesis using f b False by (auto simp: buffered_def BUFFERED_FRAMES_def intro!: exI [of _ n])
    next
      case ne: False
      then show ?thesis using f b False by (auto simp: buffered_def intro!: exI [of _ m])
    qed
    then show ?thesis using None False by (simp add: onMessage_def Let_def buffered_drain)
  qed
qed

lemma buffered_step: "buffered n v \<Longrightarrow> case_prod buffered (liveStep rn (n, v) ev)"
proof (cases ev)
  case Done
  then show "buffered n v \<Longrightarrow> ?thesis" by (simp add: handlerDone_def buffered_pump)
next
  case (Refused e)
  show "buffered n v \<Longrightarrow> ?thesis" using buffered_finish [of n v rn "Some e"] Refused by (simp add: handlerFailed_def)
next
  case Token
  then show "buffered n v \<Longrightarrow> ?thesis" by (simp add: tokenArrived_def)
next
  case Opens
  then show "buffered n v \<Longrightarrow> ?thesis" by (simp add: socketOpened_def)
qed (simp_all add: buffered_arrives buffered_finish)

lemma buffered_run: "case_prod buffered (liveRun rn es)"
proof -
  have "case_prod buffered (foldl (liveStep rn) s es)" if "case_prod buffered s" for s
    using that
  proof (induction es arbitrary: s)
    case (Cons ev es)
    then show ?case using buffered_step [of "fst s" "snd s" rn ev] by (cases s) simp
  qed simp
  from this [of "(0, new_live)"] show ?thesis using buffered_new by (simp add: liveRun_def)
qed

text \<open>
  C15: The live connection never holds more than 64 frames and never loses one silently: the
  worker is handed the frames in arrival order, each at most once, and where some were
  dropped it was told of an overflow before the next one; the end is reported at most once.
\<close>

theorem live_frames_gap_announced:
  "case liveRun rn es of (n, v) \<Rightarrow>
     length (v_frames v) \<le> 64 \<and> follow (0, False) (v_handed v) \<noteq> None \<and> length (v_reported v) \<le> 1"
  using buffered_run [of rn es] by (auto simp: buffered_def BUFFERED_FRAMES_def split: prod.splits if_splits)

end
