(* ===== verification/LiveUpgrade.thy ===== *)
theory LiveUpgrade
  imports LiveSocket
begin

text \<open>
  How a live connection is opened and refused: the rest of \<open>createServerConnection\<close> in
  \<^verbatim>\<open>packages/frontend/client-js/bindings/live.mts\<close> and \<^verbatim>\<open>packages/frontend/client-react-native/bindings/live.mts\<close> -
  the protocols of the two URLs, the events of the socket, and the body of a refused
  upgrade, which is read only when the server marked it as an admission refusal.

  The socket and the response are the platform's: their events are operations. A response
  that was destroyed has no further data and no end; it closes.
\<close>

section \<open>Protocols\<close>

text \<open>What is assigned to \<open>protocol\<close> of the URL of the live socket and of the HTTP routes.\<close>

definition liveProtocol :: "jsstr \<Rightarrow> jsstr" where
  "liveProtocol p = (if p = js ''https:'' \<or> p = js ''wss:'' then js ''wss:'' else js ''ws:'')"

definition httpProtocol :: "jsstr \<Rightarrow> jsstr" where
  "httpProtocol p = (if p = js ''wss:'' \<or> p = js ''https:'' then js ''https:'' else js ''http:'')"

definition livePath :: "jsstr \<Rightarrow> jsstr" where
  "livePath url = dropSlash url @ js ''/sync/live''"

text \<open>The headers of the upgrade.\<close>

definition upgradeHeaders :: "(jsstr, jsstr) jsmap \<Rightarrow> jsstr \<Rightarrow> (jsstr, jsstr) jsmap" where
  "upgradeHeaders headers token = mput (js ''authorization'') (js ''Bearer '' @ token) headers"

section \<open>Events\<close>

definition REFUSAL_BYTES :: nat where "REFUSAL_BYTES = 65536"

datatype wire_error = Response terror | SocketFailed jsstr | Disconnected nat jsstr | SendThrew jsstr

record reading =
  g_status :: nat
  g_text :: jsstr
  g_destroyed :: bool

record 'f upgrading =
  g_live :: "('f, wire_error) live"
  g_reading :: "reading option"

definition new_upgrading :: "('f, wire_error) live \<Rightarrow> 'f upgrading" where
  "new_upgrading v = \<lparr>g_live = v, g_reading = None\<rparr>"

definition ending :: "wire_error \<Rightarrow> 'f upgrading \<Rightarrow> 'f upgrading" where
  "ending e g = g\<lparr>g_live := finishLive False (Some e) (g_live g)\<rparr>"

text \<open>\<open>unexpected-response\<close>; \<open>marked\<close> says that the admission header is \<open>refused\<close>.\<close>

definition unexpectedResponse :: "nat option \<Rightarrow> bool \<Rightarrow> 'f upgrading \<Rightarrow> 'f upgrading" where
  "unexpectedResponse statusCode marked g =
     (let status = (case statusCode of None \<Rightarrow> 0 | Some s \<Rightarrow> s)
      in if \<not> marked then ending (Response (responseError (js ''live'') status [] False)) g
         else g\<lparr>g_reading := Some \<lparr>g_status = status, g_text = [], g_destroyed = False\<rparr>\<rparr>)"

definition refusalData :: "jsstr \<Rightarrow> 'f upgrading \<Rightarrow> 'f upgrading" where
  "refusalData chunk g =
     (case g_reading g of
        Some r \<Rightarrow>
          if g_destroyed r then g
          else g\<lparr>g_reading := Some (r\<lparr>g_text := g_text r @ chunk, g_destroyed := REFUSAL_BYTES < length (g_text r @ chunk)\<rparr>)\<rparr>
      | None \<Rightarrow> g)"

definition refusalEnd :: "'f upgrading \<Rightarrow> 'f upgrading" where
  "refusalEnd g =
     (case g_reading g of
        Some r \<Rightarrow> if g_destroyed r then g else ending (Response (responseError (js ''live'') (g_status r) (g_text r) True)) g
      | None \<Rightarrow> g)"

definition refusalError :: "jsstr \<Rightarrow> 'f upgrading \<Rightarrow> 'f upgrading" where
  "refusalError message g = (if g_reading g = None then g else ending (SocketFailed message) g)"

definition refusalClose :: "'f upgrading \<Rightarrow> 'f upgrading" where
  "refusalClose g =
     (case g_reading g of
        Some r \<Rightarrow> ending (Response (responseError (js ''live'') (g_status r) (g_text r) False)) g
      | None \<Rightarrow> g)"

definition socketError :: "jsstr \<Rightarrow> 'f upgrading \<Rightarrow> 'f upgrading" where
  "socketError message g = ending (SocketFailed message) g"

definition socketClose :: "nat \<Rightarrow> jsstr \<Rightarrow> 'f upgrading \<Rightarrow> 'f upgrading" where
  "socketClose code reason g = ending (Disconnected code reason) g"

text \<open>
  React Native hides a refused upgrade; its socket reports an error with or without a message, a
  close with or without a reason, and its \<open>send\<close> may throw.
\<close>

definition rnError :: "jsstr option \<Rightarrow> ('f, wire_error) live \<Rightarrow> ('f, wire_error) live" where
  "rnError message v =
     finishLive True (Some (SocketFailed (case message of None \<Rightarrow> js ''live connection failed'' | Some m \<Rightarrow> m))) v"

definition rnClose :: "nat \<Rightarrow> jsstr option \<Rightarrow> ('f, wire_error) live \<Rightarrow> ('f, wire_error) live" where
  "rnClose code reason v = finishLive True (Some (Disconnected code (case reason of None \<Rightarrow> [] | Some r \<Rightarrow> r))) v"

definition rnOpened :: "jsstr option \<Rightarrow> ('f, wire_error) live \<Rightarrow> ('f, wire_error) live" where
  "rnOpened threw v =
     (if v_ended v then v
      else case threw of None \<Rightarrow> socketOpened v | Some e \<Rightarrow> finishLive True (Some (SendThrew e)) v)"

section \<open>Histories\<close>

datatype upgrade_event =
    Unexpected "nat option" bool | Data jsstr | BodyEnd | BodyError jsstr | BodyClose | SockError jsstr | SockClose nat jsstr | Aborted

fun upgradeStep :: "'f upgrading \<Rightarrow> upgrade_event \<Rightarrow> 'f upgrading" where
  "upgradeStep g (Unexpected s m) = unexpectedResponse s m g"
| "upgradeStep g (Data c) = refusalData c g"
| "upgradeStep g BodyEnd = refusalEnd g"
| "upgradeStep g (BodyError e) = refusalError e g"
| "upgradeStep g BodyClose = refusalClose g"
| "upgradeStep g (SockError e) = socketError e g"
| "upgradeStep g (SockClose c r) = socketClose c r g"
| "upgradeStep g Aborted = g\<lparr>g_live := finishLive False None (g_live g)\<rparr>"

definition upgradeRun :: "upgrade_event list \<Rightarrow> 'f upgrading" where
  "upgradeRun es = foldl upgradeStep (new_upgrading new_live) es"

text \<open>The body the events carried since the response began.\<close>

fun bodyOf :: "upgrade_event list \<Rightarrow> jsstr" where
  "bodyOf [] = []"
| "bodyOf (Data c # es) = c @ bodyOf es"
| "bodyOf (_ # es) = bodyOf es"

definition refusalsOf :: "'f upgrading \<Rightarrow> (nat \<times> jsstr) list" where
  "refusalsOf g = concat (map (\<lambda>e. case e of Response (ResponseError _ s _ (Some t)) \<Rightarrow> [(s, t)] | _ \<Rightarrow> []) (v_reported (g_live g)))"

lemma refusals_ending: "set (refusalsOf (ending e g)) \<subseteq> set (refusalsOf g) \<union> (case e of Response (ResponseError _ s _ (Some t)) \<Rightarrow> {(s, t)} | _ \<Rightarrow> {})"
  by (auto simp: refusalsOf_def ending_def finishLive_def split: wire_error.splits terror.splits option.splits)

definition statusOf :: "nat option \<Rightarrow> nat" where
  "statusOf s = (case s of None \<Rightarrow> 0 | Some n \<Rightarrow> n)"

text \<open>The response being read began with a marked event, and its text is what came since, unless it was destroyed.\<close>

definition read_so_far :: "upgrade_event list \<Rightarrow> reading \<Rightarrow> bool" where
  "read_so_far es r =
     (\<exists>before after s. es = before @ Unexpected s True # after \<and> g_status r = statusOf s
        \<and> (\<not> g_destroyed r \<longrightarrow> g_text r = bodyOf after \<and> length (g_text r) \<le> REFUSAL_BYTES))"

definition whole_refusal :: "upgrade_event list \<Rightarrow> nat \<times> jsstr \<Rightarrow> bool" where
  "whole_refusal es = (\<lambda>(n, t). \<exists>before after s rest.
     es = before @ Unexpected s True # after @ BodyEnd # rest \<and> n = statusOf s \<and> t = bodyOf after \<and> length t \<le> REFUSAL_BYTES)"

lemma read_so_farI:
  "es = before @ Unexpected s True # after \<Longrightarrow> g_status r = statusOf s \<Longrightarrow>
   (\<not> g_destroyed r \<Longrightarrow> g_text r = bodyOf after \<and> length (g_text r) \<le> REFUSAL_BYTES) \<Longrightarrow> read_so_far es r"
  unfolding read_so_far_def by blast

lemma bodyOf_append: "bodyOf (es @ es') = bodyOf es @ bodyOf es'"
  by (induction es rule: bodyOf.induct) simp_all

lemma whole_refusal_more: "whole_refusal es x \<Longrightarrow> whole_refusal (es @ es') x"
  unfolding whole_refusal_def by (cases x) fastforce

lemma read_more:
  assumes "read_so_far es r" and "\<forall>c. ev \<noteq> Data c"
  shows "read_so_far (es @ [ev]) r"
proof -
  obtain before after s where r: "es = before @ Unexpected s True # after" "g_status r = statusOf s"
    "\<not> g_destroyed r \<longrightarrow> g_text r = bodyOf after \<and> length (g_text r) \<le> REFUSAL_BYTES"
    using assms(1) by (auto simp: read_so_far_def)
  moreover have "bodyOf [ev] = []" using assms(2) by (cases ev) simp_all
  ultimately show ?thesis by (intro read_so_farI [of _ before s "after @ [ev]"]) (auto simp: bodyOf_append)
qed

lemma read_data:
  assumes "read_so_far es r" and "\<not> g_destroyed r"
  shows "read_so_far (es @ [Data c]) (r\<lparr>g_text := g_text r @ c, g_destroyed := REFUSAL_BYTES < length (g_text r @ c)\<rparr>)"
proof -
  obtain before after s where "es = before @ Unexpected s True # after" "g_status r = statusOf s" "g_text r = bodyOf after"
    using assms by (auto simp: read_so_far_def)
  then show ?thesis by (intro read_so_farI [of _ before s "after @ [Data c]"]) (simp_all add: bodyOf_append)
qed

lemma read_end: "read_so_far es r \<Longrightarrow> \<not> g_destroyed r \<Longrightarrow> whole_refusal (es @ [BodyEnd]) (g_status r, g_text r)"
  by (fastforce simp: read_so_far_def whole_refusal_def)

lemma reading_step:
  assumes "\<And>r. g_reading g = Some r \<Longrightarrow> read_so_far es r" and "g_reading (upgradeStep g ev) = Some r'"
  shows "read_so_far (es @ [ev]) r'"
proof (cases ev)
  case (Unexpected s m)
  show ?thesis
  proof (cases m)
    case True
    then have "r' = \<lparr>g_status = statusOf s, g_text = [], g_destroyed = False\<rparr>"
      using assms(2) Unexpected by (simp add: unexpectedResponse_def Let_def statusOf_def)
    then show ?thesis unfolding Unexpected using True by (intro read_so_farI [of _ es s "[]"]) simp_all
  next
    case False
    then have "g_reading g = Some r'" using assms(2) Unexpected by (simp add: unexpectedResponse_def Let_def ending_def)
    then show ?thesis using assms(1) read_more Unexpected by blast
  qed
next
  case (Data c)
  then obtain r where r: "g_reading g = Some r" "g_destroyed r \<and> r' = r
      \<or> \<not> g_destroyed r \<and> r' = r\<lparr>g_text := g_text r @ c, g_destroyed := REFUSAL_BYTES < length (g_text r @ c)\<rparr>"
    using assms(2) by (auto simp: refusalData_def split: option.splits if_splits)
  have destroyed: "read_so_far (es @ [Data c]) r" if "g_destroyed r"
    using assms(1) [OF r(1)] that by (fastforce simp: read_so_far_def)
  show ?thesis using r(2) destroyed read_data [OF assms(1) [OF r(1)]] Data by auto
qed (use assms read_more in \<open>auto simp: refusalEnd_def refusalError_def refusalClose_def socketError_def socketClose_def ending_def
       split: option.splits if_splits\<close>)

lemma refusals_step:
  assumes "\<And>r. g_reading g = Some r \<Longrightarrow> read_so_far es r" and "list_all (whole_refusal es) (refusalsOf g)"
  shows "list_all (whole_refusal (es @ [ev])) (refusalsOf (upgradeStep g ev))"
proof -
  have old: "whole_refusal (es @ [ev]) x" if "x \<in> set (refusalsOf g)" for x
    using assms(2) that whole_refusal_more by (auto simp: list_all_iff)
  have ends: "list_all (whole_refusal (es @ [ev])) (refusalsOf (ending e g))"
    if "\<And>w s text t. e = Response (ResponseError w s text (Some t)) \<Longrightarrow> whole_refusal (es @ [ev]) (s, t)" for e
    using refusals_ending [of e g] old that
    by (fastforce simp: list_all_iff split: wire_error.splits terror.splits option.splits)
  have same: "list_all (whole_refusal (es @ [ev])) (refusalsOf g)" using old by (simp add: list_all_iff)
  show ?thesis
  proof (cases ev)
    case BodyEnd
    show ?thesis
    proof (cases "g_reading g")
      case (Some r)
      have "list_all (whole_refusal (es @ [ev])) (refusalsOf (ending (Response (responseError (js ''live'') (g_status r) (g_text r) True)) g))"
        if "\<not> g_destroyed r"
        by (rule ends) (use read_end [OF assms(1) [OF Some] that] BodyEnd in \<open>simp add: responseError_def\<close>)
      then show ?thesis using BodyEnd same Some by (simp add: refusalEnd_def)
    qed (use BodyEnd same in \<open>simp add: refusalEnd_def\<close>)
  next
    case (Unexpected s m)
    have "list_all (whole_refusal (es @ [ev])) (refusalsOf (ending (Response (responseError (js ''live'') n [] False)) g))" for n
      by (rule ends) (simp add: responseError_def)
    moreover have "refusalsOf (g\<lparr>g_reading := x\<rparr>) = refusalsOf g" for x by (simp add: refusalsOf_def)
    ultimately show ?thesis using same Unexpected by (cases m) (simp_all add: unexpectedResponse_def Let_def)
  next
    case (Data c)
    then show ?thesis using same by (auto simp: refusalData_def refusalsOf_def split: option.splits)
  next
    case Aborted
    then show ?thesis using same by (simp add: refusalsOf_def finishLive_def)
  next
    case (BodyError e)
    then show ?thesis using same ends [of "SocketFailed e"] by (simp add: refusalError_def)
  next
    case BodyClose
    then show ?thesis using same ends [of "Response (responseError (js ''live'') (g_status (the (g_reading g))) (g_text (the (g_reading g))) False)"]
      by (cases "g_reading g") (simp_all add: refusalClose_def responseError_def)
  next
    case (SockError e)
    then show ?thesis using ends [of "SocketFailed e"] by (simp add: socketError_def)
  next
    case (SockClose c r)
    then show ?thesis using ends [of "Disconnected c r"] by (simp add: socketClose_def)
  qed
qed

text \<open>
  A refusal that is reported is one the server marked, with the whole body that was read until
  its end, within the limit: a body that is too long, breaks off or was not marked is never
  reported as a refusal.
\<close>

lemma refusal_is_whole: "list_all (whole_refusal es) (refusalsOf (upgradeRun es))"
proof -
  have "(\<forall>r. g_reading (upgradeRun es :: 'a upgrading) = Some r \<longrightarrow> read_so_far es r)
      \<and> list_all (whole_refusal es) (refusalsOf (upgradeRun es :: 'a upgrading))"
  proof (induction es rule: rev_induct)
    case Nil
    then show ?case by (simp add: upgradeRun_def new_upgrading_def refusalsOf_def new_live_def)
  next
    case (snoc ev es)
    let ?g = "upgradeRun es :: 'a upgrading"
    have "upgradeRun (es @ [ev]) = upgradeStep ?g ev" by (simp add: upgradeRun_def)
    then show ?case using snoc reading_step [of ?g es ev] refusals_step [of ?g es ev] by auto
  qed
  then show "list_all (whole_refusal es) (refusalsOf (upgradeRun es :: 'a upgrading))" ..
qed

end
