(* ===== verification/LiveServer.thy ===== *)
theory LiveServer
  imports Backend Http
begin

text \<open>
  The live side of a backend's listener: \<^verbatim>\<open>packages/backend/server/connection/live.mts\<close> (the
  upgrade of a connection, its heartbeat and the executor \<open>serveLive\<close> of one socket) and the
  shutdown of \<^verbatim>\<open>packages/backend/server/connection/listener.mts\<close>.

  The native controller is an argument: \<open>ctl\<close> answers an event with actions or an error.
  An \<open>await\<close> is the boundary between two operations; the socket's events, the answers of the
  database and the wakes of the hub arrive in between. The hub is the one of the backend, and
  the sockets of one listener share it.
\<close>

section \<open>One socket\<close>

datatype live_event = Committed jsstr | Pulled jsstr | Closed
datatype live_action = PullV05 jsstr | Listen jsstr | SendFrame jsstr

text \<open>
  Where \<open>serveLive\<close> waits: for the first frame, for the negotiation, for the end of the
  socket, before its \<open>finally\<close>, for the pulls still running, or nowhere.
\<close>

datatype phase = Handshaking | Negotiating | Serving | Leaving | Draining | Done

record ('c, 'e) serve =
  sv_phase :: phase
  sv_open :: bool
  sv_handle :: "nat option"
  sv_released :: bool
  sv_ctl :: 'c
  sv_tokens :: "token list"
  sv_pulls :: "nat list"
  sv_asked :: nat
  sv_sent :: "jsstr list"
  sv_closes :: "(nat \<times> jsstr) list"
  sv_reported :: "'e list"
  sv_told :: "live_event list"
  sv_closed :: nat

definition new_serve :: "'c \<Rightarrow> ('c, 'e) serve" where
  "new_serve c = \<lparr>sv_phase = Handshaking, sv_open = True, sv_handle = None, sv_released = False, sv_ctl = c, sv_tokens = [],
     sv_pulls = [], sv_asked = 0, sv_sent = [], sv_closes = [], sv_reported = [], sv_told = [], sv_closed = 0\<rparr>"

text \<open>The hub and the next wake function: every \<open>onCommitted\<close> gets a closure of its own.\<close>

type_synonym env = "hub \<times> nat"

definition closeSocket :: "nat \<Rightarrow> jsstr \<Rightarrow> ('c, 'e) serve \<Rightarrow> ('c, 'e) serve" where
  "closeSocket c why s = (if sv_open s then s\<lparr>sv_open := False, sv_closes := sv_closes s @ [(c, why)]\<rparr> else s)"

definition fail :: "'e \<Rightarrow> ('c, 'e) serve \<Rightarrow> ('c, 'e) serve" where
  "fail e s = closeSocket 1011 (js ''server'') (s\<lparr>sv_reported := sv_reported s @ [e]\<rparr>)"

text \<open>\<open>execute\<close>; \<open>nopull\<close> is the error of a backend without \<open>pull05Live\<close>.\<close>

fun execute :: "'e option \<Rightarrow> live_action list \<Rightarrow> env \<times> ('c, 'e) serve \<Rightarrow> env \<times> ('c, 'e) serve" where
  "execute nopull [] es = es"
| "execute nopull (Listen stream # as) ((h, n), s) =
     (case subscribe stream n h of
        (t, h') \<Rightarrow> execute nopull as ((h', Suc n), s\<lparr>sv_tokens := sv_tokens s @ [t]\<rparr>))"
| "execute nopull (SendFrame frame # as) (e, s) =
     execute nopull as (e, if sv_open s then s\<lparr>sv_sent := sv_sent s @ [frame]\<rparr> else s)"
| "execute nopull (PullV05 request # as) (e, s) =
     (case nopull of
        Some x \<Rightarrow> (e, fail x s)
      | None \<Rightarrow> execute nopull as (e, s\<lparr>sv_pulls := sv_pulls s @ [sv_asked s], sv_asked := Suc (sv_asked s)\<rparr>))"

definition dispatch ::
  "(nat \<Rightarrow> 'c \<Rightarrow> live_event \<Rightarrow> ('e, live_action list) res \<times> 'c) \<Rightarrow> 'e option \<Rightarrow> live_event \<Rightarrow>
   env \<times> ('c, 'e) serve \<Rightarrow> env \<times> ('c, 'e) serve" where
  "dispatch ctl nopull ev = (\<lambda>(e, s).
     case sv_handle s of
       None \<Rightarrow> (e, s)
     | Some handle \<Rightarrow>
         if sv_released s then (e, s)
         else
           (case ctl handle (sv_ctl s) ev of
              (r, c) \<Rightarrow>
                let s' = s\<lparr>sv_ctl := c, sv_told := sv_told s @ [ev]\<rparr> in
                (case r of Inl x \<Rightarrow> (e, fail x s') | Inr actions \<Rightarrow> execute nopull actions (e, s'))))"

text \<open>The \<open>catch\<close> of a failed handshake or negotiation; \<open>protocolCode\<close> is the code of a client's fault.\<close>

definition protocolCode :: "jsstr option \<Rightarrow> bool" where
  "protocolCode c = (c \<in> Some ` set (map js [''protocol.unsupported'', ''request.invalid'', ''model_version_unsupported'']))"

definition failed :: "jsstr option \<Rightarrow> 'e \<Rightarrow> ('c, 'e) serve \<Rightarrow> ('c, 'e) serve" where
  "failed c e s =
     (let s' = (if protocolCode c then closeSocket 1002 (the c) s
                else closeSocket 1011 (js ''request.invalid'') (s\<lparr>sv_reported := sv_reported s @ [e]\<rparr>))
      in s'\<lparr>sv_phase := Leaving\<rparr>)"

text \<open>The \<open>finally\<close>: the hub's cleanups run once, and only running pulls are waited for.\<close>

definition leave ::
  "(nat \<Rightarrow> 'c \<Rightarrow> live_event \<Rightarrow> ('e, live_action list) res \<times> 'c) \<Rightarrow> 'e option \<Rightarrow>
   env \<times> ('c, 'e) serve \<Rightarrow> env \<times> ('c, 'e) serve" where
  "leave ctl nopull = (\<lambda>es.
     let (e, s) = (if sv_handle (snd es) \<noteq> None then dispatch ctl nopull Closed es else es);
         s' = (if sv_handle s \<noteq> None then s\<lparr>sv_released := True, sv_closed := Suc (sv_closed s)\<rparr> else s)
     in ((fold unsubscribe (sv_tokens s') (fst e), snd e),
         s'\<lparr>sv_tokens := [], sv_phase := (if sv_pulls s' = [] then Done else Draining)\<rparr>))"

datatype 'e incoming =
    Frame
  | SocketClosed 'e
  | SocketError 'e
  | Negotiated nat "live_action list"
  | NotNegotiated "jsstr option" 'e
  | Wake nat
  | PullDone nat jsstr
  | PullFailed nat 'e
  | Continue

text \<open>The socket ended: \<open>closed\<close> is told to the controller while it is attached, and the wait for the end is over.\<close>

definition ended ::
  "(nat \<Rightarrow> 'c \<Rightarrow> live_event \<Rightarrow> ('e, live_action list) res \<times> 'c) \<Rightarrow> 'e option \<Rightarrow> 'e \<Rightarrow>
   env \<times> ('c, 'e) serve \<Rightarrow> env \<times> ('c, 'e) serve" where
  "ended ctl nopull x = (\<lambda>(e, s).
     case sv_phase s of
       Handshaking \<Rightarrow> (e, failed None x s)
     | Serving \<Rightarrow> (case dispatch ctl nopull Closed (e, s) of (e', s') \<Rightarrow> (e', s'\<lparr>sv_phase := Leaving\<rparr>))
     | Leaving \<Rightarrow> dispatch ctl nopull Closed (e, s)
     | _ \<Rightarrow> (e, s))"

definition pullSettled :: "nat \<Rightarrow> ('c, 'e) serve \<Rightarrow> ('c, 'e) serve" where
  "pullSettled i s =
     (let left = removeAll i (sv_pulls s) in
      s\<lparr>sv_pulls := left, sv_phase := (if sv_phase s = Draining \<and> left = [] then Done else sv_phase s)\<rparr>)"

definition tokenOf :: "nat \<Rightarrow> ('c, 'e) serve \<Rightarrow> token option" where
  "tokenOf w s = List.find (\<lambda>t. t_wake t = w) (sv_tokens s)"

definition receive ::
  "(nat \<Rightarrow> 'c \<Rightarrow> live_event \<Rightarrow> ('e, live_action list) res \<times> 'c) \<Rightarrow> 'e option \<Rightarrow> 'e incoming \<Rightarrow>
   env \<times> ('c, 'e) serve \<Rightarrow> env \<times> ('c, 'e) serve" where
  "receive ctl nopull i = (\<lambda>(e, s).
     case i of
       Frame \<Rightarrow>
         (case sv_phase s of
            Handshaking \<Rightarrow> (e, s\<lparr>sv_phase := Negotiating\<rparr>)
          | Draining \<Rightarrow> (e, s) | Done \<Rightarrow> (e, s)
          | _ \<Rightarrow> (e, closeSocket 1002 (js ''subscribe is the only client frame'') s))
     | SocketClosed x \<Rightarrow> ended ctl nopull x (e, s\<lparr>sv_open := False\<rparr>)
     | SocketError x \<Rightarrow> ended ctl nopull x (e, s)
     | Negotiated handle actions \<Rightarrow>
         if sv_phase s \<noteq> Negotiating then (e, s)
         else if \<not> sv_open s then (e, s\<lparr>sv_handle := Some handle, sv_phase := Leaving\<rparr>)
         else execute nopull actions (e, s\<lparr>sv_handle := Some handle, sv_phase := Serving\<rparr>)
     | NotNegotiated c x \<Rightarrow> (e, if sv_phase s = Negotiating then failed c x s else s)
     | Wake w \<Rightarrow> (case tokenOf w s of None \<Rightarrow> (e, s) | Some t \<Rightarrow> dispatch ctl nopull (Committed (t_stream t)) (e, s))
     | PullDone p page \<Rightarrow>
         if p \<notin> set (sv_pulls s) then (e, s)
         else (case dispatch ctl nopull (Pulled page) (e, s) of (e', s') \<Rightarrow> (e', pullSettled p s'))
     | PullFailed p x \<Rightarrow> (e, if p \<notin> set (sv_pulls s) then s else pullSettled p (fail x s))
     | Continue \<Rightarrow> if sv_phase s = Leaving then leave ctl nopull (e, s) else (e, s))"

section \<open>The listener's sockets\<close>

text \<open>
  A queued wake of a hub function runs as a microtask: it reaches the session whose
  subscription it is, if that is still open.
\<close>

record ('c, 'e) listener =
  ln_env :: env
  ln_sessions :: "('c, 'e) serve list"

definition new_listener :: "('c, 'e) listener" where
  "new_listener = \<lparr>ln_env = (new_hub, 0), ln_sessions = []\<rparr>"

definition accept :: "'c \<Rightarrow> ('c, 'e) listener \<Rightarrow> ('c, 'e) listener" where
  "accept c l = l\<lparr>ln_sessions := ln_sessions l @ [new_serve c]\<rparr>"

definition deliverTo ::
  "(nat \<Rightarrow> 'c \<Rightarrow> live_event \<Rightarrow> ('e, live_action list) res \<times> 'c) \<Rightarrow> 'e option \<Rightarrow> nat \<Rightarrow> 'e incoming \<Rightarrow>
   ('c, 'e) listener \<Rightarrow> ('c, 'e) listener" where
  "deliverTo ctl nopull k i l =
     (if k < length (ln_sessions l)
      then case receive ctl nopull i (ln_env l, ln_sessions l ! k) of
             (e, s) \<Rightarrow> \<lparr>ln_env = e, ln_sessions = (ln_sessions l)[k := s]\<rparr>
      else l)"

section \<open>Upgrades and the heartbeat\<close>

datatype upgrade = Ignore | Refuse nat | RefuseAdmission refusal | Accept jsstr

text \<open>\<open>closing\<close> and \<open>gone\<close> are read again after the \<open>await\<close> of the admission.\<close>

definition upgradeOf ::
  "bool \<Rightarrow> ('e admit_error, jsstr option \<times> refusal option) res \<Rightarrow> bool \<Rightarrow> bool \<Rightarrow> jsstr option \<Rightarrow> upgrade" where
  "upgradeOf closing admitted closing' gone url =
     (if pathOf url \<noteq> Some (js ''/sync/live'') then Ignore
      else if closing then Refuse 503
      else case admitted of
             Inl x \<Rightarrow> Refuse 500
           | Inr (owner, refused) \<Rightarrow>
               if closing' \<or> gone then Refuse 503
               else case refused of
                      Some r \<Rightarrow> RefuseAdmission r
                    | None \<Rightarrow>
                        (case owner of
                           None \<Rightarrow> Refuse 401
                         | Some o' \<Rightarrow> if trim o' = [] then Refuse 401 else Accept o'))"

text \<open>One turn of the heartbeat over the open sockets: who is terminated, and who has yet to answer.\<close>

definition heartbeat :: "nat list \<Rightarrow> nat list \<Rightarrow> nat list \<times> nat list" where
  "heartbeat opened alive =
     (filter (\<lambda>c. c \<notin> set alive) opened, filter (\<lambda>c. c \<notin> set opened) alive)"

text \<open>The close of the listener: what was accepted settles first, and the first failure is thrown.\<close>

definition closeListener :: "('e, unit) res list \<Rightarrow> ('e, unit) res \<Rightarrow> ('e, unit) res" where
  "closeListener drained shut = (case List.find (\<lambda>r. isl r) (drained @ [shut]) of None \<Rightarrow> Inr () | Some r \<Rightarrow> r)"

definition urlHost :: "jsstr \<Rightarrow> jsstr" where
  "urlHost host =
     (if host = js ''0.0.0.0'' then js ''127.0.0.1''
      else if host = js ''::'' then js ''localhost''
      else if 58 \<in> set host then js ''['' @ host @ js '']'' else host)"

end
