(* ===== verification/Listener.thy ===== *)
theory Listener
  imports LiveServer
begin

text \<open>
  The life of a listener: \<^verbatim>\<open>packages/backend/server/connection/listener.mts\<close> and the close of
  \<open>attachLive\<close> in \<^verbatim>\<open>packages/backend/server/connection/live.mts\<close>. HTTP requests, upgrades under way and live sessions are
  tasks, numbered as they start; \<open>close\<close> waits for those it finds. What a task settles with is recorded in
  \<open>gt_settled\<close>. The admission of an upgrade settles later than it was asked for, so \<open>close\<close> may come in between.
\<close>

section \<open>State\<close>

record 'e gate =
  gt_next :: nat
  gt_stopping :: bool
  gt_closing :: bool
  gt_requests :: "nat list"
  gt_upgrades :: "nat list"
  gt_sessions :: "nat list"
  gt_refused :: nat
  gt_owned :: "nat list option"
  gt_awaited :: "nat list"
  gt_sockets :: bool
  gt_shut :: "('e, unit) res option"
  gt_settled :: "(nat, ('e, unit) res) jsmap"

definition new_gate :: "'e gate" where
  "new_gate = \<lparr>gt_next = 0, gt_stopping = False, gt_closing = False, gt_requests = [], gt_upgrades = [], gt_sessions = [],
     gt_refused = 0, gt_owned = None, gt_awaited = [], gt_sockets = False, gt_shut = None, gt_settled = []\<rparr>"

section \<open>Operations\<close>

text \<open>A request is answered 503 once the listener stops; otherwise its handler runs.\<close>

definition requestArrived :: "'e gate \<Rightarrow> 'e gate" where
  "requestArrived g =
     (if gt_stopping g then g\<lparr>gt_refused := Suc (gt_refused g)\<rparr>
      else g\<lparr>gt_requests := gt_requests g @ [gt_next g], gt_next := Suc (gt_next g)\<rparr>)"

definition requestSettled :: "nat \<Rightarrow> ('e, unit) res \<Rightarrow> 'e gate \<Rightarrow> 'e gate" where
  "requestSettled i r g =
     (if i \<in> set (gt_requests g)
      then g\<lparr>gt_requests := remove1 i (gt_requests g), gt_settled := mput i r (gt_settled g)\<rparr> else g)"

text \<open>An upgrade is heard until \<open>close\<close> takes the listener off.\<close>

definition upgradeArrived :: "'e gate \<Rightarrow> 'e gate" where
  "upgradeArrived g =
     (if gt_closing g then g
      else g\<lparr>gt_upgrades := gt_upgrades g @ [gt_next g], gt_next := Suc (gt_next g)\<rparr>)"

text \<open>The admission settled: the upgrade is decided, and an accepted one starts a session; \<open>threw\<close> is what \<open>onError\<close> threw.\<close>

definition upgradeDecided ::
  "nat \<Rightarrow> jsstr option \<Rightarrow> ('e admit_error, jsstr option \<times> refusal option) res \<Rightarrow> bool \<Rightarrow> ('e, unit) res \<Rightarrow> 'e gate \<Rightarrow> 'e gate" where
  "upgradeDecided i url admitted gone threw g =
     (if i \<notin> set (gt_upgrades g) then g
      else
        let g' = g\<lparr>gt_upgrades := remove1 i (gt_upgrades g), gt_settled := mput i (if isl admitted then threw else Inr ()) (gt_settled g)\<rparr>
        in case upgradeOf False admitted (gt_closing g) gone url of
             Accept _ \<Rightarrow> g'\<lparr>gt_sessions := gt_sessions g' @ [gt_next g'], gt_next := Suc (gt_next g')\<rparr>
           | _ \<Rightarrow> g')"

definition sessionSettled :: "nat \<Rightarrow> ('e, unit) res \<Rightarrow> 'e gate \<Rightarrow> 'e gate" where
  "sessionSettled i r g =
     (if i \<in> set (gt_sessions g)
      then g\<lparr>gt_sessions := remove1 i (gt_sessions g), gt_settled := mput i r (gt_settled g)\<rparr> else g)"

text \<open>\<open>close\<close>, up to its first \<open>await\<close>; a later call answers the same promise.\<close>

definition closeStart :: "'e gate \<Rightarrow> 'e gate" where
  "closeStart g =
     (case gt_owned g of
        Some _ \<Rightarrow> g\<lparr>gt_stopping := True\<rparr>
      | None \<Rightarrow> g\<lparr>gt_stopping := True, gt_closing := True, gt_owned := Some (gt_upgrades g @ gt_sessions g), gt_awaited := gt_requests g\<rparr>)"

definition socketsClosed :: "'e gate \<Rightarrow> 'e gate" where
  "socketsClosed g = (if gt_closing g then g\<lparr>gt_sockets := True\<rparr> else g)"

text \<open>The outcomes of tasks in order, when all have settled.\<close>

definition outcomes :: "'e gate \<Rightarrow> nat list \<Rightarrow> ('e, unit) res list option" where
  "outcomes g is = those (map (map_of (gt_settled g)) is)"

definition firstRejected :: "('e, unit) res list \<Rightarrow> ('e, unit) res" where
  "firstRejected rs = (case List.find isl rs of None \<Rightarrow> Inr () | Some r \<Rightarrow> r)"

text \<open>\<open>live.close()\<close>, and the results that \<open>close\<close> drains.\<close>

definition liveClosed :: "'e gate \<Rightarrow> ('e, unit) res option" where
  "liveClosed g =
     (if gt_sockets g then Option.bind (gt_owned g) (\<lambda>owned. map_option firstRejected (outcomes g owned)) else None)"

definition drained :: "'e gate \<Rightarrow> ('e, unit) res list option" where
  "drained g = Option.bind (liveClosed g) (\<lambda>live. map_option ((#) live) (outcomes g (gt_awaited g)))"

definition serverClosed :: "('e, unit) res \<Rightarrow> 'e gate \<Rightarrow> 'e gate" where
  "serverClosed r g = (if drained g = None \<or> gt_shut g \<noteq> None then g else g\<lparr>gt_shut := Some r\<rparr>)"

text \<open>What the promise of \<open>close\<close> settles with, once it does.\<close>

definition closeResult :: "'e gate \<Rightarrow> ('e, unit) res option" where
  "closeResult g =
     (case (drained g, gt_shut g) of (Some rs, Some shut) \<Rightarrow> Some (closeListener rs shut) | _ \<Rightarrow> None)"

section \<open>Histories\<close>

inductive gate_reach :: "'e gate \<Rightarrow> bool" where
  created: "gate_reach new_gate"
| requested: "gate_reach g \<Longrightarrow> gate_reach (requestArrived g)"
| answered: "gate_reach g \<Longrightarrow> gate_reach (requestSettled i r g)"
| upgrading: "gate_reach g \<Longrightarrow> gate_reach (upgradeArrived g)"
| decided: "gate_reach g \<Longrightarrow> gate_reach (upgradeDecided i url admitted gone threw g)"
| ended: "gate_reach g \<Longrightarrow> gate_reach (sessionSettled i r g)"
| closing: "gate_reach g \<Longrightarrow> gate_reach (closeStart g)"
| sockets: "gate_reach g \<Longrightarrow> gate_reach (socketsClosed g)"
| shut: "gate_reach g \<Longrightarrow> gate_reach (serverClosed r g)"

definition running :: "'e gate \<Rightarrow> nat set" where
  "running g = set (gt_requests g) \<union> set (gt_upgrades g) \<union> set (gt_sessions g)"

text \<open>Tasks have numbers of their own, and are settled or running.\<close>

definition tasks_ok :: "nat list \<Rightarrow> nat set \<Rightarrow> nat \<Rightarrow> bool" where
  "tasks_ok ts past n = (distinct ts \<and> set ts \<inter> past = {} \<and> (\<forall>i \<in> set ts \<union> past. i < n))"

lemma task_starts: "tasks_ok (xs @ ys) past n \<Longrightarrow> tasks_ok (xs @ n # ys) past (Suc n)"
  unfolding tasks_ok_def by (auto simp: less_Suc_eq)

lemma task_ends:
  assumes "tasks_ok (xs @ ys @ zs) past n" and "i \<in> set ys"
  shows "tasks_ok (xs @ remove1 i ys @ zs) (insert i past) n"
  using assms unfolding tasks_ok_def by auto

text \<open>Once the listener closes, all that runs is awaited.\<close>

definition awaits_ok :: "'e gate \<Rightarrow> bool" where
  "awaits_ok g =
     (gt_stopping g = gt_closing g \<and> gt_closing g = (gt_owned g \<noteq> None)
      \<and> (case gt_owned g of
           None \<Rightarrow> True
         | Some owned \<Rightarrow> set (gt_upgrades g) \<union> set (gt_sessions g) \<subseteq> set owned \<and> set (gt_requests g) \<subseteq> set (gt_awaited g)))"

definition gate_inv :: "'e gate \<Rightarrow> bool" where
  "gate_inv g =
     (tasks_ok (gt_requests g @ gt_upgrades g @ gt_sessions g) (fst ` set (gt_settled g)) (gt_next g) \<and> awaits_ok g)"

lemma gate_inv_new: "gate_inv new_gate"
  by (simp add: gate_inv_def tasks_ok_def awaits_ok_def new_gate_def)

lemma gate_inv_request: "gate_inv g \<Longrightarrow> gate_inv (requestArrived g)"
  using task_starts [of "gt_requests g" "gt_upgrades g @ gt_sessions g"]
  by (auto simp: gate_inv_def awaits_ok_def requestArrived_def split: option.splits)

lemma gate_inv_upgrade: "gate_inv g \<Longrightarrow> gate_inv (upgradeArrived g)"
  using task_starts [of "gt_requests g @ gt_upgrades g" "gt_sessions g"]
  by (auto simp: gate_inv_def awaits_ok_def upgradeArrived_def split: option.splits)

lemma gate_inv_answered: "gate_inv g \<Longrightarrow> gate_inv (requestSettled i r g)"
  using task_ends [of "[]" "gt_requests g" "gt_upgrades g @ gt_sessions g" _ _ i]
  by (auto simp: gate_inv_def awaits_ok_def requestSettled_def mput_keys split: option.splits dest: notin_set_remove1)

lemma gate_inv_ended: "gate_inv g \<Longrightarrow> gate_inv (sessionSettled i r g)"
  using task_ends [of "gt_requests g @ gt_upgrades g" "gt_sessions g" "[]" _ _ i]
  by (auto simp: gate_inv_def awaits_ok_def sessionSettled_def mput_keys split: option.splits dest: notin_set_remove1)

lemma gate_inv_close: "gate_inv g \<Longrightarrow> gate_inv (closeStart g)"
  by (auto simp: gate_inv_def awaits_ok_def closeStart_def split: option.splits)

lemma gate_inv_frame: "gate_inv g \<Longrightarrow> gate_inv (socketsClosed g)" "gate_inv g \<Longrightarrow> gate_inv (serverClosed r g)"
  by (auto simp: gate_inv_def awaits_ok_def socketsClosed_def serverClosed_def)

text \<open>An upgrade decided after the close began starts no session, because \<open>closing\<close> is read again.\<close>

lemma no_session_after_close: "upgradeOf False admitted closing gone url = Accept o' \<Longrightarrow> \<not> closing"
  by (auto simp: upgradeOf_def split: sum.splits prod.splits option.splits if_splits)

lemma gate_inv_decided:
  assumes "gate_inv g"
  shows "gate_inv (upgradeDecided i url admitted gone threw g)"
proof (cases "i \<in> set (gt_upgrades g)")
  case True
  let ?g = "g\<lparr>gt_upgrades := remove1 i (gt_upgrades g), gt_settled := mput i (if isl admitted then threw else Inr ()) (gt_settled g)\<rparr>"
  have t: "tasks_ok (gt_requests ?g @ gt_upgrades ?g @ gt_sessions ?g) (fst ` set (gt_settled ?g)) (gt_next ?g)"
    using task_ends [OF _ True] assms by (simp add: gate_inv_def mput_keys)
  have a: "awaits_ok ?g" using assms notin_set_remove1 by (fastforce simp: gate_inv_def awaits_ok_def split: option.splits)
  show ?thesis
  proof (cases "upgradeOf False admitted (gt_closing g) gone url")
    case (Accept o')
    have "\<not> gt_closing g" using no_session_after_close [OF Accept] .
    moreover have "tasks_ok (gt_requests ?g @ gt_upgrades ?g @ gt_sessions ?g @ [gt_next ?g]) (fst ` set (gt_settled ?g)) (Suc (gt_next ?g))"
      using task_starts [of "gt_requests ?g @ gt_upgrades ?g @ gt_sessions ?g" "[]"] t by simp
    ultimately show ?thesis using True Accept a by (simp add: upgradeDecided_def Let_def gate_inv_def awaits_ok_def)
  qed (use True t a in \<open>simp_all add: upgradeDecided_def Let_def gate_inv_def\<close>)
qed (use assms in \<open>simp add: upgradeDecided_def\<close>)

lemma gate_reach_inv: "gate_reach g \<Longrightarrow> gate_inv g"
  by (induction rule: gate_reach.induct)
    (simp_all add: gate_inv_new gate_inv_request gate_inv_upgrade gate_inv_answered gate_inv_ended gate_inv_close gate_inv_frame gate_inv_decided)

section \<open>Property\<close>

lemma outcomes_iff: "outcomes g ts = Some rs \<longleftrightarrow> list_all2 (\<lambda>i r. map_of (gt_settled g) i = Some r) ts rs"
  unfolding outcomes_def by (induction ts arbitrary: rs) (auto simp: list_all2_Cons1 split: option.splits)

lemma outcomes_settled: "outcomes g ts = Some rs \<Longrightarrow> i \<in> set ts \<Longrightarrow> i \<in> fst ` set (gt_settled g)"
  unfolding outcomes_iff by (induction rule: list_all2_induct) (auto dest!: map_of_SomeD intro: rev_image_eqI)

lemma outcomes_all: "outcomes g ts = Some rs \<Longrightarrow> (\<forall>r \<in> set rs. r = x) \<longleftrightarrow> (\<forall>i \<in> set ts. map_of (gt_settled g) i = Some x)"
  unfolding outcomes_iff by (induction rule: list_all2_induct) auto

lemma firstRejected_Inr: "firstRejected rs = Inr () \<longleftrightarrow> (\<forall>r \<in> set rs. r = Inr ())"
proof -
  have "isl r \<or> r = Inr ()" for r :: "('e, unit) res" by (cases r) simp_all
  then show ?thesis by (auto simp: firstRejected_def find_None_iff find_Some_iff split: option.splits)
qed

lemma closeListener_eq: "closeListener rs shut = firstRejected (rs @ [shut])"
  by (simp add: closeListener_def firstRejected_def)

text \<open>
  C3: A listener closes only when nothing of it is left running. Over every history of requests,
  upgrades, admissions that settle late, sessions and calls of \<open>close\<close>: when the promise of
  \<open>close\<close> settles, no request, upgrade or session is running, a later request is refused and a
  later upgrade is not heard; and the promise resolves exactly when everything it found, and
  the close of the server, ended without an error.
\<close>

theorem listener_close_drains:
  assumes "gate_reach g" and "closeResult g = Some r"
  shows "running g = {} \<and> requestArrived g = g\<lparr>gt_refused := Suc (gt_refused g)\<rparr> \<and> upgradeArrived g = g
     \<and> (r = Inr () \<longleftrightarrow> gt_shut g = Some (Inr ())
          \<and> (\<forall>i \<in> set (the (gt_owned g)) \<union> set (gt_awaited g). map_of (gt_settled g) i = Some (Inr ())))"
proof -
  have inv: "gate_inv g" using assms(1) by (rule gate_reach_inv)
  obtain owned ls rs shut where o: "gt_owned g = Some owned" "outcomes g owned = Some ls" "outcomes g (gt_awaited g) = Some rs"
    and s: "gt_shut g = Some shut" and r: "r = firstRejected ((firstRejected ls # rs) @ [shut])"
    using assms(2) by (auto simp: closeResult_def drained_def liveClosed_def closeListener_eq bind_eq_Some_conv split: option.splits if_splits)
  have "running g \<subseteq> set owned \<union> set (gt_awaited g)" using inv o(1) by (auto simp: gate_inv_def awaits_ok_def running_def)
  also have "\<dots> \<subseteq> fst ` set (gt_settled g)" using outcomes_settled [OF o(2)] outcomes_settled [OF o(3)] by blast
  finally have "running g \<subseteq> fst ` set (gt_settled g)" .
  moreover have "running g \<inter> fst ` set (gt_settled g) = {}" using inv by (simp add: gate_inv_def tasks_ok_def running_def Un_assoc)
  ultimately have "running g = {}" by blast
  moreover have "gt_stopping g" "gt_closing g" using inv o(1) by (simp_all add: gate_inv_def awaits_ok_def)
  moreover have "r = Inr () \<longleftrightarrow> shut = Inr () \<and> (\<forall>x \<in> set ls. x = Inr ()) \<and> (\<forall>x \<in> set rs. x = Inr ())"
    unfolding r firstRejected_Inr by (auto simp: firstRejected_Inr)
  ultimately show ?thesis
    using s o(1) outcomes_all [OF o(2), of "Inr ()"] outcomes_all [OF o(3), of "Inr ()"]
    by (auto simp: requestArrived_def upgradeArrived_def)
qed

text \<open>A request and an upgrade under way when the listener closes; the admission settles after.\<close>

definition ex_gate :: "unit gate" where
  "ex_gate = serverClosed (Inr ()) (socketsClosed (requestSettled 0 (Inr ())
     (upgradeDecided 1 (Some (js ''/sync/live'')) (Inr (Some (js ''u''), None)) False (Inr ())
        (closeStart (upgradeArrived (requestArrived new_gate))))))"

lemma ex_gate_reach: "gate_reach ex_gate"
  unfolding ex_gate_def by (intro gate_reach.intros)

theorem listener_close_drains_witness: "closeResult ex_gate = Some (Inr ()) \<and> running ex_gate = {}"
proof -
  have "closeResult ex_gate = Some (Inr ())"
    by (simp add: ex_gate_def serverClosed_def socketsClosed_def requestSettled_def upgradeDecided_def closeStart_def upgradeArrived_def
        requestArrived_def new_gate_def upgradeOf_def pathOf_def js_def Let_def closeResult_def drained_def liveClosed_def outcomes_def
        firstRejected_def closeListener_def)
  then show ?thesis using listener_close_drains [OF ex_gate_reach] by simp
qed

end
