(* ===== verification/LiveServerSpec.thy ===== *)
theory LiveServerSpec
  imports LiveServer BackendSpec
begin

text \<open>
  What the live side of a listener promises: the sessions of all sockets use the wake hub
  the way its contract asks, so that a commit reaches exactly the sessions that listen to its
  Streams, and a session that is done has released its controller and left nothing behind.
\<close>

section \<open>Subscriptions\<close>

text \<open>
  The share of one session in the hub, beside the open tokens \<open>ts\<close> of the others: its own
  are open, of its own and named by wakes issued before.
\<close>

definition shares :: "token set \<Rightarrow> env \<times> ('c, 'e) serve \<Rightarrow> bool" where
  "shares ts es =
     (hub_inv (fst (fst es)) (ts \<union> set (sv_tokens (snd es)))
      \<and> (\<forall>t \<in> ts \<union> set (sv_tokens (snd es)). t_wake t < snd (fst es))
      \<and> distinct (sv_tokens (snd es)) \<and> ts \<inter> set (sv_tokens (snd es)) = {})"

lemma shares_same: "shares ts (e, s) \<Longrightarrow> sv_tokens s' = sv_tokens s \<Longrightarrow> shares ts (e, s')"
  by (simp add: shares_def)

lemma tokens_closeSocket [simp]: "sv_tokens (closeSocket c why s) = sv_tokens s"
  by (simp add: closeSocket_def)

lemma tokens_fail [simp]: "sv_tokens (fail x s) = sv_tokens s"
  by (simp add: fail_def)

lemma tokens_failed [simp]: "sv_tokens (failed c x s) = sv_tokens s"
  by (simp add: failed_def Let_def)

lemma tokens_pullSettled [simp]: "sv_tokens (pullSettled p s) = sv_tokens s"
  by (simp add: pullSettled_def Let_def)

lemma shares_execute: "shares ts es \<Longrightarrow> shares ts (execute nopull as es)"
proof (induction nopull as es rule: execute.induct)
  case (2 nopull stream as h n s)
  obtain t h' where t: "subscribe stream n h = (t, h')" by fastforce
  have sh: "hub_inv h (ts \<union> set (sv_tokens s))" "\<forall>u \<in> ts \<union> set (sv_tokens s). t_wake u < n"
    "distinct (sv_tokens s)" "ts \<inter> set (sv_tokens s) = {}"
    using "2.prems" by (simp_all add: shares_def)
  have "n \<notin> t_wake ` (ts \<union> set (sv_tokens s))" using sh(2) by blast
  from hub_inv_subscribe [OF sh(1) this t]
  have hub: "hub_inv h' (insert t (ts \<union> set (sv_tokens s)))" and w: "t_wake t = n" by auto
  have "t \<notin> ts \<union> set (sv_tokens s)" using sh(2) w by blast
  moreover have "\<forall>u \<in> insert t (ts \<union> set (sv_tokens s)). t_wake u < Suc n" using sh(2) w by (auto simp: less_SucI)
  moreover have "ts \<union> set (sv_tokens s @ [t]) = insert t (ts \<union> set (sv_tokens s))" by auto
  ultimately have "shares ts ((h', Suc n), s\<lparr>sv_tokens := sv_tokens s @ [t]\<rparr>)"
    using hub sh(3,4) unfolding shares_def by auto
  then show ?case using "2.IH" [OF t [symmetric]] t by simp
next
  case (3 nopull frame as e s)
  then show ?case by (simp add: shares_def)
next
  case (4 nopull request as e s)
  then show ?case by (cases nopull) (simp_all add: shares_def)
qed simp

lemma shares_dispatch: "shares ts es \<Longrightarrow> shares ts (dispatch ctl nopull ev es)"
proof (cases es)
  case (Pair e s)
  assume sh: "shares ts es"
  show ?thesis
  proof (cases "sv_handle s")
    case (Some hd)
    obtain r c where r: "ctl hd (sv_ctl s) ev = (r, c)" by force
    let ?s = "s\<lparr>sv_ctl := c, sv_told := sv_told s @ [ev]\<rparr>"
    have b: "shares ts (e, ?s)" using sh Pair by (simp add: shares_def)
    have "shares ts (e, fail x ?s)" "shares ts (execute nopull as (e, ?s))" for x as
      by (rule shares_same [OF b], simp) (rule shares_execute [OF b])
    then show ?thesis using sh Pair Some r by (cases r) (simp_all add: dispatch_def Let_def)
  qed (use sh Pair in \<open>simp add: dispatch_def\<close>)
qed

lemma hub_inv_unsubscribe_all:
  "hub_inv h (ts \<union> set us) \<Longrightarrow> distinct us \<Longrightarrow> ts \<inter> set us = {} \<Longrightarrow> hub_inv (fold unsubscribe us h) ts"
proof (induction us arbitrary: h)
  case (Cons u us)
  have "hub_inv (unsubscribe u h) (ts \<union> set (u # us) - {u})" using Cons.prems(1) by (intro hub_inv_unsubscribe) auto
  moreover have "ts \<union> set (u # us) - {u} = ts \<union> set us" using Cons.prems by auto
  ultimately show ?case using Cons by simp
qed simp

lemma shares_leave: "shares ts es \<Longrightarrow> shares ts (leave ctl nopull es)"
proof -
  assume sh: "shares ts es"
  define es' where "es' = (if sv_handle (snd es) \<noteq> None then dispatch ctl nopull Closed es else es)"
  have "shares ts es'" unfolding es'_def using sh shares_dispatch [OF sh] by simp
  then have "shares ts ((fold unsubscribe (sv_tokens (snd es')) (fst (fst es')), snd (fst es')), (snd es')\<lparr>sv_tokens := []\<rparr>)"
    using hub_inv_unsubscribe_all unfolding shares_def by auto
  then show ?thesis unfolding leave_def es'_def [symmetric]
    by (cases es') (simp add: Let_def shares_def split del: if_split, auto)
qed

lemma shares_ended: "shares ts es \<Longrightarrow> shares ts (ended ctl nopull x es)"
proof (cases es)
  case (Pair e s)
  assume sh: "shares ts es"
  have "shares ts (case dispatch ctl nopull Closed (e, s) of (e', s') \<Rightarrow> (e', s'\<lparr>sv_phase := Leaving\<rparr>))"
    using shares_dispatch [OF sh, of ctl nopull Closed] Pair by (auto simp: shares_def split: prod.splits)
  then show ?thesis using sh Pair shares_dispatch [OF sh] shares_same [of ts e s "failed None x s"]
    by (simp add: ended_def split: phase.splits)
qed

lemma shares_receive: "shares ts es \<Longrightarrow> shares ts (receive ctl nopull i es)"
proof (cases es)
  case (Pair e s)
  assume sh: "shares ts es"
  note d = shares_dispatch [OF sh] and l = shares_leave [OF sh]
  note same = shares_same [OF sh [unfolded Pair]]
  show ?thesis
  proof (cases i)
    case Frame
    then show ?thesis using sh Pair by (simp add: receive_def same split: phase.splits)
  next
    case (SocketClosed x)
    have "shares ts (e, s\<lparr>sv_open := False\<rparr>)" by (rule same) simp
    then show ?thesis using SocketClosed Pair shares_ended by (fastforce simp: receive_def)
  next
    case (SocketError x)
    then show ?thesis using sh Pair shares_ended by (fastforce simp: receive_def)
  next
    case (Negotiated hd as)
    have "shares ts (e, s\<lparr>sv_handle := Some hd, sv_phase := Leaving\<rparr>)"
      "shares ts (execute nopull as (e, s\<lparr>sv_handle := Some hd, sv_phase := Serving\<rparr>))"
      by (rule same, simp) (rule shares_execute, rule same, simp)
    then show ?thesis using Negotiated sh Pair by (simp add: receive_def)
  next
    case (PullDone p page)
    show ?thesis using d [of ctl nopull "Pulled page"] sh Pair PullDone by (auto simp: receive_def shares_def split: prod.splits)
  next
    case (Wake w)
    then show ?thesis using d sh Pair by (simp add: receive_def split: option.splits)
  qed (use sh Pair l in \<open>simp_all add: receive_def same\<close>)
qed

section \<open>The life of a session\<close>

definition life :: "('c, 'e) serve \<Rightarrow> bool" where
  "life s =
     ((sv_handle s = None \<longrightarrow> sv_told s = [] \<and> sv_tokens s = [] \<and> sv_pulls s = [])
      \<and> (sv_phase s \<in> {Handshaking, Negotiating} \<longrightarrow> sv_handle s = None)
      \<and> (sv_phase s = Serving \<longrightarrow> sv_handle s \<noteq> None)
      \<and> (sv_phase s \<notin> {Draining, Done} \<longrightarrow> \<not> sv_released s \<and> sv_closed s = 0)
      \<and> (sv_phase s \<in> {Draining, Done} \<longrightarrow> sv_tokens s = []
           \<and> (if sv_handle s = None then sv_closed s = 0
               else sv_released s \<and> sv_closed s = 1 \<and> sv_told s \<noteq> [] \<and> last (sv_told s) = Closed))
      \<and> (sv_phase s = Done \<longrightarrow> sv_pulls s = []))"

lemma execute_fields:
  "sv_phase (snd (execute nopull as es)) = sv_phase (snd es)" "sv_handle (snd (execute nopull as es)) = sv_handle (snd es)"
  "sv_released (snd (execute nopull as es)) = sv_released (snd es)" "sv_told (snd (execute nopull as es)) = sv_told (snd es)"
  "sv_closed (snd (execute nopull as es)) = sv_closed (snd es)"
  by (induction nopull as es rule: execute.induct) (auto simp: fail_def closeSocket_def split: prod.splits option.splits)

lemma session_fail_fields [simp]:
  "sv_phase (fail x s) = sv_phase s" "sv_handle (fail x s) = sv_handle s" "sv_released (fail x s) = sv_released s"
  "sv_told (fail x s) = sv_told s" "sv_closed (fail x s) = sv_closed s" "sv_pulls (fail x s) = sv_pulls s"
  by (simp_all add: fail_def closeSocket_def)

lemma dispatch_idle: "sv_handle s = None \<or> sv_released s \<Longrightarrow> dispatch ctl nopull ev (e, s) = (e, s)"
  by (auto simp: dispatch_def split: option.splits)

lemma dispatch_fields:
  assumes "dispatch ctl nopull ev (e, s) = (e', s')"
  shows "sv_phase s' = sv_phase s" "sv_handle s' = sv_handle s" "sv_released s' = sv_released s" "sv_closed s' = sv_closed s"
    and "sv_handle s \<noteq> None \<Longrightarrow> \<not> sv_released s \<Longrightarrow> sv_told s' = sv_told s @ [ev]"
proof -
  have *: "sv_phase s' = sv_phase s \<and> sv_handle s' = sv_handle s \<and> sv_released s' = sv_released s \<and> sv_closed s' = sv_closed s
    \<and> sv_told s' = sv_told s @ [ev]" if "sv_handle s = Some hd" "\<not> sv_released s" for hd
  proof -
    obtain r c where r: "ctl hd (sv_ctl s) ev = (r, c)" by force
    let ?s = "s\<lparr>sv_ctl := c, sv_told := sv_told s @ [ev]\<rparr>"
    show ?thesis
    proof (cases r)
      case (Inl x)
      then show ?thesis using assms that r by (auto simp: dispatch_def)
    next
      case (Inr as)
      then have "s' = snd (execute nopull as (e, ?s))" using assms that r by (simp add: dispatch_def)
      then show ?thesis using execute_fields [of nopull as "(e, ?s)"] by simp
    qed
  qed
  show "sv_phase s' = sv_phase s" "sv_handle s' = sv_handle s" "sv_released s' = sv_released s" "sv_closed s' = sv_closed s"
    "sv_handle s \<noteq> None \<Longrightarrow> \<not> sv_released s \<Longrightarrow> sv_told s' = sv_told s @ [ev]"
    using * dispatch_idle [of s ctl nopull ev e] assms by (cases "sv_handle s"; cases "sv_released s"; simp)+
qed

lemma life_dispatch:
  assumes "life s" and "dispatch ctl nopull ev (e, s) = (e', s')"
  shows "life s'"
proof (cases "sv_handle s = None \<or> sv_released s")
  case True
  then show ?thesis using assms dispatch_idle by (metis prod.inject)
next
  case False
  then show ?thesis using assms(1) dispatch_fields [OF assms(2)] by (auto simp: life_def)
qed

lemma life_failed: "life s \<Longrightarrow> sv_phase s \<in> {Handshaking, Negotiating} \<Longrightarrow> life (failed c x s)"
  by (auto simp: life_def failed_def closeSocket_def Let_def)

lemma life_closeSocket [simp]: "life (closeSocket c why s) = life s"
  by (simp add: closeSocket_def life_def)

lemma life_fail [simp]: "life (fail x s) = life s"
  by (simp add: fail_def) (simp add: life_def)

lemma life_open [simp]: "life (s\<lparr>sv_open := b\<rparr>) = life s"
  by (simp add: life_def)

lemma life_settled: "life s \<Longrightarrow> life (pullSettled p s)"
  by (auto simp: life_def pullSettled_def Let_def)

lemma life_ended: "life s \<Longrightarrow> ended ctl nopull x (e, s) = (e', s') \<Longrightarrow> life s'"
proof (cases "sv_phase s")
  case Serving
  assume l: "life s" and r: "ended ctl nopull x (e, s) = (e', s')"
  obtain e1 s1 where d: "dispatch ctl nopull Closed (e, s) = (e1, s1)" by (cases "dispatch ctl nopull Closed (e, s)")
  have "life s1" using life_dispatch [OF l d] .
  then show ?thesis using r Serving d dispatch_fields [OF d] by (auto simp: ended_def life_def)
qed (auto simp: ended_def life_failed dest: life_dispatch)

lemma life_leave:
  assumes "life s" and "sv_phase s = Leaving" and "leave ctl nopull (e, s) = (e', s')"
  shows "life s'"
proof (cases "sv_handle s")
  case None
  then show ?thesis using assms by (auto simp: leave_def life_def Let_def)
next
  case (Some hd)
  obtain e1 s1 where d: "dispatch ctl nopull Closed (e, s) = (e1, s1)" by (cases "dispatch ctl nopull Closed (e, s)")
  have "\<not> sv_released s" "sv_closed s = 0" using assms(1,2) by (simp_all add: life_def)
  then show ?thesis using assms(3) Some d dispatch_fields [OF d] by (auto simp: leave_def life_def Let_def split: if_splits)
qed

lemma life_receive: "life s \<Longrightarrow> receive ctl nopull i (e, s) = (e', s') \<Longrightarrow> life s'"
proof (cases i)
  case Frame
  assume "life s" "receive ctl nopull i (e, s) = (e', s')"
  then show ?thesis using Frame by (auto simp: receive_def life_def closeSocket_def split: phase.splits if_splits)
next
  case (Negotiated hd as)
  assume l: "life s" and r: "receive ctl nopull i (e, s) = (e', s')"
  let ?s = "s\<lparr>sv_handle := Some hd, sv_phase := Serving\<rparr>"
  have "life (snd (execute nopull as (e, ?s)))" if "sv_phase s = Negotiating"
    using l that execute_fields [of nopull as "(e, ?s)"] by (simp add: life_def)
  then show ?thesis using l r Negotiated by (auto simp: receive_def split: if_splits) (auto simp: life_def)
next
  case (PullDone p page)
  assume l: "life s" and r: "receive ctl nopull i (e, s) = (e', s')"
  obtain e1 s1 where d: "dispatch ctl nopull (Pulled page) (e, s) = (e1, s1)" by (cases "dispatch ctl nopull (Pulled page) (e, s)")
  have "life (pullSettled p s1)" using life_settled [OF life_dispatch [OF l d]] .
  then show ?thesis using PullDone l r d by (auto simp: receive_def split: if_splits)
next
  case (Wake w)
  assume "life s" "receive ctl nopull i (e, s) = (e', s')"
  then show ?thesis using Wake by (auto simp: receive_def split: option.splits dest: life_dispatch [rotated])
next
  case Continue
  assume "life s" "receive ctl nopull i (e, s) = (e', s')"
  then show ?thesis using Continue by (auto simp: receive_def split: if_splits dest: life_leave [rotated 2])
next
  case (NotNegotiated c x)
  assume "life s" "receive ctl nopull i (e, s) = (e', s')"
  then show ?thesis using NotNegotiated by (auto simp: receive_def life_failed split: if_splits)
qed (auto simp: receive_def life_settled split: if_splits dest: life_ended [rotated])

lemma receive_done:
  assumes "life s" and "sv_phase s = Done"
  shows "fst (receive ctl nopull i (e, s)) = e \<and> snd (receive ctl nopull i (e, s)) \<in> {s, s\<lparr>sv_open := False\<rparr>}"
  using assms by (cases i) (auto simp: receive_def ended_def tokenOf_def life_def)

section \<open>All sockets of a listener\<close>

abbreviation tokensOf :: "('c, 'e) listener \<Rightarrow> nat \<Rightarrow> token set" where
  "tokensOf l k \<equiv> set (sv_tokens (ln_sessions l ! k))"

definition openTokens :: "('c, 'e) listener \<Rightarrow> nat set \<Rightarrow> token set" where
  "openTokens l ks = {t. \<exists>k < length (ln_sessions l). k \<in> ks \<and> t \<in> tokensOf l k}"

inductive listener_reach ::
  "(nat \<Rightarrow> 'c \<Rightarrow> live_event \<Rightarrow> ('e, live_action list) res \<times> 'c) \<Rightarrow> 'e option \<Rightarrow> ('c, 'e) listener \<Rightarrow> bool" for ctl nopull where
  started: "listener_reach ctl nopull new_listener"
| accepted: "listener_reach ctl nopull l \<Longrightarrow> listener_reach ctl nopull (accept c l)"
| received: "listener_reach ctl nopull l \<Longrightarrow> listener_reach ctl nopull (deliverTo ctl nopull k i l)"

text \<open>Every session has its share of the hub beside all the others.\<close>

definition listener_inv :: "('c, 'e) listener \<Rightarrow> bool" where
  "listener_inv l =
     (hub_inv (fst (ln_env l)) (openTokens l UNIV)
      \<and> (\<forall>t \<in> openTokens l UNIV. t_wake t < snd (ln_env l))
      \<and> (\<forall>k < length (ln_sessions l). distinct (sv_tokens (ln_sessions l ! k)) \<and> openTokens l (- {k}) \<inter> tokensOf l k = {}
           \<and> life (ln_sessions l ! k)))"

lemma openTokens_split: "k < length (ln_sessions l) \<Longrightarrow> openTokens l UNIV = openTokens l (- {k}) \<union> tokensOf l k"
  by (auto simp: openTokens_def)

lemma shares_of_inv:
  "listener_inv l \<Longrightarrow> k < length (ln_sessions l) \<Longrightarrow> shares (openTokens l (- {k})) (ln_env l, ln_sessions l ! k)"
  unfolding listener_inv_def shares_def using openTokens_split by fastforce

lemma listener_inv_accept:
  assumes "listener_inv l"
  shows "listener_inv (accept c l)"
proof -
  have o: "openTokens (accept c l) ks = openTokens l ks" for ks
    by (auto simp: openTokens_def accept_def nth_append less_Suc_eq new_serve_def)
  show ?thesis using assms unfolding listener_inv_def o
    by (auto simp: accept_def nth_append less_Suc_eq new_serve_def life_def)
qed

lemma openTokens_others:
  "k < length (ln_sessions l) \<Longrightarrow> j \<noteq> k \<Longrightarrow>
     openTokens \<lparr>ln_env = e, ln_sessions = (ln_sessions l)[k := s]\<rparr> (- {j}) = openTokens l (- {j} - {k}) \<union> set (sv_tokens s)"
  by (auto simp: openTokens_def nth_list_update split: if_splits)

lemma openTokens_own:
  "openTokens \<lparr>ln_env = e, ln_sessions = (ln_sessions l)[k := s]\<rparr> (- {k}) = openTokens l (- {k})"
  by (auto simp: openTokens_def nth_list_update split: if_splits)

lemma listener_inv_deliver:
  assumes inv: "listener_inv l"
  shows "listener_inv (deliverTo ctl nopull k i l)"
proof (cases "k < length (ln_sessions l)")
  case True
  let ?s = "ln_sessions l ! k" and ?ts = "openTokens l (- {k})"
  obtain e s where r: "receive ctl nopull i (ln_env l, ?s) = (e, s)" by (cases "receive ctl nopull i (ln_env l, ?s)")
  let ?l = "\<lparr>ln_env = e, ln_sessions = (ln_sessions l)[k := s]\<rparr>"
  have sh: "shares ?ts (e, s)" using shares_receive [OF shares_of_inv [OF inv True]] r by metis
  have lf: "life s" using life_receive [OF _ r] inv True by (simp add: listener_inv_def)
  have u: "openTokens ?l UNIV = ?ts \<union> set (sv_tokens s)"
    using openTokens_split [of k ?l] True by (simp add: openTokens_own)
  have each: "distinct (sv_tokens (ln_sessions ?l ! j)) \<and> openTokens ?l (- {j}) \<inter> tokensOf ?l j = {} \<and> life (ln_sessions ?l ! j)"
    if j: "j < length (ln_sessions l)" for j
  proof (cases "j = k")
    case True
    then show ?thesis using sh lf j openTokens_own [of e l k s] by (simp add: shares_def)
  next
    case False
    have old: "distinct (sv_tokens (ln_sessions l ! j))" "openTokens l (- {j}) \<inter> tokensOf l j = {}" "life (ln_sessions l ! j)"
      using inv j by (simp_all add: listener_inv_def)
    have "tokensOf l j \<subseteq> ?ts" using j False by (auto simp: openTokens_def)
    moreover have "openTokens l (- {j} - {k}) \<subseteq> openTokens l (- {j})" by (auto simp: openTokens_def)
    ultimately show ?thesis using old sh False openTokens_others [OF True False, of e s] by (auto simp: shares_def)
  qed
  have "listener_inv ?l" unfolding listener_inv_def u using sh each by (auto simp: shares_def)
  then show ?thesis using True r by (simp add: deliverTo_def)
qed (use inv in \<open>simp add: deliverTo_def\<close>)

lemma listener_reach_inv: "listener_reach ctl nopull l \<Longrightarrow> listener_inv l"
proof (induction rule: listener_reach.induct)
  case started
  show ?case by (simp add: listener_inv_def new_listener_def openTokens_def hub_inv_empty)
qed (simp_all add: listener_inv_accept listener_inv_deliver)

section \<open>Properties\<close>

lemma find_distinct_wake:
  assumes "inj_on t_wake (set ts)" and "t \<in> set ts"
  shows "List.find (\<lambda>u. t_wake u = t_wake t) ts = Some t"
  using assms
proof (induction ts)
  case (Cons u us)
  show ?case
  proof (cases "t_wake u = t_wake t")
    case True
    then have "u = t" using Cons.prems by (meson inj_on_def list.set_intros(1))
    then show ?thesis by simp
  next
    case False
    then show ?thesis using Cons by (auto simp: inj_on_def)
  qed
qed simp

lemma wake_dispatches:
  assumes "listener_inv l" and "k < length (ln_sessions l)" and "t \<in> tokensOf l k"
  shows "receive ctl nopull (Wake (t_wake t)) (e, ln_sessions l ! k) = dispatch ctl nopull (Committed (t_stream t)) (e, ln_sessions l ! k)"
proof -
  have "inj_on t_wake (tokensOf l k)"
    by (rule inj_on_subset [OF hub_invD(1)]) (use assms in \<open>auto simp: listener_inv_def openTokens_def\<close>)
  then have "tokenOf (t_wake t) (ln_sessions l ! k) = Some t" using assms(3) by (simp add: tokenOf_def find_distinct_wake)
  then show ?thesis by (simp add: receive_def)
qed

text \<open>A session with an open subscription has a controller that is not released, so the wake reaches it.\<close>

lemma wake_is_told:
  assumes "listener_inv l" and "k < length (ln_sessions l)" and "t \<in> tokensOf l k"
  shows "sv_told (snd (receive ctl nopull (Wake (t_wake t)) (e, ln_sessions l ! k))) = sv_told (ln_sessions l ! k) @ [Committed (t_stream t)]"
proof -
  have "life (ln_sessions l ! k)" using assms(1,2) by (simp add: listener_inv_def)
  then have "sv_handle (ln_sessions l ! k) \<noteq> None" "\<not> sv_released (ln_sessions l ! k)" using assms(3) by (auto simp: life_def)
  moreover obtain e' s' where d: "dispatch ctl nopull (Committed (t_stream t)) (e, ln_sessions l ! k) = (e', s')"
    by (cases "dispatch ctl nopull (Committed (t_stream t)) (e, ln_sessions l ! k)")
  ultimately show ?thesis using dispatch_fields(5) [OF d] wake_dispatches [OF assms] d by simp
qed

lemma notify_reaches:
  assumes "listener_inv l" and "k < length (ln_sessions l)" and "t \<in> tokensOf l k" and "t_stream t \<in> set streams"
  shows "t_wake t \<in> set (notify streams (fst (ln_env l)))"
proof -
  have "hub_inv (fst (ln_env l)) (openTokens l UNIV)" using assms(1) by (simp add: listener_inv_def)
  from notify_open [OF this, of streams] show ?thesis using assms(2-4) by (auto simp: openTokens_def)
qed

text \<open>
  On a listener with any number of sockets, opened, served and closed in any order, a
  commit queues the wake of every open subscription to its Streams, once, and no other
  wake; and a wake tells the commit of its Stream to the controller of its session.
\<close>

lemma commit_reaches_live_sessions:
  assumes "listener_reach ctl nopull l"
  shows "distinct (notify streams (fst (ln_env l)))
     \<and> set (notify streams (fst (ln_env l))) =
         {t_wake t |t k. k < length (ln_sessions l) \<and> t \<in> tokensOf l k \<and> t_stream t \<in> set streams}
     \<and> (\<forall>k t. k < length (ln_sessions l) \<and> t \<in> tokensOf l k \<longrightarrow>
          receive ctl nopull (Wake (t_wake t)) (e, ln_sessions l ! k) = dispatch ctl nopull (Committed (t_stream t)) (e, ln_sessions l ! k))"
proof -
  have inv: "listener_inv l" using listener_reach_inv [OF assms] .
  then have hub: "hub_inv (fst (ln_env l)) (openTokens l UNIV)" by (simp add: listener_inv_def)
  have "receive ctl nopull (Wake (t_wake t)) (e, ln_sessions l ! k) = dispatch ctl nopull (Committed (t_stream t)) (e, ln_sessions l ! k)"
    if "k < length (ln_sessions l)" "t \<in> tokensOf l k" for k t by (rule wake_dispatches [OF inv that])
  moreover have "{t_wake t |t k. k < length (ln_sessions l) \<and> t \<in> tokensOf l k \<and> t_stream t \<in> set streams} =
      t_wake ` {t \<in> openTokens l UNIV. t_stream t \<in> set streams}" by (auto simp: openTokens_def)
  ultimately show ?thesis using notify_open [OF hub, of streams] by auto
qed


section \<open>Witnesses\<close>

text \<open>A socket that negotiated, listens to a Stream and asked for a pull.\<close>

definition ex_ctl :: "nat \<Rightarrow> unit \<Rightarrow> live_event \<Rightarrow> (unit, live_action list) res \<times> unit" where
  "ex_ctl h c ev = (Inr [], c)"

definition ex_live :: "(unit, unit) listener" where
  "ex_live = deliverTo ex_ctl None 0 (Negotiated 5 [Listen (js ''a''), PullV05 (js ''p'')])
     (deliverTo ex_ctl None 0 Frame (accept () new_listener))"

lemma ex_live_reach: "listener_reach ex_ctl None ex_live"
  unfolding ex_live_def by (intro listener_reach.received listener_reach.accepted listener_reach.started)

lemmas live_run = ex_live_def deliverTo_def receive_def accept_def new_listener_def new_serve_def subscribe_def new_hub_def

lemma ex_live_tokens:
  "length (ln_sessions ex_live) = 1" "sv_tokens (ln_sessions ex_live ! 0) = [\<lparr>t_set = 0, t_stream = js ''a'', t_wake = 0\<rparr>]"
  by (simp_all add: live_run)

definition ex_done :: "(unit, unit) listener" where
  "ex_done = deliverTo ex_ctl None 0 (PullDone 0 (js ''page''))
     (deliverTo ex_ctl None 0 Continue (deliverTo ex_ctl None 0 (SocketClosed ()) ex_live))"


end
