(* ===== verification/Host.thy ===== *)
theory Host
  imports EffectsSpec Json Backend
begin

text \<open>
  The arms of \<^verbatim>\<open>packages/backend/server/bindings/host.mts\<close> that call the application: an operation's
  handler, a Model's loader with its viewer hook, and the Bootstrap handler, with the
  rejection of \<^verbatim>\<open>packages/backend/server/api/backend.mts\<close> that tells a business refusal from a defect.

  Application code is an argument. A run of a handler is the calls it made on its collector
  and how it ended: the calls are made in order, each caught or not, and the collector
  records them as it would. \<open>retryable\<close>, \<open>translate\<close> (\<open>translateRejection\<close>), \<open>dateOf\<close> (the
  \<open>Date\<close> constructor) and \<open>external\<close> (\<open>native.settleExternal05\<close>) are arguments too.
\<close>

section \<open>Refusals\<close>

datatype 'x host_error =
    MutationRejected jsstr
  | DeclarationError eerr
  | Threw 'x
  | MissingHandler
  | MissingActionModel jsstr
  | MissingLoader
  | HostTypeError
  | UnstableRejection
  | InvalidLoaderAnswer jsstr jsstr

text \<open>\<open>refusal\<close>: the stable code of a business refusal, or \<open>None\<close> for a defect, which is reported.\<close>

definition refusal :: "('x host_error \<Rightarrow> jsstr option) \<Rightarrow> 'x host_error \<Rightarrow> ('x host_error, jsstr option) res" where
  "refusal translate e =
     (case (case e of MutationRejected c \<Rightarrow> Some c | _ \<Rightarrow> translate e) of
        Some c \<Rightarrow> if stableCode c then Inr (Some c) else Inl UnstableRejection
      | None \<Rightarrow> Inr None)"

datatype host_answer =
    Outputs jsv "intent list"
  | RejectionAnswer jsstr
  | Document json
  | LoaderError jsstr jsstr
  | Admitted bool
  | Declarations "(jsstr \<times> record_ref) list"

text \<open>What an arm answers or throws, and what it reports to \<open>onError\<close>.\<close>

type_synonym 'x host_result = "('x host_error, host_answer) res \<times> 'x host_error list"

text \<open>The \<open>catch\<close> of a handler or loader.\<close>

definition caught :: "('x host_error \<Rightarrow> bool) \<Rightarrow> ('x host_error \<Rightarrow> jsstr option) \<Rightarrow> 'x host_error \<Rightarrow> 'x host_result" where
  "caught retryable translate e =
     (if retryable e then (Inl e, [])
      else case refusal translate e of
             Inl e' \<Rightarrow> (Inl e', [])
           | Inr None \<Rightarrow> (Inl e, [e])
           | Inr (Some c) \<Rightarrow> (Inr (RejectionAnswer c), []))"

section \<open>Arguments\<close>

datatype arg_type = ListOf arg_type | DateTimeType | OtherType

fun decodeActionValue :: "(jsv \<Rightarrow> int option) \<Rightarrow> arg_type \<Rightarrow> jsv \<Rightarrow> ('x host_error, jsv) res" where
  "decodeActionValue dateOf t v =
     (if nullish v then Inr v
      else case t of
             ListOf e \<Rightarrow>
               (case v of
                  Arr vs \<Rightarrow> bind_res (traverse (decodeActionValue dateOf e) vs) (\<lambda>us. Inr (Arr us))
                | _ \<Rightarrow> Inl HostTypeError)
           | DateTimeType \<Rightarrow> Inr (Date (dateOf v))
           | OtherType \<Rightarrow> Inr v)"

type_synonym model_fields = "(jsstr \<times> arg_type) list"

definition decodeActionRecord :: "(jsv \<Rightarrow> int option) \<Rightarrow> model_fields \<Rightarrow> jsv \<Rightarrow> ('x host_error, jsv) res" where
  "decodeActionRecord dateOf fds v =
     (case v of
        Obj fs \<Rightarrow>
          bind_res (foldM (\<lambda>acc (name, t).
              case map_of acc name of
                None \<Rightarrow> Inr acc
              | Some u \<Rightarrow> bind_res (decodeActionValue dateOf t u) (\<lambda>u'. Inr (mput name u' acc))) fs fds)
            (\<lambda>fs'. Inr (Obj fs'))
      | _ \<Rightarrow> Inr v)"

record action_input =
  ai_name :: jsstr
  ai_value :: "arg_type option"
  ai_list :: bool
  ai_model :: "jsstr option"

text \<open>\<open>shape\<close>: an absent operand is \<open>null\<close>.\<close>

definition shapeOperand :: "(jsv \<Rightarrow> int option) \<Rightarrow> model_fields \<Rightarrow> jsv \<Rightarrow> ('x host_error, jsv) res" where
  "shapeOperand dateOf fds v = (if nullish v then Inr Null else decodeActionRecord dateOf fds v)"

definition decodeInput ::
  "(jsv \<Rightarrow> int option) \<Rightarrow> (jsstr \<Rightarrow> model_fields option) \<Rightarrow> (jsstr, jsv) jsmap \<Rightarrow> action_input \<Rightarrow> ('x host_error, (jsstr, jsv) jsmap) res" where
  "decodeInput dateOf modelOf args i =
     (let v = (case map_of args (ai_name i) of None \<Rightarrow> Undefined | Some u \<Rightarrow> u) in
      case ai_value i of
        Some t \<Rightarrow>
          bind_res (decodeActionValue dateOf (if ai_list i then ListOf t else t) v) (\<lambda>u. Inr (mput (ai_name i) u args))
      | None \<Rightarrow>
          (case ai_model i of
             None \<Rightarrow> Inr args
           | Some m \<Rightarrow>
               (case modelOf m of
                  None \<Rightarrow> Inl (MissingActionModel m)
                | Some fds \<Rightarrow>
                    bind_res
                      (if ai_list i
                       then (case v of
                               Arr vs \<Rightarrow> bind_res (traverse (shapeOperand dateOf fds) vs) (\<lambda>us. Inr (Arr us))
                             | _ \<Rightarrow> Inl HostTypeError)
                       else shapeOperand dateOf fds v)
                      (\<lambda>u. Inr (mput (ai_name i) u args)))))"

section \<open>Handlers\<close>

text \<open>How a run of application code on a collector went: its calls, and how it ended.\<close>

type_synonym ('x, 'a) script = "call list \<times> ('x host_error, 'a) res"

text \<open>\<open>scopedStreams\<close> opens the handle of the bound Stream first; a handler without a context starts at once.\<close>

definition runHandler ::
  "'s collector \<Rightarrow> jsstr option \<Rightarrow> ('x, jsv) script \<Rightarrow> 's \<Rightarrow> ('x host_error, jsv) res \<times> 's" where
  "runHandler c stream scr s =
     (case (case stream of None \<Rightarrow> (Inr (), s) | Some n \<Rightarrow> perform c (HandleCall (Str n)) s) of
        (Inl e, s') \<Rightarrow> (Inl (DeclarationError e), s')
      | (Inr _, s') \<Rightarrow> (snd scr, snd (performAll c (fst scr) s')))"

definition outputsOf :: "jsv \<Rightarrow> jsv" where
  "outputsOf v = (if v = Undefined then Obj [] else v)"

text \<open>A Mutation settles what it declared.\<close>

definition handleMutation ::
  "('x host_error \<Rightarrow> bool) \<Rightarrow> ('x host_error \<Rightarrow> jsstr option) \<Rightarrow> effects collector \<Rightarrow> jsstr option \<Rightarrow> ('x, jsv) script \<Rightarrow>
   'x host_result \<times> effects" where
  "handleMutation retryable translate c stream scr =
     (case runHandler c stream scr new_effects of
        (Inl e, s) \<Rightarrow> (caught retryable translate e, closeEffects s)
      | (Inr v, s) \<Rightarrow> ((Inr (Outputs (outputsOf v) (declarations s)), []), closeEffects s))"

text \<open>A bound Query fails with a refused declaration, whatever its handler caught.\<close>

definition handleQuery ::
  "('x host_error \<Rightarrow> bool) \<Rightarrow> ('x host_error \<Rightarrow> jsstr option) \<Rightarrow> tracking collector \<Rightarrow> jsstr \<Rightarrow> ('x, jsv) script \<Rightarrow>
   'x host_result \<times> tracking" where
  "handleQuery retryable translate c stream scr =
     (case runHandler c (Some stream) scr new_tracking of
        (Inl e, s) \<Rightarrow> (caught retryable translate e, closeTracking s)
      | (Inr v, s) \<Rightarrow>
          (case t_failed s of
             Some (_, e) \<Rightarrow> (caught retryable translate (DeclarationError e), closeTracking s)
           | None \<Rightarrow> ((Inr (Outputs (outputsOf v) (map (\<lambda>(n, r). Track n r) (trackingOf s))), []), closeTracking s)))"

text \<open>A Query without a context has no handles.\<close>

definition handleLegacyQuery ::
  "('x host_error \<Rightarrow> bool) \<Rightarrow> ('x host_error \<Rightarrow> jsstr option) \<Rightarrow> ('x host_error, jsv) res \<Rightarrow> 'x host_result" where
  "handleLegacyQuery retryable translate r =
     (case r of Inl e \<Rightarrow> caught retryable translate e | Inr v \<Rightarrow> (Inr (Outputs (outputsOf v) []), []))"

record action_request =
  aq_key :: jsstr
  aq_arguments :: "(jsstr, jsv) jsmap"
  aq_callId :: jsstr
  aq_stream :: "jsstr option"

record action_entry =
  ae_query :: bool
  ae_inputs :: "action_input list"
  ae_models :: "jsstr \<Rightarrow> model_fields option"

text \<open>
  \<open>handleAction\<close>: the arguments are decoded outside the \<open>try\<close>; with commit groups the
  publication scope becomes the call's.
\<close>

definition handleAction ::
  "nat \<Rightarrow> ('x host_error \<Rightarrow> bool) \<Rightarrow> ('x host_error \<Rightarrow> jsstr option) \<Rightarrow> (jsv \<Rightarrow> int option) \<Rightarrow>
   effects collector \<Rightarrow> tracking collector \<Rightarrow> (jsstr, action_entry) jsmap \<Rightarrow>
   (jsstr, (jsstr, jsv) jsmap \<Rightarrow> ('x, jsv) script) jsmap \<Rightarrow> action_request \<Rightarrow> 'e session \<Rightarrow> 'x host_result \<times> 'e session" where
  "handleAction groupSize retryable translate dateOf ec tc actions handlers rq ses =
     (let ses' = (if 1 < groupSize then ses\<lparr>publicationScope := Some (aq_callId rq)\<rparr> else ses) in
      (case (map_of actions (aq_key rq), map_of handlers (aq_key rq)) of
         (Some a, Some handler) \<Rightarrow>
           (case foldM (decodeInput dateOf (ae_models a)) (aq_arguments rq) (ae_inputs a) of
              Inl e \<Rightarrow> (Inl e, [])
            | Inr args \<Rightarrow>
                if ae_query a
                then (case aq_stream rq of
                        None \<Rightarrow> handleLegacyQuery retryable translate (snd (handler args))
                      | Some n \<Rightarrow> fst (handleQuery retryable translate tc n (handler args)))
                else fst (handleMutation retryable translate ec (aq_stream rq) (handler args)))
       | _ \<Rightarrow> (Inl MissingHandler, []), ses'))"

section \<open>Loaders\<close>

datatype load_mode = Canonical | Prepare | Viewer

text \<open>The viewer hook: what it declares is settled before the loader runs.\<close>

definition runHook ::
  "effects collector \<Rightarrow> (intent list \<Rightarrow> ('x host_error, unit) res) \<Rightarrow> ('x, unit) script \<Rightarrow> ('x host_error, unit) res" where
  "runHook c external scr =
     (let s = snd (performAll c (fst scr) new_effects) in
      bind_res (snd scr) (\<lambda>_. external (declarations s)))"

definition loadRows ::
  "effects collector \<Rightarrow> (intent list \<Rightarrow> ('x host_error, unit) res) \<Rightarrow> ('x, unit) script option \<Rightarrow> load_mode \<Rightarrow>
   (jsv list \<Rightarrow> ('x host_error, jsv) res) \<Rightarrow> jsv list \<Rightarrow> ('x host_error, jsv) res" where
  "loadRows c external hook mode loader ids =
     bind_res (case hook of Some scr \<Rightarrow> if mode \<noteq> Canonical then runHook c external scr else Inr () | None \<Rightarrow> Inr ()) (\<lambda>_.
       if mode = Prepare then Inr (Arr []) else loader ids)"

text \<open>The check of the rows; the reason is the text of the message.\<close>

definition answerRows :: "jsv \<Rightarrow> (jsstr, json) res" where
  "answerRows rows =
     (case rows of
        Arr vs \<Rightarrow>
          if Undefined \<in> set vs then Inl (js ''an undefined entry'')
          else (case encodeCallbackJson rows of
                  Inl UnsafeBigint \<Rightarrow> Inl (js ''bigint outside safe integer range'')
                | Inl Nonfinite \<Rightarrow> Inl (js ''nonfinite callback value'')
                | Inl _ \<Rightarrow> Inl (js ''undefined callback value'')
                | Inr d \<Rightarrow> Inr (case d of None \<Rightarrow> JNull | Some x \<Rightarrow> x))
      | _ \<Rightarrow> Inl (js ''a non-array result''))"

definition handleLoad ::
  "('x host_error \<Rightarrow> bool) \<Rightarrow> ('x host_error \<Rightarrow> jsstr option) \<Rightarrow> (jsv \<Rightarrow> int option) \<Rightarrow> effects collector \<Rightarrow>
   (intent list \<Rightarrow> ('x host_error, unit) res) \<Rightarrow> (jsstr, jsv list \<Rightarrow> ('x host_error, jsv) res) jsmap \<Rightarrow> model_fields option \<Rightarrow>
   ('x, unit) script option \<Rightarrow> load_mode \<Rightarrow> jsstr \<Rightarrow> jsv list \<Rightarrow> 'x host_result" where
  "handleLoad retryable translate dateOf c external loaders fds hook mode key identities =
     (case map_of loaders key of
        None \<Rightarrow> (Inl MissingLoader, [])
      | Some loader \<Rightarrow>
          (case traverse (\<lambda>i. case fds of None \<Rightarrow> Inr i | Some fs \<Rightarrow> decodeActionRecord dateOf fs i) identities of
             Inl e \<Rightarrow> (Inl e, [])
           | Inr ids \<Rightarrow>
               (case loadRows c external hook mode loader ids of
                  Inl e \<Rightarrow> caught retryable translate e
                | Inr rows \<Rightarrow>
                    (case answerRows rows of
                       Inr d \<Rightarrow> (Inr (Document d), [])
                     | Inl reason \<Rightarrow> (Inr (LoaderError key reason), [InvalidLoaderAnswer key reason])))))"

section \<open>Bootstrap and admission\<close>

definition handleBootstrap :: "tracking collector \<Rightarrow> jsstr \<Rightarrow> ('x, unit) script option \<Rightarrow> 'x host_result \<times> tracking" where
  "handleBootstrap c stream scr =
     (case scr of
        None \<Rightarrow> ((Inr (Declarations []), []), closeTracking new_tracking)
      | Some r \<Rightarrow>
          (case runHandler c (Some stream) (fst r, bind_res (snd r) (\<lambda>_. Inr Undefined)) new_tracking of
             (Inl e, s) \<Rightarrow> ((Inl e, []), closeTracking s)
           | (Inr _, s) \<Rightarrow>
               (case t_failed s of
                  Some (_, e) \<Rightarrow> ((Inl (DeclarationError e), []), closeTracking s)
                | None \<Rightarrow> ((Inr (Declarations (trackingOf s)), []), closeTracking s))))"

text \<open>A Stream is admitted only when the application authorizes it.\<close>

definition handleAdmit :: "(jsstr \<Rightarrow> jsstr \<Rightarrow> ('x host_error, jsv) res) option \<Rightarrow> jsstr \<Rightarrow> jsstr \<Rightarrow> ('x host_error, jsv) res" where
  "handleAdmit authorize owner stream = (case authorize of None \<Rightarrow> Inr (Bool False) | Some f \<Rightarrow> f owner stream)"

section \<open>Properties\<close>

lemma keepKind_Some: "keepKind e f \<noteq> None"
  by (auto simp: keepKind_def keepFailure_def split: option.splits)

lemma refused_call_fails:
  assumes "Inl e \<in> set (fst (performAll (trackingCollector num page entries loaded) ks s))"
  shows "t_failed (snd (performAll (trackingCollector num page entries loaded) ks s)) \<noteq> None"
proof -
  have "errorsOf (fst (performAll (trackingCollector num page entries loaded) ks s)) \<noteq> []"
    using assms by (force simp: errorsOf_def map_filter_def filter_empty_conv)
  then show ?thesis unfolding performAll_failed by (cases "errorsOf (fst (performAll (trackingCollector num page entries loaded) ks s))" rule: rev_cases) (use keepKind_Some in auto)
qed

lemma caught_not_settled: "fst (caught retryable translate e) \<noteq> Inr (Outputs v ds)"
  by (simp add: caught_def split: sum.splits option.splits)

text \<open>
  C36: A bound Query one of whose declarations was refused never settles, whatever its
  handler caught and returned: it fails or is rejected, and no output and no declaration of
  it is answered. The collector is closed in every case.
\<close>

theorem refused_declaration_fails_query:
  assumes "Inl e \<in> set (fst (performAll (trackingCollector num page entries loaded) (HandleCall (Str stream) # fst scr) new_tracking))"
  shows "fst (fst (handleQuery retryable translate (trackingCollector num page entries loaded) stream scr)) \<noteq> Inr (Outputs v ds)
     \<and> \<not> t_open (snd (handleQuery retryable translate (trackingCollector num page entries loaded) stream scr))"
proof -
  let ?c = "trackingCollector num page entries loaded"
  obtain r s where p: "perform ?c (HandleCall (Str stream)) new_tracking = (r, s)" by force
  show ?thesis
  proof (cases r)
    case (Inl x)
    then show ?thesis using p by (simp add: handleQuery_def runHandler_def caught_not_settled closeTracking_def)
  next
    case (Inr u)
    then have "t_failed (snd (performAll ?c (fst scr) s)) \<noteq> None"
      using refused_call_fails [OF assms] p by (simp add: case_prod_beta)
    then show ?thesis using p Inr
      by (auto simp: handleQuery_def runHandler_def caught_not_settled closeTracking_def split: sum.splits)
  qed
qed

lemma encodeItems_length: "encodeItems vs = Inr ds \<Longrightarrow> length ds = length vs"
  by (induction vs arbitrary: ds) (auto simp: res_simps)

lemma answerRows_carries:
  assumes "answerRows rows = Inr d"
  shows "\<exists>vs ds. rows = Arr vs \<and> d = JArr ds \<and> length ds = length vs \<and> (list_all carried vs \<longrightarrow> map decodeJson ds = map wireValue vs)"
proof -
  obtain vs where vs: "rows = Arr vs" using assms by (cases rows) (simp_all add: answerRows_def)
  obtain r where r: "encodeCallbackJson rows = Inr r" "d = (case r of None \<Rightarrow> JNull | Some x \<Rightarrow> x)"
    using assms vs by (auto simp: answerRows_def split: if_splits sum.splits json_error.splits)
  then obtain ds where ds: "encodeItems vs = Inr ds" "d = JArr ds" using vs by (auto simp: res_simps)
  then show ?thesis using vs encodeItems_length encode_faithful(2) by blast
qed

text \<open>
  A loader's answer carries its rows: an answered document has one item per row, which
  reads back as the row when the row is made of data; otherwise the answer is an error, a
  rejection, or the failure is thrown.
\<close>

lemma loader_answer_carries_rows:
  assumes "fst (handleLoad retryable translate dateOf c external loaders fds hook mode key identities :: 'x host_result) = Inr (Document d)"
  shows "\<exists>loader ids vs ds. map_of loaders key = Some loader \<and> length ids = length identities
     \<and> loadRows c external hook mode loader ids = Inr (Arr vs)
     \<and> d = JArr ds \<and> length ds = length vs \<and> (list_all carried vs \<longrightarrow> map decodeJson ds = map wireValue vs)"
proof -
  obtain loader where l: "map_of loaders key = Some loader" using assms by (auto simp: handleLoad_def split: option.splits)
  let ?dec = "traverse (\<lambda>i. case fds of None \<Rightarrow> Inr i | Some fs \<Rightarrow> decodeActionRecord dateOf fs i) identities
    :: ('x host_error, jsv list) res"
  obtain ids where i: "?dec = Inr ids" using assms l by (cases ?dec) (simp_all add: handleLoad_def)
  obtain rows where rows: "loadRows c external hook mode loader ids = Inr rows"
    using assms l i by (cases "loadRows c external hook mode loader ids") (auto simp: handleLoad_def caught_def split: if_splits sum.splits option.splits)
  then have "answerRows rows = Inr d" using assms l i by (auto simp: handleLoad_def split: sum.splits)
  from answerRows_carries [OF this] rows l traverse_length [OF i] show ?thesis by blast
qed

text \<open>
  A defect - an error that is neither retryable nor a business refusal - is not answered
  as data: a handler's or loader's error is reported and thrown as it is.
\<close>

lemma defect_is_thrown:
  assumes "\<not> retryable (Threw x)" and "translate (Threw x) = None"
  shows "handleLegacyQuery retryable translate (Inl (Threw x)) = (Inl (Threw x), [Threw x])
     \<and> fst (handleMutation retryable translate ec None (calls, Inl (Threw x))) = (Inl (Threw x), [Threw x])"
  using assms by (simp add: handleLegacyQuery_def handleMutation_def runHandler_def caught_def refusal_def)

section \<open>Witnesses\<close>

theorem refused_declaration_fails_query_witness:
  "fst (fst (handleQuery (\<lambda>_. False) (\<lambda>_. None) (trackingCollector (\<lambda>_. []) True [] None) (js '' '')
     ([], Inr Null :: (unit host_error, jsv) res))) \<noteq> Inr (Outputs Null [])"
proof -
  have "Inl BlankStream \<in> set (fst (performAll (trackingCollector (\<lambda>_. []) True [] None)
      (HandleCall (Str (js '' '')) # fst ([], Inr Null :: (unit host_error, jsv) res)) new_tracking))"
    by (simp add: collector_run declareBody_def trackingCollector_def trackingName_def streamNameCheck_def trim_def jsSpace_def js_def split: prod.splits)
  from refused_declaration_fails_query [OF this] show ?thesis by blast
qed

end
