(* ===== verification/Spec2Isabelle.thy ===== *)
theory Spec2Isabelle
  imports Publication Endpoints Drivers Statements Diagnostics TransactionsSpec BridgeSpec ClientSpec Invocation Observe LiveUpgrade Listener LiveServerSpec Host
begin

text \<open>
  Axton keeps the data of an application's clients in step with its PostgreSQL database. This
  development models the TypeScript side of it, which stands between the application and the
  native (Rust) engine: on the server the persistence, the transactions, the callbacks of
  the application and the listener; on the client the bridge to the runtime and the API over
  it. Paths below are relative to \<^verbatim>\<open>src/packages\<close>.

  \<^bold>\<open>How the parts interact.\<close> A request reaches the listener over HTTP or a live socket. The
  backend runs it as one transaction: \<open>run\<close> opens it with retries, gives it a session, and
  hands it to the engine with a host, through which the engine calls back. Every callback is
  executed by the session: a persistence request goes to the statements of the framework
  tables, a handler, loader or Bootstrap request to the application, whose declarations a
  collector captures. The session remembers the Streams the transaction published to, and
  after the commit the backend wakes the subscribers of those Streams, among them the live
  sockets, whose controllers pull what changed. On a client the application's calls become
  tasks of the bridge; the runtime answers them, runs the application's callbacks through the
  bridge, publishes rows, statuses and outcomes to the listeners, and asks the effect
  executor for platform work: timers, requests, sockets and authentication.

  \<^bold>\<open>Server theories\<close>, each component after those it calls.

  \<^item> \<open>Prelude\<close>: results, loops that stop at the first throw, JavaScript Maps (the locale
    \<open>key_map\<close>, interpreted as \<open>jm\<close>). \<open>JsValue\<close>: values, text as UTF-16 code units, and the proof that the
    Stream order \<open>byteOrder\<close> is the order of the UTF-8 encodings. \<open>Calendar\<close>: the RFC 3339
    date-times of \<^verbatim>\<open>effects.mts\<close>. \<open>Json\<close>: \<open>JSON.stringify\<close> as the sources use it.
  \<^item> \<open>Tables\<close>: \<^verbatim>\<open>backend/postgres/migration.sql\<close> and \<^verbatim>\<open>src/sql.mts\<close>, one function per statement
    over a record of the tables. \<open>Persistence\<close>: \<^verbatim>\<open>src/persistence.mts\<close>, one function per request.
    \<open>StoreWf\<close> and \<open>StreamWf\<close> prove the tables' invariant \<open>wf_db\<close>; \<open>Publish\<close> (locale
    \<open>bounded_statement\<close>) the publication and delivery operations; \<open>PersistenceSpec\<close> states the
    promises: a Batch is admitted once and its results read back in order, a delivery page
    is complete, fast paths equal the general ones.
  \<^item> \<open>Session\<close>: \<^verbatim>\<open>backend/server/bindings/session.mts\<close> and the persistence arm of
    \<^verbatim>\<open>host.mts\<close>; every change of a Stream that survives to the commit is among the wakes.
  \<^item> \<open>Retry\<close>: \<^verbatim>\<open>retryable.mts\<close>, \<^verbatim>\<open>driver.mts\<close>, \<^verbatim>\<open>pg.mts\<close>; the decision to retry, the backoff and
    the life of a connection. \<open>Drivers\<close>: \<^verbatim>\<open>prisma.mts\<close> and \<^verbatim>\<open>drizzle.mts\<close>, whose placeholders are
    bound like those of node-postgres. \<open>Statements\<close>: \<^verbatim>\<open>statements.mts\<close>, the splitting of a SQL
    file, against a grammar of its lexemes.
  \<^item> \<open>Effects\<close> and \<open>EffectsSpec\<close>: \<^verbatim>\<open>effects.mts\<close> and \<^verbatim>\<open>api/stream.mts\<close>. The interface
    \<open>StreamCollector\<close> is the locale \<open>stream_collector\<close>, interpreted by the two collectors.
  \<^item> \<open>Host\<close>: the arms of \<^verbatim>\<open>host.mts\<close> that call the application.
  \<^item> \<open>Backend\<close> and \<open>BackendSpec\<close>: \<^verbatim>\<open>api/backend.mts\<close>, its registration, commit groups,
    transactions and the wake hub. \<open>Publication\<close>: its \<open>publish\<close>, \<open>transaction\<close> and \<open>initialize\<close>,
    composed from the session, the collector and the tables. \<open>RequestText\<close>: the decoding of a
    request's bytes. \<open>Endpoints\<close>: the protocol entry points, from the text of a request to the
    transactions it commits and the Streams they wake.
  \<^item> \<open>Diagnostics\<close>: \<^verbatim>\<open>api/diagnostics.mts\<close>; observing code changes no outcome, and the spans of a
    history form one tree per operation. The calls that open spans are modelled without them
    elsewhere, which this justifies.
  \<^item> \<open>Http\<close>: \<^verbatim>\<open>connection/admission.mts\<close> and \<^verbatim>\<open>http.mts\<close>. \<open>LiveServer\<close> and \<open>LiveServerSpec\<close>:
    \<^verbatim>\<open>connection/live.mts\<close>, any number of sockets over one hub. \<open>Listener\<close>: \<^verbatim>\<open>listener.mts\<close> and the
    shutdown of \<^verbatim>\<open>live.mts\<close>; a close settles only when nothing is running.

  \<^bold>\<open>Client theories\<close> (\<^verbatim>\<open>frontend/client-js\<close>).

  \<^item> \<open>Bridge\<close> and \<open>BridgeSpec\<close>: \<^verbatim>\<open>bindings/bridge.mts\<close>; a request settles exactly once, a callback
    runs at most once.
  \<^item> \<open>Executor\<close> and \<open>ExecutorSpec\<close>: \<^verbatim>\<open>bindings/connection.mts\<close>, over the model of the bridge; an
    effect ends exactly once and an uninstalled connection is silent.
  \<^item> \<open>LiveSocket\<close>: \<^verbatim>\<open>bindings/transport.mts\<close> and the frame buffer of \<^verbatim>\<open>live.mts\<close> (and of the React
    Native one). \<open>LiveUpgrade\<close>: how its socket opens, ends and is refused.
  \<^item> \<open>Calls\<close>, \<open>CallsSpec\<close>: \<^verbatim>\<open>api/actions.mts\<close>. \<open>Invocation\<close>: the direct calls of \<^verbatim>\<open>api/runtime.mts\<close>.
  \<^item> \<open>Subscriptions\<close>, \<open>SubscriptionsSpec\<close>: \<^verbatim>\<open>api/subscriptions.mts\<close>.
  \<^item> \<open>Transactions\<close>, \<open>TransactionsSpec\<close>: \<^verbatim>\<open>api/transaction.mts\<close>, \<^verbatim>\<open>local.mts\<close>,
    \<^verbatim>\<open>command-accounting.mts\<close> and the React Native transaction; their common contract is the
    locale \<open>command_scope\<close>, interpreted three times.
  \<^item> \<open>Watch\<close>: \<^verbatim>\<open>api/model-watch.mts\<close>. \<open>Observe\<close>: the observers of \<^verbatim>\<open>api/runtime.mts\<close>; what an
    observer needs of the function that reads a publication is the locale \<open>receiver\<close>,
    interpreted by the cache of a watch.
  \<^item> \<open>Client\<close>, \<open>ClientSpec\<close>: the client of \<^verbatim>\<open>api/runtime.mts\<close> over the executor, the calls and the
    handles; one connection at a time, and a close that ends everything.

  This theory composes the server: the route of a request, its admission, the entry point, its
  transactions, the tables, the wakes and the live sockets. What an answered request changed
  reaches every live session that listens to it.

  \<^bold>\<open>Conventions.\<close> Stateful code is state passing over a record of its state. A throw is
  \<open>Inl\<close>. An asynchronous function is cut at its \<open>await\<close>s into one operation per stretch, so
  other operations may fall between; reachable states are an \<open>inductive\<close> predicate and
  invariants go by rule induction. What code does outside itself (calls of listeners, messages,
  answers) is recorded in a field of its state. Code outside the sources - the engine, the
  platform, PostgreSQL's JSON parser, the application - is an argument of the definitions.

  \<^bold>\<open>Loops and bounds.\<close> There is no fuel. Loops over data are structural or have a measure: the
  batches of a statement and the commit groups of a push by what is left, the scanner of a SQL
  file by the text left, the retries by the attempts left, the year of an instant by its distance. Only the retry decision, which
  follows references between error objects, is a partial function, because it need not end:
  it is proved to answer on every graph whose adapter references are well-founded, and not to
  answer on a cycle of them. Counters are unbounded integers with the check of the source
  (\<open>safe_int\<close>) wherever it makes one.

  \<^bold>\<open>Not modelled.\<close>

  \<^item> The Rust engine, the compiler and the wire protocol: other languages; a parameter here.
  \<^item> Type declarations, the native loaders and the generated APIs: no behaviour of their own.
  \<^item> The tools and the platform: PostgreSQL's own execution of a statement beyond the tables, Prisma,
    Drizzle, the URL parser, sockets and timers.
  \<^item> The example application, the integration tests and the copies of earlier persistence
    versions kept as performance baselines: not part of the program.
\<close>

section \<open>From a request to the live clients\<close>

text \<open>A request to the listener of a backend, whose response is open; \<open>raise\<close> says how \<^verbatim>\<open>http.mts\<close> sees an error of the backend.\<close>

definition listenRequest ::
  "surroundings \<Rightarrow> engine \<Rightarrow> perr \<Rightarrow> nat \<Rightarrow> (api_error \<Rightarrow> 'e raised) \<Rightarrow> (nat list \<Rightarrow> jsv option) \<Rightarrow>
   ('e admit_error, jsstr option \<times> refusal option) res \<Rightarrow> 'e http_request \<Rightarrow> 'e exchange" where
  "listenRequest v eng undecodable gsize raise parse who rq =
     handleRequest MAX_BODY parse (\<lambda>e. Some (\<lambda>owner bytes. map_sum raise fst (api v eng undecodable gsize e owner (Bytes bytes))))
       who False rq"


text \<open>An engine that publishes to Stream \<open>b\<close>, and a listener with a session on it.\<close>

definition ex_surroundings :: surroundings where
  "ex_surroundings = \<lparr>v_key_ok = \<lambda>_. True, v_now = 0, v_ready = \<lambda>_. Inr (), v_groups = True, v_driver = \<lambda>_ _. (Inr (), Inr (), Inr (), Inr ()),
     v_tables = \<lambda>_ _. empty_db, v_retryable = \<lambda>_. False, v_retries = 3, v_delay = \<lambda>_. 0\<rparr>"

definition ex_engine :: engine where
  "ex_engine = (let call = (\<lambda>_ _ _ _. (ex_requests, Inr (js ''ok'')))
     in \<lparr>n_read = call, n_delivery = call, n_live = call, n_handshake = call, n_materialize = call, n_negotiate = call,
         n_batches = True, n_validate = \<lambda>wire. Inr (wire, 1), n_group = \<lambda>_ _ _ _ _ _. (ex_requests, Inr (Arr [Str (js ''ok'')])),
         n_member = \<lambda>_ _ _ _ _. (ex_requests, Inr (js ''ok'')), n_encode = \<lambda>_ _. Inr (js ''ack'')\<rparr>)"

definition ex_served :: "unit exchange" where
  "ex_served = listenRequest ex_surroundings ex_engine SqlCheck 1 (\<lambda>_. Missing) (\<lambda>_. Some (Obj []))
     (admission (Inr (Str (js ''u''))) None) ex_request"

definition ex_listening :: "(unit, unit) listener" where
  "ex_listening = deliverTo ex_ctl None 0 (Negotiated 5 [Listen (js ''b'')]) (deliverTo ex_ctl None 0 Frame (accept () new_listener))"

lemma ex_listening_reach: "listener_reach ex_ctl None ex_listening"
  unfolding ex_listening_def by (intro listener_reach.received listener_reach.accepted listener_reach.started)

lemma ex_engine_orderly: "orderly_engine ex_surroundings ex_engine"
  using ex_run(1) wf_empty_db by (simp add: orderly_engine_def orderly_def ex_surroundings_def ex_engine_def Let_def)

lemma ex_api:
  "api ex_surroundings ex_engine SqlCheck 1 Pull owner (Bytes [1, 2]) =
     Inr (js ''ok'', [\<lparr>k_before = empty_db, k_after = commit_db ex_tables, k_woken = [js ''b'']\<rparr>])"
  using ex_run(2)
  by (simp add: api_def entry_def transact_def run_def withRetries_def withRetriesFrom.simps pgAttempt_def Backend.bound_def operate_def
      text_of_def BOM_def ex_surroundings_def ex_engine_def assertCommittable_def Let_def start_tx_def) (simp add: new_session_def)


end
